(* ===== verification/Prelude.thy ===== *)
theory Prelude
  imports Main "HOL-Library.Word" "HOL-Library.Monad_Syntax"
begin

text \<open>
  Shared vocabulary of the development: the fixed-width integers of the kernel, byte
  buffers with bounds-checked access, first-match scans of fixed tables, and the
  arithmetic of power-of-two masks.

  Conventions used by every component theory:
  \<^item> a C integer of width \<open>w\<close> is a \<open>w word\<close>, so wrap-around is the arithmetic of the
    type; sizes and offsets that the code never lets wrap are \<open>nat\<close>, read off with \<open>unat\<close>;
  \<^item> a byte array or the memory behind a \<open>char *\<close> is a \<open>u8 list\<close>; an access outside the
    list is a fault, and a function that may fault returns an \<open>option\<close> whose \<open>None\<close> is
    that fault;
  \<^item> error codes are the \<open>int\<close> values the C code returns.
\<close>

unbundle bit_operations_syntax

type_synonym u8 = "8 word"
type_synonym u16 = "16 word"
type_synonym u32 = "32 word"
type_synonym u64 = "64 word"

named_theorems fault_simps \<open>when a bounds-checked access succeeds, and with what result\<close>
named_theorems wf_intros \<open>every operation keeps its component's well-formedness\<close>

lemma uint_eq_iff [simp]: "uint a = uint b \<longleftrightarrow> a = b" for a b :: "'a::len word"
  by (simp add: word_uint_eq_iff)

lemma bind_Some_map: "Option.bind m (\<lambda>x. Some (f x)) = map_option f m"
  by (cases m) auto

subsection \<open>Bounds-checked byte buffers\<close>

definition buf_read :: "'a list \<Rightarrow> nat \<Rightarrow> nat \<Rightarrow> 'a list option" where
  "buf_read b off n = (if off + n \<le> length b then Some (take n (drop off b)) else None)"

definition buf_write :: "'a list \<Rightarrow> nat \<Rightarrow> 'a list \<Rightarrow> 'a list option" where
  "buf_write b off xs =
     (if off + length xs \<le> length b
      then Some (take off b @ xs @ drop (off + length xs) b) else None)"

lemma buf_read_ok [fault_simps]:
  "off + n \<le> length b \<Longrightarrow> buf_read b off n = Some (take n (drop off b))"
  by (simp add: buf_read_def)

lemma buf_write_ok [fault_simps]:
  "off + length xs \<le> length b \<Longrightarrow>
     buf_write b off xs = Some (take off b @ xs @ drop (off + length xs) b)"
  by (simp add: buf_write_def)

lemma buf_read_length: "buf_read b off n = Some xs \<Longrightarrow> length xs = n"
  by (auto simp: buf_read_def split: if_splits)

lemma buf_write_length: "buf_write b off xs = Some b' \<Longrightarrow> length b' = length b"
  by (auto simp: buf_write_def split: if_splits)

lemma buf_read_write_same:
  "buf_write b off xs = Some b' \<Longrightarrow> n \<le> length xs \<Longrightarrow> buf_read b' off n = Some (take n xs)"
  by (auto simp: buf_write_def buf_read_def split: if_splits)

text \<open>Reads and writes of disjoint ranges do not disturb each other.\<close>

lemma buf_read_write_disjoint:
  assumes w: "buf_write b off xs = Some b'"
    and d: "off' + n \<le> off \<or> off + length xs \<le> off'"
  shows "buf_read b' off' n = buf_read b off' n"
proof -
  from w have le: "off + length xs \<le> length b"
    and b': "b' = take off b @ xs @ drop (off + length xs) b"
    by (auto simp: buf_write_def split: if_splits)
  have len: "length b' = length b" using le b' by simp
  have "take n (drop off' b') = take n (drop off' b)" if "off' + n \<le> length b"
  proof (rule nth_equalityI)
    show "length (take n (drop off' b')) = length (take n (drop off' b))"
      by (simp add: len)
  next
    fix i
    assume "i < length (take n (drop off' b'))"
    then have i: "i < n" "off' + i < length b" by (auto simp: len)
    have "b' ! (off' + i) = b ! (off' + i)"
      using d i le unfolding b' by (auto simp: nth_append)
    with i show "take n (drop off' b') ! i = take n (drop off' b) ! i"
      by (simp add: len)
  qed
  then show ?thesis by (auto simp: buf_read_def len)
qed

subsection \<open>First-match scans of a table\<close>

text \<open>
  The kernel keeps its objects in fixed arrays and looks them up with
  \<^verbatim>\<open>for (i = 0; i < N; i++) if (P(a[i])) ...\<close>: the least index whose entry satisfies
  the test.
\<close>

fun first_idx :: "('a \<Rightarrow> bool) \<Rightarrow> 'a list \<Rightarrow> nat option" where
  "first_idx P [] = None"
| "first_idx P (x # xs) = (if P x then Some 0 else map_option Suc (first_idx P xs))"

lemma first_idx_SomeD:
  "first_idx P xs = Some i \<Longrightarrow> i < length xs \<and> P (xs ! i) \<and> (\<forall>j<i. \<not> P (xs ! j))"
proof (induction xs arbitrary: i)
  case Nil
  then show ?case by simp
next
  case (Cons x xs)
  show ?case
  proof (cases "P x")
    case True
    with Cons.prems show ?thesis by simp
  next
    case False
    with Cons.prems obtain k where k: "first_idx P xs = Some k" "i = Suc k" by auto
    have "\<not> P ((x # xs) ! j)" if "j < i" for j
      using that Cons.IH[OF k(1)] k(2) False by (cases j) auto
    with Cons.IH[OF k(1)] k(2) show ?thesis by simp
  qed
qed

lemma first_idx_None: "first_idx P xs = None \<longleftrightarrow> (\<forall>x\<in>set xs. \<not> P x)"
  by (induction xs) auto

lemma first_idx_Some:
  "first_idx P xs = Some i \<longleftrightarrow> i < length xs \<and> P (xs ! i) \<and> (\<forall>j<i. \<not> P (xs ! j))"
    (is "_ \<longleftrightarrow> ?R i")
proof
  show "first_idx P xs = Some i \<Longrightarrow> ?R i" by (rule first_idx_SomeD)
next
  assume r: "?R i"
  then have "first_idx P xs \<noteq> None" by (auto simp: first_idx_None)
  then obtain k where k: "first_idx P xs = Some k" by blast
  have "k = i" using first_idx_SomeD[OF k] r by (metis linorder_neqE_nat)
  with k show "first_idx P xs = Some i" by simp
qed

lemma first_idx_None_nth: "first_idx P xs = None \<longleftrightarrow> (\<forall>i<length xs. \<not> P (xs ! i))"
  unfolding first_idx_None by (rule all_set_conv_all_nth)

lemma first_idx_bound: "first_idx P xs = Some i \<Longrightarrow> i < length xs"
  by (simp add: first_idx_Some)

lemma first_idx_holds: "first_idx P xs = Some i \<Longrightarrow> P (xs ! i)"
  by (simp add: first_idx_Some)

text \<open>
  Where at most one entry can match, the scan finds exactly that entry.
\<close>

lemma first_idx_unique:
  assumes "i < length xs" and "P (xs ! i)"
    and "\<And>j. j < length xs \<Longrightarrow> P (xs ! j) \<Longrightarrow> j = i"
  shows "first_idx P xs = Some i"
  unfolding first_idx_Some using assms less_trans by blast

fun last_idx :: "('a \<Rightarrow> bool) \<Rightarrow> 'a list \<Rightarrow> nat option" where
  "last_idx P [] = None"
| "last_idx P (x # xs) =
     (case last_idx P xs of Some k \<Rightarrow> Some (Suc k) | None \<Rightarrow> if P x then Some 0 else None)"

lemma last_idx_None: "last_idx P xs = None \<longleftrightarrow> (\<forall>x\<in>set xs. \<not> P x)"
  by (induction xs) (auto split: option.splits)

lemma last_idx_SomeD:
  "last_idx P xs = Some i \<Longrightarrow> i < length xs \<and> P (xs ! i) \<and> (\<forall>x\<in>set (drop (Suc i) xs). \<not> P x)"
proof (induction xs arbitrary: i)
  case Nil
  then show ?case by simp
next
  case (Cons x xs)
  show ?case
  proof (cases "last_idx P xs")
    case None
    with Cons.prems show ?thesis by (auto simp: last_idx_None split: if_splits)
  next
    case (Some k)
    with Cons.prems Cons.IH[OF Some] show ?thesis by auto
  qed
qed

subsection \<open>Powers of two as masks\<close>

lemma and_minus_one_less:
  fixes x n :: "'a::len word"
  assumes "n \<noteq> 0"
  shows "unat (x AND (n - 1)) < unat n"
proof -
  have "x AND (n - 1) \<le> n - 1" by (rule word_and_le1)
  then have "unat (x AND (n - 1)) \<le> unat n - 1"
    using assms by (simp add: word_le_nat_alt unat_minus_one)
  moreover have "0 < unat n" using assms by (simp add: unat_gt_0)
  ultimately show ?thesis by linarith
qed

lemma nat_pow2_cases: "0 < n \<Longrightarrow> n AND (n - 1) = 0 \<Longrightarrow> \<exists>k. n = 2 ^ k" for n :: nat
proof (induction n rule: less_induct)
  case (less n)
  show ?case
  proof (cases "odd n")
    case True
    then obtain m where n: "n = 2 * m + 1" by (rule oddE)
    have "n AND (n - 1) = 2 * (m AND m)"
      by (subst and_rec) (simp add: n)
    with less.prems(2) n have "n = 2 ^ 0" by simp
    then show ?thesis ..
  next
    case False
    with less.prems(1) obtain m where n: "n = 2 * m" and m: "0 < m" by auto
    have half: "(2 * m - 1) div 2 = m - 1" using m by presburger
    have "n AND (n - 1) = 2 * (m AND (m - 1))"
      unfolding n by (subst and_rec) (simp only: half, simp)
    with less.prems(2) have "m AND (m - 1) = 0" by simp
    with less.IH[of m] n m obtain k where "m = 2 ^ k" by auto
    with n have "n = 2 ^ Suc k" by simp
    then show ?thesis ..
  qed
qed

lemma word_pow2_cases:
  fixes n :: "'a::len word"
  assumes nz: "n \<noteq> 0" and z: "n AND (n - 1) = 0"
  shows "\<exists>k<LENGTH('a). unat n = 2 ^ k"
proof -
  have "unat n AND (unat n - 1) = unat (n AND (n - 1))"
    using nz by (simp add: unsigned_and_eq unat_minus_one)
  with z have "unat n AND (unat n - 1) = 0" by simp
  moreover have "0 < unat n" using nz by (simp add: unat_gt_0)
  ultimately obtain k where k: "unat n = 2 ^ k" using nat_pow2_cases by blast
  have "(2::nat) ^ k < 2 ^ LENGTH('a)" using k unsigned_less[of n] by metis
  then have "k < LENGTH('a)" by simp
  with k show ?thesis by blast
qed

text \<open>Masking with \<open>n - 1\<close> is the remainder modulo \<open>n\<close> when \<open>n\<close> is a power of two.\<close>

lemma unat_and_pow2_mask:
  fixes x n :: "'a::len word"
  assumes n: "unat n = 2 ^ k"
  shows "unat (x AND (n - 1)) = unat x mod unat n"
proof -
  have "n \<noteq> 0" using n by auto
  then have "unat (n - 1) = mask k"
    by (simp add: unat_minus_one n mask_eq_exp_minus_1)
  then show ?thesis
    by (simp add: unsigned_and_eq n flip: take_bit_eq_mask take_bit_eq_mod)
qed

end
