(* ===== verification/KString.thy ===== *)
theory KString
  imports Prelude
begin

text \<open>
  The freestanding C library of the kernel (\<^verbatim>\<open>kernel/lib/string.c\<close>).

  A \<open>char *\<close> is the list of bytes from the pointer to the end of its object, so \<open>s++\<close> is
  the tail of the list and a read or write past the object is the fault \<open>None\<close>. The lemmas
  relate every routine to \<open>cstr\<close>, the string a terminated buffer holds.
\<close>

subsection \<open>The routines\<close>

fun memset :: "u8 list \<Rightarrow> u8 \<Rightarrow> nat \<Rightarrow> u8 list option" where
  "memset p c 0 = Some p"
| "memset [] c (Suc n) = None"
| "memset (_ # p) c (Suc n) = map_option (Cons c) (memset p c n)"

fun memcpy :: "u8 list \<Rightarrow> u8 list \<Rightarrow> nat \<Rightarrow> u8 list option" where
  "memcpy d s 0 = Some d"
| "memcpy (_ # d) (c # s) (Suc n) = map_option (Cons c) (memcpy d s n)"
| "memcpy _ _ (Suc n) = None"

fun strcmp :: "u8 list \<Rightarrow> u8 list \<Rightarrow> int option" where
  "strcmp (a # s1) (b # s2) =
     (if a \<noteq> 0 \<and> a = b then strcmp s1 s2 else Some (uint a - uint b))"
| "strcmp _ _ = None"

fun strncmp :: "u8 list \<Rightarrow> u8 list \<Rightarrow> nat \<Rightarrow> int option" where
  "strncmp s1 s2 0 = Some 0"
| "strncmp (a # s1) (b # s2) (Suc n) =
     (if a = 0 \<or> b = 0 \<or> a \<noteq> b then Some (uint a - uint b) else strncmp s1 s2 n)"
| "strncmp _ _ (Suc n) = None"

fun strlen :: "u8 list \<Rightarrow> nat option" where
  "strlen [] = None"
| "strlen (c # s) = (if c = 0 then Some 0 else map_option Suc (strlen s))"

fun strncpy :: "u8 list \<Rightarrow> u8 list \<Rightarrow> nat \<Rightarrow> u8 list option" where
  "strncpy d s 0 = Some d"
| "strncpy (x # d) (c # s) (Suc n) =
     (if c = 0 then memset (x # d) 0 (Suc n) else map_option (Cons c) (strncpy d s n))"
| "strncpy _ _ (Suc n) = None"

text \<open>
  \<^verbatim>\<open>strchr\<close> and \<^verbatim>\<open>strrchr\<close> return a pointer into the string: here the offset from its
  start, and \<open>None\<close> inside the outer \<open>Some\<close> for the null pointer.
\<close>

fun strchr :: "u8 list \<Rightarrow> u8 \<Rightarrow> nat option option" where
  "strchr [] c = None"
| "strchr (x # s) c =
     (if x = 0 then Some None
      else if x = c then Some (Some 0)
      else map_option (map_option Suc) (strchr s c))"

fun strrchr_from :: "u8 list \<Rightarrow> u8 \<Rightarrow> nat \<Rightarrow> nat option \<Rightarrow> nat option option" where
  "strrchr_from [] c i lst = None"
| "strrchr_from (x # s) c i lst =
     (if x = 0 then Some lst
      else strrchr_from s c (Suc i) (if x = c then Some i else lst))"

definition strrchr :: "u8 list \<Rightarrow> u8 \<Rightarrow> nat option option" where
  "strrchr s c = strrchr_from s c 0 None"

fun memcmp :: "u8 list \<Rightarrow> u8 list \<Rightarrow> nat \<Rightarrow> int option" where
  "memcmp p1 p2 0 = Some 0"
| "memcmp (a # p1) (b # p2) (Suc n) =
     (if a \<noteq> b then Some (uint a - uint b) else memcmp p1 p2 n)"
| "memcmp _ _ (Suc n) = None"

text \<open>
  \<^verbatim>\<open>memmove\<close> is about one object that holds both ranges: \<open>d\<close> and \<open>s\<close> are offsets into it.
  One byte is copied at a time, upwards when \<open>d < s\<close> and downwards otherwise.
\<close>

definition move_byte :: "u8 list \<Rightarrow> nat \<Rightarrow> nat \<Rightarrow> u8 list option" where
  "move_byte m d s = (if d < length m \<and> s < length m then Some (m[d := m ! s]) else None)"

fun move_up :: "u8 list \<Rightarrow> nat \<Rightarrow> nat \<Rightarrow> nat \<Rightarrow> u8 list option" where
  "move_up m d s 0 = Some m"
| "move_up m d s (Suc n) = do { m' \<leftarrow> move_byte m d s; move_up m' (Suc d) (Suc s) n }"

fun move_down :: "u8 list \<Rightarrow> nat \<Rightarrow> nat \<Rightarrow> nat \<Rightarrow> u8 list option" where
  "move_down m d s 0 = Some m"
| "move_down m d s (Suc n) = do { m' \<leftarrow> move_byte m (d + n) (s + n); move_down m' d s n }"

definition memmove :: "u8 list \<Rightarrow> nat \<Rightarrow> nat \<Rightarrow> nat \<Rightarrow> u8 list option" where
  "memmove m d s n = (if d < s then move_up m d s n else move_down m d s n)"

fun strncat_at :: "u8 list \<Rightarrow> u8 list \<Rightarrow> nat \<Rightarrow> u8 list option" where
  "strncat_at [] s n = None"
| "strncat_at (x # d) s 0 = Some (0 # d)"
| "strncat_at (x # d) [] (Suc n) = None"
| "strncat_at (x # d) (c # s) (Suc n) =
     (if c = 0 then Some (0 # d) else map_option (Cons c) (strncat_at d s n))"

definition strncat :: "u8 list \<Rightarrow> u8 list \<Rightarrow> nat \<Rightarrow> u8 list option" where
  "strncat d s n =
     do { l \<leftarrow> strlen d; t \<leftarrow> strncat_at (drop l d) s n; Some (take l d @ t) }"

subsection \<open>The string a buffer holds\<close>

definition cstr :: "u8 list \<Rightarrow> u8 list" where
  "cstr b = takeWhile (\<lambda>c. c \<noteq> 0) b"

definition terminated :: "u8 list \<Rightarrow> bool" where
  "terminated b \<longleftrightarrow> 0 \<in> set b"

lemma cstr_simps [simp]:
  "cstr [] = []"
  "cstr (c # s) = (if c = 0 then [] else c # cstr s)"
  by (simp_all add: cstr_def)

lemma terminated_simps [simp]:
  "\<not> terminated []"
  "terminated (c # s) \<longleftrightarrow> c = 0 \<or> terminated s"
  by (auto simp: terminated_def)

lemma terminated_append [simp]: "terminated (a @ b) \<longleftrightarrow> terminated a \<or> terminated b"
  by (auto simp: terminated_def)

lemma cstr_nonzero: "0 \<notin> set (cstr b)"
  unfolding cstr_def by (auto dest: set_takeWhileD)

lemma cstr_append_nonzero: "0 \<notin> set a \<Longrightarrow> cstr (a @ b) = a @ cstr b"
  unfolding cstr_def by (rule takeWhile_append2) auto

lemma cstr_append_terminated: "terminated a \<Longrightarrow> cstr (a @ b) = cstr a"
  by (induction a) auto

lemma cstr_no_zero: "0 \<notin> set a \<Longrightarrow> cstr a = a"
  using cstr_append_nonzero[of a "[]"] by simp

lemma cstr_of_literal: "0 \<notin> set s \<Longrightarrow> cstr (s @ 0 # r) = s"
  by (simp add: cstr_append_nonzero)

lemma terminated_split:
  assumes "terminated b"
  obtains r where "b = cstr b @ 0 # r"
proof -
  from assms have "dropWhile (\<lambda>c. c \<noteq> 0) b \<noteq> []"
    by (auto simp: terminated_def dropWhile_eq_Nil_conv)
  then obtain x r where d: "dropWhile (\<lambda>c. c \<noteq> 0) b = x # r"
    by (cases "dropWhile (\<lambda>c. c \<noteq> 0) b") auto
  then have "x = 0" using hd_dropWhile[of "\<lambda>c. c \<noteq> 0" b] by auto
  with d have "b = cstr b @ 0 # r"
    using takeWhile_dropWhile_id[of "\<lambda>c. c \<noteq> 0" b] by (simp add: cstr_def)
  then show thesis by (rule that)
qed

lemma terminated_length: "terminated b \<Longrightarrow> length (cstr b) < length b"
  by (induction b) auto

subsection \<open>What the routines compute\<close>

lemma memset_eq: "n \<le> length p \<Longrightarrow> memset p c n = Some (replicate n c @ drop n p)"
  by (induction p c n rule: memset.induct) auto

lemma memset_fault: "length p < n \<Longrightarrow> memset p c n = None"
  by (induction p c n rule: memset.induct) auto

lemma memcpy_eq:
  "n \<le> length d \<Longrightarrow> n \<le> length s \<Longrightarrow> memcpy d s n = Some (take n s @ drop n d)"
  by (induction d s n rule: memcpy.induct) auto

lemma memcpy_buf_write:
  "n \<le> length d \<Longrightarrow> n \<le> length s \<Longrightarrow> memcpy d s n = buf_write d 0 (take n s)"
  by (simp add: memcpy_eq buf_write_def)

lemma strlen_eq: "strlen b = (if terminated b then Some (length (cstr b)) else None)"
  by (induction b) auto

lemma strcmp_terminated:
  "terminated a \<Longrightarrow> terminated b \<Longrightarrow> \<exists>r. strcmp a b = Some r \<and> (r = 0 \<longleftrightarrow> cstr a = cstr b)"
proof (induction a b rule: strcmp.induct)
  case (1 a s1 b s2)
  then show ?case by auto
qed auto

lemma strcmp_eq_0:
  "terminated a \<Longrightarrow> terminated b \<Longrightarrow> strcmp a b = Some 0 \<longleftrightarrow> cstr a = cstr b"
  using strcmp_terminated by fastforce

text \<open>\<^verbatim>\<open>strcmp\<close> is antisymmetric: exchanging the arguments flips the sign.\<close>

lemma strcmp_swap: "strcmp b a = map_option uminus (strcmp a b)"
  by (induction a b rule: strcmp.induct) auto

lemma strncmp_terminated:
  "terminated a \<Longrightarrow> terminated b \<Longrightarrow>
     \<exists>r. strncmp a b n = Some r \<and> (r = 0 \<longleftrightarrow> take n (cstr a) = take n (cstr b))"
proof (induction a b n rule: strncmp.induct)
  case (2 a s1 b s2 n)
  then show ?case by auto
qed auto

lemma strncmp_eq_0:
  "terminated a \<Longrightarrow> terminated b \<Longrightarrow>
     strncmp a b n = Some 0 \<longleftrightarrow> take n (cstr a) = take n (cstr b)"
  using strncmp_terminated by fastforce

lemma strncpy_eq:
  assumes "terminated s" and "n \<le> length d"
  shows "strncpy d s n =
    Some (take n (cstr s) @ replicate (n - length (cstr s)) 0 @ drop n d)"
  using assms
proof (induction d s n rule: strncpy.induct)
  case (2 x d c s n)
  show ?case
  proof (cases "c = 0")
    case True
    with 2 show ?thesis by (simp add: memset_eq)
  next
    case False
    with 2 show ?thesis by simp
  qed
qed auto

text \<open>A copy bounded by the array size leaves a terminated array exactly when the string fits.\<close>

lemma strncpy_terminated:
  assumes "terminated s" and "length d = n" and "strncpy d s n = Some d'"
  shows "terminated d' \<longleftrightarrow> length (cstr s) < n"
proof -
  have "d' = take n (cstr s) @ replicate (n - length (cstr s)) 0"
    using assms by (simp add: strncpy_eq)
  moreover have "0 \<notin> set (take n (cstr s))"
    using cstr_nonzero[of s] by (meson in_set_takeD)
  ultimately show ?thesis by (auto simp: terminated_def)
qed

lemma strchr_eq:
  assumes "terminated b" and "c \<noteq> 0"
  shows "strchr b c = Some (first_idx (\<lambda>x. x = c) (cstr b))"
  using assms(1) by (induction b) (use assms(2) in auto)

lemma strrchr_from_eq:
  "terminated b \<Longrightarrow> strrchr_from b c i lst =
     Some (case last_idx (\<lambda>x. x = c) (cstr b) of None \<Rightarrow> lst | Some k \<Rightarrow> Some (i + k))"
  by (induction b c i lst rule: strrchr_from.induct) (auto split: option.splits)

lemma strrchr_eq: "terminated b \<Longrightarrow> strrchr b c = Some (last_idx (\<lambda>x. x = c) (cstr b))"
  by (simp add: strrchr_def strrchr_from_eq split: option.splits)

lemma memcmp_eq_0:
  "n \<le> length a \<Longrightarrow> n \<le> length b \<Longrightarrow> memcmp a b n = Some 0 \<longleftrightarrow> take n a = take n b"
  by (induction a b n rule: memcmp.induct) auto

subsection \<open>Overlapping moves\<close>

text \<open>
  A byte-wise copy is only right when no byte is overwritten before it is read. The upward
  loop is safe when the destination is below the source, the downward one otherwise.
\<close>

lemma move_byte_ok [fault_simps]:
  "d < length m \<Longrightarrow> s < length m \<Longrightarrow> move_byte m d s = Some (m[d := m ! s])"
  by (simp add: move_byte_def)

lemma move_up_eq:
  "d < s \<Longrightarrow> s + n \<le> length m \<Longrightarrow>
     \<exists>m'. move_up m d s n = Some m' \<and> length m' = length m \<and>
       (\<forall>i<length m. m' ! i = (if d \<le> i \<and> i < d + n then m ! (s + (i - d)) else m ! i))"
proof (induction n arbitrary: m d s)
  case 0
  then show ?case by auto
next
  case (Suc n)
  let ?m = "m[d := m ! s]"
  from Suc.IH[of "Suc d" "Suc s" ?m] Suc.prems obtain m' where
    mv: "move_up ?m (Suc d) (Suc s) n = Some m'" and len: "length m' = length m"
    and nth: "\<And>i. i < length m \<Longrightarrow> m' ! i =
      (if Suc d \<le> i \<and> i < Suc d + n then ?m ! (Suc s + (i - Suc d)) else ?m ! i)"
    by auto
  have "m' ! i = (if d \<le> i \<and> i < d + Suc n then m ! (s + (i - d)) else m ! i)"
    if "i < length m" for i
  proof -
    have "Suc s + (i - Suc d) = s + (i - d)" if "Suc d \<le> i" using that by simp
    with nth[OF that] Suc.prems that show ?thesis
      by (cases "i = d") (auto simp: nth_list_update less_Suc_eq_le)
  qed
  with mv len Suc.prems show ?case by (auto simp: fault_simps)
qed

lemma move_down_eq:
  "s \<le> d \<Longrightarrow> d + n \<le> length m \<Longrightarrow>
     \<exists>m'. move_down m d s n = Some m' \<and> length m' = length m \<and>
       (\<forall>i<length m. m' ! i = (if d \<le> i \<and> i < d + n then m ! (s + (i - d)) else m ! i))"
proof (induction n arbitrary: m)
  case 0
  then show ?case by auto
next
  case (Suc n)
  let ?m = "m[d + n := m ! (s + n)]"
  from Suc.IH[of ?m] Suc.prems obtain m' where
    mv: "move_down ?m d s n = Some m'" and len: "length m' = length m"
    and nth: "\<And>i. i < length m \<Longrightarrow> m' ! i =
      (if d \<le> i \<and> i < d + n then ?m ! (s + (i - d)) else ?m ! i)"
    by auto
  have "m' ! i = (if d \<le> i \<and> i < d + Suc n then m ! (s + (i - d)) else m ! i)"
    if "i < length m" for i
    using nth[OF that] Suc.prems that
    by (cases "i = d + n") (auto simp: nth_list_update)
  with mv len Suc.prems show ?case by (auto simp: fault_simps)
qed

text \<open>Both directions give the same result: the bytes the source range held at the start.\<close>

lemma memmove_eq:
  assumes "d + n \<le> length m" and "s + n \<le> length m"
  shows "memmove m d s n = buf_write m d (take n (drop s m))"
proof -
  obtain m' where mv: "memmove m d s n = Some m'" and len: "length m' = length m"
    and nth: "\<And>i. i < length m \<Longrightarrow>
      m' ! i = (if d \<le> i \<and> i < d + n then m ! (s + (i - d)) else m ! i)"
    using move_up_eq[of d s n m] move_down_eq[of s d n m] assms
    unfolding memmove_def by (cases "d < s") auto
  have "m' = take d m @ take n (drop s m) @ drop (d + n) m"
  proof (rule nth_equalityI)
    show "length m' = length (take d m @ take n (drop s m) @ drop (d + n) m)"
      using assms by (simp add: len)
  next
    fix i
    assume "i < length m'"
    then show "m' ! i = (take d m @ take n (drop s m) @ drop (d + n) m) ! i"
      using assms by (auto simp: len nth nth_append)
  qed
  with mv assms show ?thesis by (simp add: buf_write_def)
qed

subsection \<open>Appending\<close>

lemma strncat_at_eq:
  "terminated s \<Longrightarrow> length (take n (cstr s)) < length d \<Longrightarrow>
     strncat_at d s n = Some (take n (cstr s) @ 0 # drop (Suc (length (take n (cstr s)))) d)"
  by (induction d s n rule: strncat_at.induct) auto

lemma strncat_eq:
  assumes "terminated d" and "terminated s"
    and "length (cstr d) + length (take n (cstr s)) < length d"
  shows "\<exists>d'. strncat d s n = Some d' \<and> length d' = length d \<and> terminated d' \<and>
           cstr d' = cstr d @ take n (cstr s)"
proof -
  let ?t = "take n (cstr s)" and ?l = "length (cstr d)"
  have "strncat_at (drop ?l d) s n = Some (?t @ 0 # drop (Suc (length ?t)) (drop ?l d))"
    using assms by (intro strncat_at_eq) auto
  moreover have "take ?l d = cstr d"
    by (rule terminated_split[OF assms(1)]) (metis append_eq_conv_conj)
  moreover have "0 \<notin> set (cstr d @ ?t)"
    using cstr_nonzero[of d] cstr_nonzero[of s] by (auto dest: in_set_takeD)
  moreover have "cstr ((cstr d @ ?t) @ 0 # r) = cstr d @ ?t" if "0 \<notin> set (cstr d @ ?t)" for r
    using that by (rule cstr_of_literal)
  ultimately show ?thesis
    using assms by (auto simp: strncat_def strlen_eq)
qed

end
