(* ===== verification/Ringbuf.thy ===== *)
theory Ringbuf
  imports KString
begin

text \<open>
  The lock-free slot ring of \<^verbatim>\<open>kernel/ipc/ringbuf.h\<close>: a header with two monotonic 64-bit
  indices and a data region of \<open>slot_count\<close> slots of \<open>slot_size\<close> bytes, both powers of two.
  Ports, driver rings and pipes are built on it.

  The locale \<open>slot_fifo\<close> is the contract the clients rely on: a bounded first-in first-out
  queue of fixed-width slots. Its interpretation on the operations of the header proves
  that the contract holds for every state of the indices, also after they wrap at \<open>2^64\<close>.
\<close>

subsection \<open>The header and its operations\<close>

record ringbuf =
  rb_magic :: u64
  rb_version :: u32
  slot_size :: u32
  slot_count :: u32
  rb_pad :: u32
  write_idx :: u64
  read_idx :: u64
  rb_reserved :: "u8 list"
  ring_data :: "u8 list"

definition RINGBUF_MAGIC :: u64 where "RINGBUF_MAGIC = 0x52494E4742554631"
definition RINGBUF_VERSION :: u32 where "RINGBUF_VERSION = 1"

definition is_pow2 :: "u32 \<Rightarrow> bool" where
  "is_pow2 n \<longleftrightarrow> n \<noteq> 0 \<and> n AND (n - 1) = 0"

definition ringbuf_required_size :: "u32 \<Rightarrow> u32 \<Rightarrow> u64" where
  "ringbuf_required_size ss sc = 64 + ucast ss * ucast sc"

text \<open>
  \<^verbatim>\<open>mem\<close> is the block behind the pointer, laid out as the header followed by its data
  region; \<open>None\<close> is the null pointer.
\<close>

definition ringbuf_init :: "ringbuf option \<Rightarrow> u32 \<Rightarrow> u32 \<Rightarrow> (int \<times> ringbuf option) option" where
  "ringbuf_init mem ss sc =
     (case mem of
        None \<Rightarrow> Some (-1, None)
      | Some rb \<Rightarrow>
          if \<not> is_pow2 ss \<or> ss < 8 then Some (-1, Some rb)
          else if \<not> is_pow2 sc \<or> sc < 2 then Some (-1, Some rb)
          else do {
            r \<leftarrow> memset (rb_reserved rb) 0 24;
            d \<leftarrow> memset (ring_data rb) 0 (unat (ucast ss * ucast sc :: u64));
            Some (0, Some (rb\<lparr>rb_magic := RINGBUF_MAGIC, rb_version := RINGBUF_VERSION,
                            slot_size := ss, slot_count := sc, rb_pad := 0,
                            write_idx := 0, read_idx := 0, rb_reserved := r, ring_data := d\<rparr>))
          })"

definition ringbuf_valid :: "ringbuf option \<Rightarrow> bool" where
  "ringbuf_valid r =
     (case r of None \<Rightarrow> False
      | Some rb \<Rightarrow> rb_magic rb = RINGBUF_MAGIC \<and> rb_version rb = RINGBUF_VERSION \<and>
          is_pow2 (slot_size rb) \<and> slot_size rb \<ge> 8 \<and>
          is_pow2 (slot_count rb) \<and> slot_count rb \<ge> 2)"

definition slot_off :: "ringbuf \<Rightarrow> u64 \<Rightarrow> nat" where
  "slot_off rb idx = unat ((idx AND ucast (slot_count rb - 1)) * ucast (slot_size rb) :: u64)"

text \<open>\<^verbatim>\<open>memcpy\<close> to and from a slot: the pointer is the data region advanced by the offset.\<close>

definition slot_store :: "u8 list \<Rightarrow> nat \<Rightarrow> u8 list \<Rightarrow> nat \<Rightarrow> u8 list option" where
  "slot_store d off src n =
     (if off \<le> length d then map_option ((@) (take off d)) (memcpy (drop off d) src n) else None)"

definition slot_load :: "u8 list \<Rightarrow> nat \<Rightarrow> u8 list \<Rightarrow> nat \<Rightarrow> u8 list option" where
  "slot_load d off buf n = (if off \<le> length d then memcpy buf (drop off d) n else None)"

definition ringbuf_push :: "ringbuf \<Rightarrow> u8 list \<Rightarrow> u32 \<Rightarrow> (int \<times> ringbuf) option" where
  "ringbuf_push rb src sz =
     (let widx = write_idx rb; ridx = read_idx rb in
      if widx - ridx = ucast (slot_count rb) then Some (-1, rb)
      else if sz > slot_size rb then Some (-1, rb)
      else do {
        d \<leftarrow> slot_store (ring_data rb) (slot_off rb widx) src (unat sz);
        Some (0, rb\<lparr>ring_data := d, write_idx := widx + 1\<rparr>)
      })"

definition ringbuf_pop :: "ringbuf \<Rightarrow> u8 list \<Rightarrow> u32 \<Rightarrow> (int \<times> u8 list \<times> ringbuf) option" where
  "ringbuf_pop rb buf sz =
     (let ridx = read_idx rb; widx = write_idx rb in
      if ridx = widx then Some (-1, buf, rb)
      else if sz > slot_size rb then Some (-1, buf, rb)
      else do {
        b \<leftarrow> slot_load (ring_data rb) (slot_off rb ridx) buf (unat sz);
        Some (0, b, rb\<lparr>read_idx := ridx + 1\<rparr>)
      })"

text \<open>
  The batch loops: \<open>i\<close> is the loop counter, \<open>k\<close> the iterations that are left. The producer's
  index is stored once, after the loop.
\<close>

fun push_batch_loop ::
  "ringbuf \<Rightarrow> u64 \<Rightarrow> u8 list \<Rightarrow> nat \<Rightarrow> nat \<Rightarrow> nat \<Rightarrow> u8 list \<Rightarrow> u8 list option" where
  "push_batch_loop rb widx src isz i 0 d = Some d"
| "push_batch_loop rb widx src isz i (Suc k) d =
     (if i * isz \<le> length src then
        do { d' \<leftarrow> slot_store d (slot_off rb (widx + of_nat i)) (drop (i * isz) src) isz;
             push_batch_loop rb widx src isz (Suc i) k d' }
      else None)"

definition ringbuf_push_batch ::
  "ringbuf \<Rightarrow> u8 list \<Rightarrow> u32 \<Rightarrow> u32 \<Rightarrow> (u32 \<times> ringbuf) option" where
  "ringbuf_push_batch rb items isz n =
     (let widx = write_idx rb; ridx = read_idx rb;
          avail = slot_count rb - ucast (widx - ridx);
          n' = (if avail < n then avail else n) in
      if isz > slot_size rb then Some (0, rb)
      else do {
        d \<leftarrow> push_batch_loop rb widx items (unat isz) 0 (unat n') (ring_data rb);
        Some (n', rb\<lparr>ring_data := d, write_idx := widx + ucast n'\<rparr>)
      })"

fun pop_batch_loop ::
  "ringbuf \<Rightarrow> u64 \<Rightarrow> nat \<Rightarrow> nat \<Rightarrow> nat \<Rightarrow> u8 list \<Rightarrow> u8 list option" where
  "pop_batch_loop rb ridx isz i 0 buf = Some buf"
| "pop_batch_loop rb ridx isz i (Suc k) buf =
     (if i * isz \<le> length buf then
        do { t \<leftarrow> slot_load (ring_data rb) (slot_off rb (ridx + of_nat i)) (drop (i * isz) buf) isz;
             pop_batch_loop rb ridx isz (Suc i) k (take (i * isz) buf @ t) }
      else None)"

definition ringbuf_pop_batch ::
  "ringbuf \<Rightarrow> u8 list \<Rightarrow> u32 \<Rightarrow> u32 \<Rightarrow> (u32 \<times> u8 list \<times> ringbuf) option" where
  "ringbuf_pop_batch rb buf isz n =
     (let ridx = read_idx rb; widx = write_idx rb;
          avail = ucast (widx - ridx);
          n' = (if avail < n then avail else n) in
      if isz > slot_size rb then Some (0, buf, rb)
      else do {
        b \<leftarrow> pop_batch_loop rb ridx (unat isz) 0 (unat n') buf;
        Some (n', b, rb\<lparr>read_idx := ridx + ucast n'\<rparr>)
      })"

definition ringbuf_used :: "ringbuf \<Rightarrow> u32" where
  "ringbuf_used rb =
     (let d = ucast (write_idx rb - read_idx rb) in if d < slot_count rb then d else slot_count rb)"

definition ringbuf_free :: "ringbuf \<Rightarrow> u32" where
  "ringbuf_free rb = slot_count rb - ringbuf_used rb"

definition ringbuf_empty :: "ringbuf \<Rightarrow> bool" where
  "ringbuf_empty rb \<longleftrightarrow> write_idx rb = read_idx rb"

definition ringbuf_full :: "ringbuf \<Rightarrow> bool" where
  "ringbuf_full rb \<longleftrightarrow> ringbuf_used rb = slot_count rb"

subsection \<open>Well-formed rings and the queue they represent\<close>

definition ring_count :: "ringbuf \<Rightarrow> nat" where
  "ring_count rb = unat (write_idx rb - read_idx rb)"

definition ring_wf :: "ringbuf \<Rightarrow> bool" where
  "ring_wf rb \<longleftrightarrow>
     ringbuf_valid (Some rb) \<and>
     unat (slot_count rb) * unat (slot_size rb) \<le> length (ring_data rb) \<and>
     ring_count rb \<le> unat (slot_count rb)"

definition ring_slot :: "ringbuf \<Rightarrow> nat \<Rightarrow> u8 list" where
  "ring_slot rb i =
     take (unat (slot_size rb))
       (drop (i mod unat (slot_count rb) * unat (slot_size rb)) (ring_data rb))"

definition ring_slots :: "ringbuf \<Rightarrow> u8 list list" where
  "ring_slots rb = map (\<lambda>i. ring_slot rb (unat (read_idx rb) + i)) [0..<ring_count rb]"

subsection \<open>Offsets stay inside the data region\<close>

lemma is_pow2_unat: "is_pow2 n \<Longrightarrow> \<exists>k<32. unat n = 2 ^ k"
  unfolding is_pow2_def using word_pow2_cases[of n] by simp

lemma ring_wfD:
  assumes "ring_wf rb"
  shows "is_pow2 (slot_count rb)" "is_pow2 (slot_size rb)"
    and "2 \<le> unat (slot_count rb)" "8 \<le> unat (slot_size rb)"
    and "unat (slot_count rb) * unat (slot_size rb) \<le> length (ring_data rb)"
    and "ring_count rb \<le> unat (slot_count rb)"
  using assms by (auto simp: ring_wf_def ringbuf_valid_def word_le_nat_alt)

lemma unat_u32_less: "unat (x :: u32) < 2 ^ 32"
proof -
  have "unat x < 2 ^ LENGTH(32)" by (rule unsigned_less)
  then show ?thesis by simp
qed

lemma unat_ucast_u32_u64 [simp]: "unat (ucast (x :: u32) :: u64) = unat x"
proof -
  have "unat x < 2 ^ 64" using unat_u32_less[of x] by simp
  then show ?thesis by (simp add: unsigned_ucast_eq take_bit_nat_eq_self)
qed

lemma slot_index_eq:
  assumes "is_pow2 n"
  shows "unat (idx AND ucast (n - 1) :: u64) = unat idx mod unat n"
proof -
  obtain k where k: "unat n = 2 ^ k" using is_pow2_unat[OF assms] by blast
  then have nz: "n \<noteq> 0" by auto
  have "(ucast n :: u64) \<noteq> 0"
  proof
    assume "(ucast n :: u64) = 0"
    then have "unat (ucast n :: u64) = 0" by simp
    with k show False by simp
  qed
  with nz have "unat (ucast (n - 1) :: u64) = unat (ucast n - 1 :: u64)"
    by (simp add: unat_minus_one)
  then have "ucast (n - 1) = (ucast n - 1 :: u64)" by (rule unsigned_word_eqI)
  then show ?thesis using unat_and_pow2_mask[of "ucast n :: u64" k idx] k by simp
qed

lemma slot_off_eq:
  assumes "is_pow2 (slot_count rb)"
  shows "slot_off rb idx = unat idx mod unat (slot_count rb) * unat (slot_size rb)"
proof -
  let ?i = "idx AND ucast (slot_count rb - 1) :: u64"
  have i: "unat ?i = unat idx mod unat (slot_count rb)"
    by (rule slot_index_eq[OF assms])
  moreover have "0 < unat (slot_count rb)" using is_pow2_unat[OF assms] by auto
  ultimately have "unat ?i < 2 ^ 32"
    using unat_u32_less[of "slot_count rb"] mod_less_divisor[of "unat (slot_count rb)" "unat idx"]
    by linarith
  then have "unat ?i * unat (slot_size rb) < 2 ^ 32 * 2 ^ 32"
    using unat_u32_less by (intro mult_strict_mono) auto
  then have "unat ?i * unat (ucast (slot_size rb) :: u64) < 2 ^ LENGTH(64)" by simp
  then have "unat (?i * ucast (slot_size rb)) = unat ?i * unat (slot_size rb)"
    by (subst unat_mult_lem[THEN iffD1]) auto
  with i show ?thesis by (simp add: slot_off_def)
qed

text \<open>Slot \<open>j\<close> of a well-formed ring lies inside the data region.\<close>

lemma slot_range:
  assumes "ring_wf rb"
  shows "j mod unat (slot_count rb) * unat (slot_size rb) + unat (slot_size rb)
           \<le> length (ring_data rb)"
proof -
  let ?c = "unat (slot_count rb)" and ?s = "unat (slot_size rb)"
  have "j mod ?c < ?c" using ring_wfD(3)[OF assms] by simp
  then have "Suc (j mod ?c) * ?s \<le> ?c * ?s" by (intro mult_le_mono1) simp
  also have "\<dots> \<le> length (ring_data rb)" by (rule ring_wfD(5)[OF assms])
  finally show ?thesis by simp
qed

text \<open>The write index and the read index agree on the slot, wherever they have wrapped to.\<close>

lemma index_mod_shift:
  assumes "is_pow2 c"
  shows "unat (w :: u64) mod unat c = (unat r + unat (w - r)) mod unat c"
proof -
  obtain k where k: "k < 32" "unat c = 2 ^ k" using is_pow2_unat[OF assms] by blast
  then have dvd: "unat c dvd 2 ^ 64" using le_imp_power_dvd[of k 64 2] by simp
  have "unat w = unat (r + (w - r))" by simp
  also have "\<dots> = (unat r + unat (w - r)) mod 2 ^ 64"
    by (simp only: unat_word_ariths) simp
  finally have "unat w mod unat c = (unat r + unat (w - r)) mod 2 ^ 64 mod unat c" by (rule arg_cong)
  then show ?thesis by (simp only: mod_mod_cancel[OF dvd])
qed

subsection \<open>Storing a slot\<close>

lemma slot_store_eq [fault_simps]:
  "off + n \<le> length d \<Longrightarrow> n \<le> length src \<Longrightarrow>
     slot_store d off src n = Some (take off d @ take n src @ drop (off + n) d)"
  by (simp add: slot_store_def memcpy_eq add.commute)

lemma slot_load_eq [fault_simps]:
  "off + n \<le> length d \<Longrightarrow> n \<le> length buf \<Longrightarrow>
     slot_load d off buf n = Some (take n (drop off d) @ drop n buf)"
  by (simp add: slot_load_def memcpy_eq)

lemma length_ring_slot: "ring_wf rb \<Longrightarrow> length (ring_slot rb i) = unat (slot_size rb)"
  using slot_range[of rb i] by (simp add: ring_slot_def)

lemma distinct_slots_disjoint:
  fixes a b s :: nat
  assumes "a \<noteq> b"
  shows "a * s + s \<le> b * s \<or> b * s + s \<le> a * s"
proof -
  have "Suc a \<le> b \<or> Suc b \<le> a" using assms by linarith
  then have "Suc a * s \<le> b * s \<or> Suc b * s \<le> a * s" using mult_le_mono1 by blast
  then show ?thesis by (simp add: add.commute)
qed

lemma ring_slot_store:
  assumes wf: "ring_wf rb"
    and off: "off = j mod unat (slot_count rb) * unat (slot_size rb)"
    and len: "length x \<le> unat (slot_size rb)"
    and d: "d' = take off (ring_data rb) @ x @ drop (off + length x) (ring_data rb)"
  shows "ring_slot (rb\<lparr>ring_data := d', write_idx := w\<rparr>) i =
           (if i mod unat (slot_count rb) = j mod unat (slot_count rb)
            then x @ drop (length x) (ring_slot rb i) else ring_slot rb i)"
proof -
  let ?c = "unat (slot_count rb)" and ?s = "unat (slot_size rb)"
  have rj: "off + ?s \<le> length (ring_data rb)" using slot_range[OF wf, of j] off by simp
  show ?thesis
  proof (cases "i mod ?c = j mod ?c")
    case True
    with rj len show ?thesis
      by (simp add: ring_slot_def d flip: off)
        (simp add: drop_take add.commute)
  next
    case False
    have bw: "buf_write (ring_data rb) off x = Some d'"
      using rj len d by (simp add: buf_write_def)
    have "i mod ?c * ?s + ?s \<le> off \<or> off + length x \<le> i mod ?c * ?s"
      using distinct_slots_disjoint[OF False, of ?s] len off by auto
    then have "buf_read d' (i mod ?c * ?s) ?s = buf_read (ring_data rb) (i mod ?c * ?s) ?s"
      by (rule buf_read_write_disjoint[OF bw])
    with slot_range[OF wf, of i] buf_write_length[OF bw] False show ?thesis
      by (simp add: ring_slot_def buf_read_def)
  qed
qed

lemma count_mod_neq:
  fixes r c i n :: nat
  assumes "i < n" and "n < c"
  shows "(r + i) mod c \<noteq> (r + n) mod c"
proof
  assume "(r + i) mod c = (r + n) mod c"
  then have "c dvd (r + n) - (r + i)" using assms by (subst mod_eq_dvd_iff_nat[symmetric]) auto
  then have "c dvd n - i" by simp
  then have "c \<le> n - i" using assms by (intro dvd_imp_le) auto
  with assms show False by simp
qed

lemma ring_count_push:
  assumes "ring_count rb < unat (slot_count rb)"
  shows "unat (write_idx rb + 1 - read_idx rb) = Suc (ring_count rb)"
proof -
  have "unat (write_idx rb - read_idx rb) + 1 < 2 ^ LENGTH(64)"
    using assms unat_u32_less[of "slot_count rb"] by (simp add: ring_count_def)
  then have "unat (write_idx rb - read_idx rb + 1) = unat (write_idx rb - read_idx rb) + 1"
    using unat_add_lem[of "write_idx rb - read_idx rb" 1] by simp
  then show ?thesis by (simp add: ring_count_def algebra_simps)
qed

subsection \<open>One push, one pop\<close>

lemma ringbuf_push_full:
  assumes "ring_wf rb" and "ring_count rb = unat (slot_count rb)"
  shows "ringbuf_push rb src sz = Some (-1, rb)"
proof -
  have "write_idx rb - read_idx rb = ucast (slot_count rb)"
    using assms(2) by (intro unsigned_word_eqI[where 'a = nat]) (simp add: ring_count_def)
  then show ?thesis by (simp add: ringbuf_push_def)
qed

lemma ring_not_full:
  "ring_count rb < unat (slot_count rb) \<Longrightarrow> write_idx rb - read_idx rb \<noteq> ucast (slot_count rb)"
  by (auto simp: ring_count_def)

lemma ringbuf_push_ok:
  assumes wf: "ring_wf rb" and room: "ring_count rb < unat (slot_count rb)"
    and sz: "unat sz \<le> unat (slot_size rb)" and src: "unat sz \<le> length src"
  obtains rb' where "ringbuf_push rb src sz = Some (0, rb')" and "ring_wf rb'"
    and "slot_size rb' = slot_size rb" and "slot_count rb' = slot_count rb"
    and "ring_slots rb' = ring_slots rb @
      [take (unat sz) src @ drop (unat sz) (ring_slot rb (unat (write_idx rb)))]"
proof -
  let ?c = "unat (slot_count rb)" and ?s = "unat (slot_size rb)"
  let ?w = "unat (write_idx rb)" and ?r = "unat (read_idx rb)" and ?n = "ring_count rb"
  define off where "off = ?w mod ?c * ?s"
  define d' where "d' = take off (ring_data rb) @ take (unat sz) src @ drop (off + unat sz) (ring_data rb)"
  define rb' where "rb' = rb\<lparr>ring_data := d', write_idx := write_idx rb + 1\<rparr>"
  have range: "off + ?s \<le> length (ring_data rb)" unfolding off_def by (rule slot_range[OF wf])
  have so: "slot_off rb (write_idx rb) = off"
    using slot_off_eq[OF ring_wfD(1)[OF wf]] by (simp add: off_def)
  have push: "ringbuf_push rb src sz = Some (0, rb')"
    using ring_not_full[OF room] sz src range
    by (simp add: ringbuf_push_def Let_def so slot_store_eq d'_def rb'_def word_less_nat_alt)
  have len: "length d' = length (ring_data rb)" using range sz src by (simp add: d'_def)
  have cnt: "ring_count rb' = Suc ?n"
    using ring_count_push[OF room] by (simp add: ring_count_def rb'_def)
  have wf': "ring_wf rb'"
    using wf room cnt len by (simp add: ring_wf_def ringbuf_valid_def rb'_def)
  have wmod: "?w mod ?c = (?r + ?n) mod ?c"
    using index_mod_shift[OF ring_wfD(1)[OF wf]] by (simp add: ring_count_def)
  have slot: "ring_slot rb' i = (if i mod ?c = ?w mod ?c
      then take (unat sz) src @ drop (unat sz) (ring_slot rb i) else ring_slot rb i)" for i
    using ring_slot_store[OF wf off_def, of "take (unat sz) src" d' "write_idx rb + 1" i] sz src
    by (simp add: d'_def rb'_def)
  have old: "ring_slot rb' (?r + i) = ring_slot rb (?r + i)" if "i < ?n" for i
    using slot[of "?r + i"] count_mod_neq[OF that room, of ?r] wmod by simp
  have "ring_slot rb (?r + ?n) = ring_slot rb ?w" using wmod by (simp add: ring_slot_def)
  then have new: "ring_slot rb' (?r + ?n) =
      take (unat sz) src @ drop (unat sz) (ring_slot rb ?w)"
    using slot[of "?r + ?n"] wmod by simp
  have "ring_slots rb' = ring_slots rb @
      [take (unat sz) src @ drop (unat sz) (ring_slot rb ?w)]"
    using old new by (simp add: ring_slots_def cnt) (simp add: rb'_def)
  with push wf' that show thesis by (simp add: rb'_def)
qed

lemma ring_count_0: "ring_count rb = 0 \<longleftrightarrow> write_idx rb = read_idx rb"
  by (auto simp: ring_count_def unat_eq_0)

lemma ringbuf_pop_empty: "ring_count rb = 0 \<Longrightarrow> ringbuf_pop rb buf sz = Some (-1, buf, rb)"
  by (simp add: ring_count_0 ringbuf_pop_def)

lemma ringbuf_pop_ok:
  assumes wf: "ring_wf rb" and some: "ring_count rb \<noteq> 0"
    and sz: "unat sz \<le> unat (slot_size rb)" and buf: "unat sz \<le> length buf"
  obtains rb' where
    "ringbuf_pop rb buf sz = Some (0, take (unat sz) (hd (ring_slots rb)) @ drop (unat sz) buf, rb')"
    and "ring_wf rb'" and "slot_size rb' = slot_size rb" and "slot_count rb' = slot_count rb"
    and "ring_slots rb' = tl (ring_slots rb)"
proof -
  let ?c = "unat (slot_count rb)" and ?s = "unat (slot_size rb)"
  let ?r = "unat (read_idx rb)" and ?n = "ring_count rb"
  define rb' where "rb' = rb\<lparr>read_idx := read_idx rb + 1\<rparr>"
  have nz: "write_idx rb - read_idx rb \<noteq> 0" using some by (auto simp: ring_count_0)
  then have cnt: "ring_count rb' = ?n - 1"
    using unat_minus_one[OF nz] by (simp add: ring_count_def rb'_def diff_diff_eq)
  have wf': "ring_wf rb'"
    using wf cnt by (auto simp: ring_wf_def ringbuf_valid_def rb'_def)
  have rmod: "unat (read_idx rb + 1) mod ?c = Suc ?r mod ?c"
    using index_mod_shift[OF ring_wfD(1)[OF wf], of "read_idx rb + 1" "read_idx rb"] by simp
  have slot: "ring_slot rb' (unat (read_idx rb + 1) + i) = ring_slot rb (?r + Suc i)" for i
  proof -
    have "(unat (read_idx rb + 1) + i) mod ?c = (Suc ?r + i) mod ?c"
      using rmod by (metis mod_add_left_eq)
    then show ?thesis by (simp add: ring_slot_def rb'_def)
  qed
  obtain m where m: "?n = Suc m" using some by (cases ?n) auto
  have split: "ring_slots rb = ring_slot rb ?r # map (\<lambda>i. ring_slot rb (?r + Suc i)) [0..<m]"
    by (simp add: ring_slots_def m upt_conv_Cons map_Suc_upt[symmetric] del: upt_Suc)
  have tl: "ring_slots rb' = tl (ring_slots rb)"
    using slot unfolding split by (simp add: ring_slots_def cnt m) (simp add: rb'_def)
  have so: "slot_off rb (read_idx rb) = ?r mod ?c * ?s"
    by (rule slot_off_eq[OF ring_wfD(1)[OF wf]])
  have hd: "take (unat sz) (drop (?r mod ?c * ?s) (ring_data rb)) = take (unat sz) (hd (ring_slots rb))"
    using sz unfolding split by (simp add: ring_slot_def min_absorb1)
  have ne: "read_idx rb \<noteq> write_idx rb" using nz by auto
  have range: "?r mod ?c * ?s + unat sz \<le> length (ring_data rb)"
    using slot_range[OF wf, of ?r] sz by linarith
  have "ringbuf_pop rb buf sz = Some (0, take (unat sz) (hd (ring_slots rb)) @ drop (unat sz) buf, rb')"
    using ne sz buf range
    by (simp add: ringbuf_pop_def Let_def so slot_load_eq hd rb'_def word_less_nat_alt)
  with wf' tl that show thesis by (simp add: rb'_def)
qed

lemma ringbuf_init_ok:
  assumes "is_pow2 ss" "8 \<le> ss" "is_pow2 sc" "2 \<le> sc"
    and "unat ss * unat sc \<le> length (ring_data rb)" and "length (rb_reserved rb) = 24"
  obtains rb' where "ringbuf_init (Some rb) ss sc = Some (0, Some rb')" and "ring_wf rb'"
    and "ring_slots rb' = []" and "slot_size rb' = ss" and "slot_count rb' = sc"
proof -
  have "unat ss * unat sc < 2 ^ 32 * 2 ^ 32"
    using unat_u32_less[of ss] unat_u32_less[of sc] by (intro mult_strict_mono) auto
  then have prod: "unat (ucast ss * ucast sc :: u64) = unat ss * unat sc"
    using unat_mult_lem[of "ucast ss :: u64" "ucast sc :: u64"] by simp
  define rb' where "rb' = rb\<lparr>rb_magic := RINGBUF_MAGIC, rb_version := RINGBUF_VERSION,
    slot_size := ss, slot_count := sc, rb_pad := 0, write_idx := 0, read_idx := 0,
    rb_reserved := replicate 24 0,
    ring_data := replicate (unat ss * unat sc) 0 @ drop (unat ss * unat sc) (ring_data rb)\<rparr>"
  have "ringbuf_init (Some rb) ss sc = Some (0, Some rb')"
    using assms by (simp add: ringbuf_init_def memset_eq prod rb'_def not_less)
  moreover have "ring_wf rb'"
    using assms by (simp add: ring_wf_def ringbuf_valid_def rb'_def ring_count_def mult.commute)
  ultimately show thesis
    using that by (simp add: ring_slots_def ring_count_def rb'_def)
qed

subsection \<open>The contract of a slot queue\<close>

text \<open>
  What the ports and the driver rings rely on. \<open>slots\<close> is the queue, oldest slot first;
  an operation that cannot proceed returns \<open>-1\<close> and changes nothing; no operation on a
  well-formed queue faults.
\<close>

locale slot_fifo =
  fixes push :: "'r \<Rightarrow> u8 list \<Rightarrow> u32 \<Rightarrow> (int \<times> 'r) option"
    and pop :: "'r \<Rightarrow> u8 list \<Rightarrow> u32 \<Rightarrow> (int \<times> u8 list \<times> 'r) option"
    and wf :: "'r \<Rightarrow> bool"
    and slots :: "'r \<Rightarrow> u8 list list"
    and width :: "'r \<Rightarrow> u32"
    and cap :: "'r \<Rightarrow> nat"
  assumes slots_bounded: "wf r \<Longrightarrow> length (slots r) \<le> cap r"
    and push_full: "wf r \<Longrightarrow> length (slots r) = cap r \<Longrightarrow> push r src sz = Some (-1, r)"
    and push_wide: "wf r \<Longrightarrow> width r < sz \<Longrightarrow> push r src sz = Some (-1, r)"
    and push_room: "wf r \<Longrightarrow> length (slots r) < cap r \<Longrightarrow> sz \<le> width r \<Longrightarrow>
      unat sz \<le> length src \<Longrightarrow>
      \<exists>r' old. push r src sz = Some (0, r') \<and> wf r' \<and> width r' = width r \<and> cap r' = cap r \<and>
        length old = unat (width r) \<and>
        slots r' = slots r @ [take (unat sz) src @ drop (unat sz) old]"
    and pop_none: "wf r \<Longrightarrow> slots r = [] \<Longrightarrow> pop r buf sz = Some (-1, buf, r)"
    and pop_wide: "wf r \<Longrightarrow> width r < sz \<Longrightarrow> pop r buf sz = Some (-1, buf, r)"
    and pop_some: "wf r \<Longrightarrow> slots r = x # xs \<Longrightarrow> sz \<le> width r \<Longrightarrow> unat sz \<le> length buf \<Longrightarrow>
      \<exists>r'. pop r buf sz = Some (0, take (unat sz) x @ drop (unat sz) buf, r') \<and>
        wf r' \<and> width r' = width r \<and> cap r' = cap r \<and> slots r' = xs"

text \<open>
  A client's run of a queue: a list of requests and the answers it sees. \<open>fifo_run\<close> drives
  the code; \<open>queue_run\<close> is the same run of a bounded list.
\<close>

datatype fifo_req = Put "u8 list" | Take
datatype fifo_ans = Stored | Full | Taken "u8 list" | Empty

fun fifo_run ::
  "('r \<Rightarrow> u8 list \<Rightarrow> u32 \<Rightarrow> (int \<times> 'r) option) \<Rightarrow>
   ('r \<Rightarrow> u8 list \<Rightarrow> u32 \<Rightarrow> (int \<times> u8 list \<times> 'r) option) \<Rightarrow>
   u32 \<Rightarrow> 'r \<Rightarrow> fifo_req list \<Rightarrow> (fifo_ans list \<times> 'r) option" where
  "fifo_run push pop w r [] = Some ([], r)"
| "fifo_run push pop w r (Put m # reqs) =
     do { (rc, r') \<leftarrow> push r m w;
          (as, r'') \<leftarrow> fifo_run push pop w r' reqs;
          Some ((if rc = 0 then Stored else Full) # as, r'') }"
| "fifo_run push pop w r (Take # reqs) =
     do { (rc, m, r') \<leftarrow> pop r (replicate (unat w) 0) w;
          (as, r'') \<leftarrow> fifo_run push pop w r' reqs;
          Some ((if rc = 0 then Taken m else Empty) # as, r'') }"

fun queue_run :: "nat \<Rightarrow> u8 list list \<Rightarrow> fifo_req list \<Rightarrow> fifo_ans list \<times> u8 list list" where
  "queue_run c q [] = ([], q)"
| "queue_run c q (Put m # reqs) =
     (if length q < c then map_prod (Cons Stored) id (queue_run c (q @ [m]) reqs)
      else map_prod (Cons Full) id (queue_run c q reqs))"
| "queue_run c q (Take # reqs) =
     (case q of [] \<Rightarrow> map_prod (Cons Empty) id (queue_run c [] reqs)
      | m # q' \<Rightarrow> map_prod (Cons (Taken m)) id (queue_run c q' reqs))"

definition full_slots :: "u32 \<Rightarrow> fifo_req list \<Rightarrow> bool" where
  "full_slots w reqs \<longleftrightarrow> (\<forall>m. Put m \<in> set reqs \<longrightarrow> length m = unat w)"

lemma full_slots_Cons [simp]:
  "full_slots w (Put m # reqs) \<longleftrightarrow> length m = unat w \<and> full_slots w reqs"
  "full_slots w (Take # reqs) \<longleftrightarrow> full_slots w reqs"
  by (auto simp: full_slots_def)

context slot_fifo
begin

text \<open>Every run of the code gives the answers of the bounded list and ends in its state.\<close>

lemma run_refines_queue:
  assumes "wf r" and "full_slots (width r) reqs"
    and "\<forall>m\<in>set (slots r). length m = unat (width r)"
  shows "\<exists>r'. fifo_run push pop (width r) r reqs =
               Some (fst (queue_run (cap r) (slots r) reqs), r') \<and>
             wf r' \<and> slots r' = snd (queue_run (cap r) (slots r) reqs)"
  using assms
proof (induction reqs arbitrary: r)
  case Nil
  then show ?case by simp
next
  case (Cons req reqs)
  show ?case
  proof (cases req)
    case (Put m)
    with Cons.prems have m: "length m = unat (width r)" "full_slots (width r) reqs" by auto
    show ?thesis
    proof (cases "length (slots r) < cap r")
      case True
      from push_room[OF Cons.prems(1) True, of "width r" m] m obtain r1 where
        r1: "push r m (width r) = Some (0, r1)" "wf r1" "width r1 = width r" "cap r1 = cap r"
          "slots r1 = slots r @ [m]" by auto
      from Cons.IH[of r1] r1 m Cons.prems(3) obtain r' where
        "fifo_run push pop (width r) r1 reqs =
           Some (fst (queue_run (cap r) (slots r @ [m]) reqs), r')"
        "wf r'" "slots r' = snd (queue_run (cap r) (slots r @ [m]) reqs)" by auto
      with Put True r1 show ?thesis by simp
    next
      case False
      then have full: "length (slots r) = cap r"
        using slots_bounded[OF Cons.prems(1)] by simp
      from Cons.IH[OF Cons.prems(1) m(2) Cons.prems(3)] obtain r' where
        "fifo_run push pop (width r) r reqs = Some (fst (queue_run (cap r) (slots r) reqs), r')"
        "wf r'" "slots r' = snd (queue_run (cap r) (slots r) reqs)" by auto
      with Put False push_full[OF Cons.prems(1) full] show ?thesis by simp
    qed
  next
    case Take
    with Cons.prems have w: "full_slots (width r) reqs" by simp
    show ?thesis
    proof (cases "slots r")
      case Nil
      from Cons.IH[OF Cons.prems(1) w Cons.prems(3)] obtain r' where
        "fifo_run push pop (width r) r reqs = Some (fst (queue_run (cap r) (slots r) reqs), r')"
        "wf r'" "slots r' = snd (queue_run (cap r) (slots r) reqs)" by auto
      with Take Nil pop_none[OF Cons.prems(1) Nil] show ?thesis by simp
    next
      case (Cons x xs)
      from pop_some[OF Cons.prems(1) Cons, of "width r" "replicate (unat (width r)) 0"]
      obtain r1 where
        r1: "pop r (replicate (unat (width r)) 0) (width r) = Some (0, x, r1)" "wf r1"
          "width r1 = width r" "cap r1 = cap r" "slots r1 = xs"
        using Cons.prems(3) Cons by auto
      from Cons.IH[of r1] r1 w Cons.prems(3) Cons obtain r' where
        "fifo_run push pop (width r) r1 reqs = Some (fst (queue_run (cap r) xs reqs), r')"
        "wf r'" "slots r' = snd (queue_run (cap r) xs reqs)" by auto
      with Take Cons r1 show ?thesis by simp
    qed
  qed
qed

end

lemma length_ring_slots: "length (ring_slots rb) = ring_count rb"
  by (simp add: ring_slots_def)

interpretation ring: slot_fifo ringbuf_push ringbuf_pop ring_wf ring_slots slot_size
  "\<lambda>rb. unat (slot_count rb)"
proof (unfold_locales, goal_cases)
  case (1 r)
  then show ?case by (simp add: length_ring_slots ring_wf_def)
next
  case (2 r src sz)
  then show ?case by (simp add: length_ring_slots ringbuf_push_full)
next
  case (3 r sz src)
  then show ?case by (simp add: ringbuf_push_def Let_def)
next
  case (4 r sz src)
  let ?old = "ring_slot r (unat (write_idx r))"
  have room: "ring_count r < unat (slot_count r)" using 4(2) by (simp add: length_ring_slots)
  have sz: "unat sz \<le> unat (slot_size r)" using 4(3) by (simp add: word_le_nat_alt)
  obtain r' where r': "ringbuf_push r src sz = Some (0, r')" "ring_wf r'"
    "slot_size r' = slot_size r" "slot_count r' = slot_count r"
    "ring_slots r' = ring_slots r @ [take (unat sz) src @ drop (unat sz) ?old]"
    by (rule ringbuf_push_ok[OF 4(1) room sz 4(4)])
  show ?case
    by (rule exI[of _ r'], rule exI[of _ ?old]) (simp add: r' length_ring_slot[OF 4(1)])
next
  case (5 r buf sz)
  then show ?case using ringbuf_pop_empty[of r] by (simp flip: length_ring_slots)
next
  case (6 r sz buf)
  then show ?case by (simp add: ringbuf_pop_def Let_def)
next
  case (7 r x xs sz buf)
  have some: "ring_count r \<noteq> 0" using 7(2) by (simp flip: length_ring_slots)
  have sz: "unat sz \<le> unat (slot_size r)" using 7(3) by (simp add: word_le_nat_alt)
  obtain r' where
    "ringbuf_pop r buf sz = Some (0, take (unat sz) (hd (ring_slots r)) @ drop (unat sz) buf, r')"
    "ring_wf r'" "slot_size r' = slot_size r" "slot_count r' = slot_count r"
    "ring_slots r' = tl (ring_slots r)"
    by (rule ringbuf_pop_ok[OF 7(1) some sz 7(4)])
  then show ?case by (intro exI[of _ r']) (simp add: 7(2))
qed

subsection \<open>Properties\<close>

text \<open>
  C1: every sequence of pushes and pops of full-width slots on a well-formed ring runs without
  an out-of-bounds access and gives exactly the answers of a bounded first-in first-out queue
  (stored or full, the oldest message or empty), whatever the two monotonic indices are, also
  across their wrap at 2^64; the final ring represents the final queue.
\<close>

theorem ringbuf_run_refines_queue:
  assumes "ring_wf rb" and "full_slots (slot_size rb) reqs"
  shows "\<exists>rb'. fifo_run ringbuf_push ringbuf_pop (slot_size rb) rb reqs =
             Some (fst (queue_run (unat (slot_count rb)) (ring_slots rb) reqs), rb') \<and>
           ring_wf rb' \<and>
           ring_slots rb' = snd (queue_run (unat (slot_count rb)) (ring_slots rb) reqs)"
  using assms length_ring_slot[OF assms(1)]
  by (intro ring.run_refines_queue) (auto simp: ring_slots_def)

definition demo_ring :: ringbuf where
  "demo_ring = \<lparr>rb_magic = RINGBUF_MAGIC, rb_version = RINGBUF_VERSION, slot_size = 8,
     slot_count = 2, rb_pad = 0, write_idx = -1, read_idx = -1, rb_reserved = replicate 24 0,
     ring_data = replicate 16 7\<rparr>"

lemma demo_ring_wf: "ring_wf demo_ring"
  by (simp add: demo_ring_def ring_wf_def ringbuf_valid_def ring_count_def is_pow2_def)

theorem ringbuf_run_refines_queue_witness:
  "ring_wf demo_ring \<and>
   (\<exists>rb'. fifo_run ringbuf_push ringbuf_pop 8 demo_ring
      [Put (replicate 8 1), Put (replicate 8 2), Put (replicate 8 3), Take, Take, Take] =
      Some ([Stored, Stored, Full, Taken (replicate 8 1), Taken (replicate 8 2), Empty], rb'))"
proof -
  have w: "slot_size demo_ring = 8" and c: "unat (slot_count demo_ring) = 2"
    and e: "ring_slots demo_ring = []"
    by (simp_all add: demo_ring_def ring_slots_def ring_count_def)
  show ?thesis
    using ringbuf_run_refines_queue[OF demo_ring_wf, of "[Put (replicate 8 1),
        Put (replicate 8 2), Put (replicate 8 3), Take, Take, Take]"]
      demo_ring_wf
    by (auto simp: w c e full_slots_def)
qed

end
