(* ===== verification/Ring_Batch.thy ===== *)
theory Ring_Batch
  imports Ringbuf
begin

text \<open>
  The counters and the batch operations of \<^verbatim>\<open>kernel/ipc/ringbuf.h\<close>: a batch is proved equal
  to the single operations it abbreviates, state for state.
\<close>

subsection \<open>Counting\<close>

lemma unat_count_u32:
  assumes "ring_wf rb"
  shows "unat (ucast (write_idx rb - read_idx rb) :: u32) = ring_count rb"
proof -
  have "unat (write_idx rb - read_idx rb) < 2 ^ 32"
    using ring_wfD(6)[OF assms] unat_u32_less[of "slot_count rb"] by (simp add: ring_count_def)
  then show ?thesis
    by (simp add: ring_count_def unsigned_ucast_eq take_bit_nat_eq_self)
qed

lemma ringbuf_used_eq: "ring_wf rb \<Longrightarrow> unat (ringbuf_used rb) = ring_count rb"
  using unat_count_u32[of rb] ring_wfD(6)[of rb]
  by (auto simp: ringbuf_used_def Let_def word_less_nat_alt)

lemma ringbuf_free_eq: "ring_wf rb \<Longrightarrow> unat (ringbuf_free rb) = unat (slot_count rb) - ring_count rb"
  using ringbuf_used_eq[of rb] ring_wfD(6)[of rb]
  by (simp add: ringbuf_free_def unat_sub word_le_nat_alt)

lemma ringbuf_full_eq: "ring_wf rb \<Longrightarrow> ringbuf_full rb \<longleftrightarrow> ring_count rb = unat (slot_count rb)"
  unfolding ringbuf_full_def word_unat_eq_iff using ringbuf_used_eq[of rb] by simp

lemma ringbuf_empty_eq: "ringbuf_empty rb \<longleftrightarrow> ring_count rb = 0"
  by (simp add: ringbuf_empty_def ring_count_0)

subsection \<open>Batches are iterated single operations\<close>

fun push_each :: "ringbuf \<Rightarrow> u8 list list \<Rightarrow> u32 \<Rightarrow> ringbuf option" where
  "push_each rb [] sz = Some rb"
| "push_each rb (m # ms) sz =
     do { (rc, rb') \<leftarrow> ringbuf_push rb m sz; if rc = 0 then push_each rb' ms sz else None }"

lemma push_batch_loop_eq:
  assumes "ring_wf (rb\<lparr>ring_data := d, write_idx := w + of_nat i\<rparr>)"
    and "ring_count (rb\<lparr>ring_data := d, write_idx := w + of_nat i\<rparr>) + k \<le> unat (slot_count rb)"
    and "isz \<le> slot_size rb" and "(i + k) * unat isz \<le> length src"
  shows "\<exists>d'. push_batch_loop rb w src (unat isz) i k d = Some d' \<and>
     push_each (rb\<lparr>ring_data := d, write_idx := w + of_nat i\<rparr>)
       (map (\<lambda>j. drop (j * unat isz) src) [i..<i + k]) isz =
       Some (rb\<lparr>ring_data := d', write_idx := w + of_nat (i + k)\<rparr>)"
  using assms
proof (induction k arbitrary: i d)
  case 0
  then show ?case by simp
next
  case (Suc k)
  let ?S = "rb\<lparr>ring_data := d, write_idx := w + of_nat i\<rparr>"
  let ?m = "drop (i * unat isz) src"
  have room: "ring_count ?S < unat (slot_count ?S)" using Suc.prems(2) by simp
  have "i * unat isz + unat isz = (i + 1) * unat isz" by simp
  also have "\<dots> \<le> (i + Suc k) * unat isz" by (intro mult_le_mono1) simp
  finally have le: "i * unat isz + unat isz \<le> length src" using Suc.prems(4) by linarith
  then have m: "unat isz \<le> length ?m" by simp
  obtain S' where S': "ringbuf_push ?S ?m isz = Some (0, S')" "ring_wf S'"
      "length (ring_slots S') = Suc (ring_count ?S)"
    using ring.push_room[OF Suc.prems(1) _ _ m] Suc.prems(3) room
    by (fastforce simp: length_ring_slots)
  have off: "slot_off ?S (w + of_nat i) = slot_off rb (w + of_nat i)" by (simp add: slot_off_def)
  have pushS: "ringbuf_push ?S ?m isz =
      map_option (\<lambda>d1. (0, rb\<lparr>ring_data := d1, write_idx := w + of_nat (Suc i)\<rparr>))
        (slot_store d (slot_off rb (w + of_nat i)) ?m (unat isz))"
    using ring_not_full[OF room] Suc.prems(3)
    by (simp add: ringbuf_push_def Let_def off bind_Some_map leD add.assoc add.commute[of 1])
  obtain d1 where
    d1: "slot_store d (slot_off rb (w + of_nat i)) ?m (unat isz) = Some d1"
    and S1: "S' = rb\<lparr>ring_data := d1, write_idx := w + of_nat (Suc i)\<rparr>"
    using S'(1) unfolding pushS by auto
  have "ring_wf (rb\<lparr>ring_data := d1, write_idx := w + of_nat (Suc i)\<rparr>)"
    using S'(2) S1 by simp
  moreover have "ring_count (rb\<lparr>ring_data := d1, write_idx := w + of_nat (Suc i)\<rparr>) + k
      \<le> unat (slot_count rb)"
    using S'(3) S1 Suc.prems(2) by (simp add: length_ring_slots)
  ultimately obtain d' where
    "push_batch_loop rb w src (unat isz) (Suc i) k d1 = Some d'"
    "push_each S' (map (\<lambda>j. drop (j * unat isz) src) [Suc i..<Suc i + k]) isz =
       Some (rb\<lparr>ring_data := d', write_idx := w + of_nat (Suc i + k)\<rparr>)"
    using Suc.IH[of "Suc i" d1] Suc.prems(3,4) S1 by auto
  with d1 S'(1) le show ?case by (simp add: upt_conv_Cons del: upt_Suc)
qed

lemma ringbuf_push_batch_eq:
  assumes wf: "ring_wf rb" and isz: "isz \<le> slot_size rb"
    and src: "unat n * unat isz \<le> length items"
  defines "k \<equiv> min (unat n) (unat (slot_count rb) - ring_count rb)"
  shows "\<exists>rb'. ringbuf_push_batch rb items isz n = Some (of_nat k, rb') \<and>
     push_each rb (map (\<lambda>j. drop (j * unat isz) items) [0..<k]) isz = Some rb'"
proof -
  let ?a = "slot_count rb - ucast (write_idx rb - read_idx rb)"
  have a: "unat ?a = unat (slot_count rb) - ring_count rb"
    using unat_count_u32[OF wf] ring_wfD(6)[OF wf] by (simp add: unat_sub word_le_nat_alt)
  have k: "(if ?a < n then ?a else n) = of_nat k"
    by (simp add: k_def word_less_nat_alt a min_def flip: a)
  have kn: "unat (of_nat k :: u32) = k"
    unfolding k[symmetric] by (auto simp: k_def a word_less_nat_alt)
  have room: "ring_count rb + k \<le> unat (slot_count rb)"
    using ring_wfD(6)[OF wf] by (simp add: k_def)
  have "k * unat isz \<le> length items"
    using src le_trans[OF mult_le_mono1[of k "unat n" "unat isz"]] by (simp add: k_def)
  with push_batch_loop_eq[where rb = rb and d = "ring_data rb" and w = "write_idx rb" and i = 0
      and k = k and isz = isz and src = items] wf isz
  obtain d' where "push_batch_loop rb (write_idx rb) items (unat isz) 0 k (ring_data rb) = Some d'"
    "push_each rb (map (\<lambda>j. drop (j * unat isz) items) [0..<k]) isz =
       Some (rb\<lparr>ring_data := d', write_idx := write_idx rb + of_nat k\<rparr>)"
    using room by auto
  moreover have "ucast (of_nat k :: u32) = (of_nat k :: u64)"
  proof -
    have "k < 2 ^ LENGTH(64)" using kn unat_u32_less[of "of_nat k"] by simp
    then have "unat (of_nat k :: u64) = k" by (simp add: unat_of_nat)
    with kn show ?thesis by (simp add: word_unat_eq_iff)
  qed
  ultimately show ?thesis
    using isz kn by (simp add: ringbuf_push_batch_def Let_def k leD)
qed

lemma pop_batch_loop_eq:
  assumes wf: "ring_wf rb" and isz: "isz \<le> slot_size rb"
    and "i + k \<le> ring_count rb" and "(i + k) * unat isz \<le> length buf"
  shows "pop_batch_loop rb (read_idx rb) (unat isz) i k buf =
     Some (take (i * unat isz) buf @
           concat (map (take (unat isz)) (take k (drop i (ring_slots rb)))) @
           drop ((i + k) * unat isz) buf)"
  using assms(3,4)
proof (induction k arbitrary: i buf)
  case 0
  then show ?case by simp
next
  case (Suc k)
  let ?c = "unat (slot_count rb)" and ?s = "unat (slot_size rb)" and ?z = "unat isz"
  let ?r = "unat (read_idx rb)"
  have "i * ?z + ?z = (i + 1) * ?z" by simp
  also have "\<dots> \<le> (i + Suc k) * ?z" by (intro mult_le_mono1) simp
  finally have le: "i * ?z + ?z \<le> length buf" using Suc.prems(2) by linarith
  have zs: "?z \<le> ?s" using isz by (simp add: word_le_nat_alt)
  have "unat (of_nat i :: u64) = i"
  proof -
    have "i < 2 ^ 64" using Suc.prems(1) ring_wfD(6)[OF wf] unat_u32_less[of "slot_count rb"] by simp
    then show ?thesis by (simp add: unat_of_nat)
  qed
  then have im: "unat (read_idx rb + of_nat i) mod ?c = (?r + i) mod ?c"
    using index_mod_shift[OF ring_wfD(1)[OF wf], of "read_idx rb + of_nat i" "read_idx rb"] by simp
  have so: "slot_off rb (read_idx rb + of_nat i) = (?r + i) mod ?c * ?s"
    using slot_off_eq[OF ring_wfD(1)[OF wf]] im by simp
  have nth: "ring_slots rb ! i = ring_slot rb (?r + i)" "i < length (ring_slots rb)"
    using Suc.prems(1) by (simp_all add: ring_slots_def)
  have src: "take ?z (drop ((?r + i) mod ?c * ?s) (ring_data rb)) = take ?z (ring_slots rb ! i)"
    using zs by (simp add: nth ring_slot_def min_absorb1)
  have "(?r + i) mod ?c * ?s + ?z \<le> length (ring_data rb)"
    using slot_range[OF wf, of "?r + i"] zs by linarith
  then have ld: "slot_load (ring_data rb) (slot_off rb (read_idx rb + of_nat i)) (drop (i * ?z) buf) ?z
      = Some (take ?z (ring_slots rb ! i) @ drop (i * ?z + ?z) buf)"
    using le by (simp add: so slot_load_eq src add.commute[of ?z])
  let ?x = "take ?z (ring_slots rb ! i)"
  let ?buf = "take (i * ?z) buf @ ?x @ drop (i * ?z + ?z) buf"
  have xlen: "length ?x = ?z"
    using zs length_ring_slot[OF wf] by (simp add: nth)
  have lb: "length ?buf = length buf" using le xlen by simp
  have "pop_batch_loop rb (read_idx rb) ?z (Suc i) k ?buf =
     Some (take (Suc i * ?z) ?buf @
           concat (map (take ?z) (take k (drop (Suc i) (ring_slots rb)))) @
           drop ((Suc i + k) * ?z) ?buf)"
    by (rule Suc.IH) (use Suc.prems lb in auto)
  moreover have "take (Suc i * ?z) ?buf = take (i * ?z) buf @ ?x"
    using le xlen by (simp add: add.commute)
  moreover have "drop ((Suc i + k) * ?z) ?buf = drop ((i + Suc k) * ?z) buf"
    using le xlen by (simp add: add_mult_distrib) (simp add: ac_simps)
  ultimately have "pop_batch_loop rb (read_idx rb) ?z (Suc i) k ?buf =
     Some (take (i * ?z) buf @
           concat (map (take ?z) (take (Suc k) (drop i (ring_slots rb)))) @
           drop ((i + Suc k) * ?z) buf)"
    using nth(2) by (simp add: take_Suc_conv_app_nth Cons_nth_drop_Suc[symmetric])
  then show ?case using le ld by simp
qed

text \<open>A batch pop removes the oldest slots in order and lays them out one after the other.\<close>

lemma ringbuf_pop_batch_eq:
  assumes wf: "ring_wf rb" and isz: "isz \<le> slot_size rb"
    and buf: "unat n * unat isz \<le> length buf"
  defines "k \<equiv> min (unat n) (ring_count rb)"
  shows "\<exists>rb'. ringbuf_pop_batch rb buf isz n =
     Some (of_nat k, concat (map (take (unat isz)) (take k (ring_slots rb))) @
                     drop (k * unat isz) buf, rb') \<and>
     ring_wf rb' \<and> ring_slots rb' = drop k (ring_slots rb)"
proof -
  let ?a = "ucast (write_idx rb - read_idx rb) :: u32"
  have a: "unat ?a = ring_count rb" by (rule unat_count_u32[OF wf])
  have k: "(if ?a < n then ?a else n) = of_nat k"
    by (simp add: k_def word_less_nat_alt a min_def flip: a)
  have kn: "unat (of_nat k :: u32) = k"
    unfolding k[symmetric] by (auto simp: k_def a word_less_nat_alt)
  have k64: "k < 2 ^ 64" using kn unat_u32_less[of "of_nat k"] by simp
  then have u64: "unat (of_nat k :: u64) = k" by (simp add: unat_of_nat)
  have uc: "ucast (of_nat k :: u32) = (of_nat k :: u64)"
    using kn u64 by (simp add: word_unat_eq_iff)
  define rb' where "rb' = rb\<lparr>read_idx := read_idx rb + of_nat k\<rparr>"
  have le: "(of_nat k :: u64) \<le> write_idx rb - read_idx rb"
    unfolding word_le_nat_alt u64 by (simp add: k_def ring_count_def)
  then have cnt: "ring_count rb' = ring_count rb - k"
    by (simp add: rb'_def ring_count_def diff_diff_eq[symmetric] unat_sub u64)
  have wf': "ring_wf rb'"
    using wf cnt by (auto simp: rb'_def ring_wf_def ringbuf_valid_def)
  have slot: "ring_slot rb' (unat (read_idx rb + of_nat k) + i) = ring_slot rb (unat (read_idx rb) + (k + i))" for i
  proof -
    have "unat (read_idx rb + of_nat k) mod unat (slot_count rb) =
        (unat (read_idx rb) + k) mod unat (slot_count rb)"
      using index_mod_shift[OF ring_wfD(1)[OF wf], of "read_idx rb + of_nat k" "read_idx rb"] u64 by simp
    then have "(unat (read_idx rb + of_nat k) + i) mod unat (slot_count rb) =
        (unat (read_idx rb) + (k + i)) mod unat (slot_count rb)"
      by (metis add.assoc mod_add_left_eq)
    then show ?thesis by (simp add: ring_slot_def rb'_def)
  qed
  have slots: "ring_slots rb' = drop k (ring_slots rb)"
  proof (rule nth_equalityI)
    show "length (ring_slots rb') = length (drop k (ring_slots rb))"
      by (simp add: length_ring_slots cnt)
  next
    fix i
    assume "i < length (ring_slots rb')"
    then have i: "i < ring_count rb - k" by (simp add: length_ring_slots cnt)
    then show "ring_slots rb' ! i = drop k (ring_slots rb) ! i"
      using slot[of i] by (simp add: ring_slots_def cnt) (simp add: rb'_def)
  qed
  have "k * unat isz \<le> length buf"
    using buf le_trans[OF mult_le_mono1[of k "unat n" "unat isz"]] by (simp add: k_def)
  then have "pop_batch_loop rb (read_idx rb) (unat isz) 0 k buf =
     Some (concat (map (take (unat isz)) (take k (ring_slots rb))) @ drop (k * unat isz) buf)"
    using pop_batch_loop_eq[OF wf isz, of 0 k buf] by (simp add: k_def)
  with isz kn wf' slots show ?thesis
    by (simp add: ringbuf_pop_batch_def Let_def k leD uc rb'_def)
qed

end
