(* ===== verification/Buddy.thy ===== *)
theory Buddy
  imports Prelude
begin

text \<open>
  The physical page allocator of kernel/mm/mm.c: the bootstrap bump allocator, the binary
  buddy system with its intrusive free lists, and their initialisation from the boot memory
  map.

  Physical memory is a store \<open>pmem\<close> of 64-bit words addressed by physical byte address. The
  free lists are the code's: a head pointer per order, and in the first word of every free
  block the pointer to the next one, as an address of the direct map at \<open>PHYS_MAP_BASE\<close>. The
  page-info array is a partial map from frame numbers, undefined where the array is not
  mapped; touching it there is a fault (\<open>None\<close>), as is a free list index above \<open>MAX_ORDER\<close>
  and a list walk that never ends. The operations run under the allocator's spin lock, so
  each is one step of the state.
\<close>

unbundle bit_operations_syntax

subsection \<open>State\<close>

abbreviation MAX_ORDER :: nat where "MAX_ORDER \<equiv> 18"

abbreviation PAGE_SIZE :: u64 where "PAGE_SIZE \<equiv> 4096"

definition PHYS_MAP_BASE :: u64 where "PHYS_MAP_BASE = 0xFFFFC80000000000"

definition PAGE_ALIGN :: "u64 \<Rightarrow> u64" where
  "PAGE_ALIGN x = (x + PAGE_SIZE - 1) AND NOT (PAGE_SIZE - 1)"

definition PAGE_ALIGN_DOWN :: "u64 \<Rightarrow> u64" where
  "PAGE_ALIGN_DOWN x = x AND NOT (PAGE_SIZE - 1)"

definition PAGE_FREE :: u16 where "PAGE_FREE = 1"
definition PAGE_ALLOC :: u16 where "PAGE_ALLOC = 2"

record page_info =
  pi_flags :: u16
  pi_order :: u8
  pi_refcount :: u8
  pi_map_count :: u16
  pi_reserved :: u16

record phys_state =
  free_lists :: "u64 list"
  free_pages :: u64
  total_pages :: u64
  phys_base :: u64
  phys_top :: u64
  early_boot :: bool
  bump_base :: u64
  bump_cur :: u64
  bump_end :: u64
  page_infos :: "u64 \<rightharpoonup> page_info"
  pmem :: "u64 \<Rightarrow> u64"

text \<open>An entry of the boot memory map; only free regions are used.\<close>

record mmap_entry =
  m_base :: u64
  m_pages :: u64
  m_type :: u32

definition ASD_MEM_FREE :: u32 where "ASD_MEM_FREE = 0"

definition phys_to_virt :: "phys_state \<Rightarrow> u64 \<Rightarrow> u64" where
  "phys_to_virt s p = (if early_boot s then p else PHYS_MAP_BASE + p)"

definition virt_to_phys :: "u64 \<Rightarrow> u64" where
  "virt_to_phys v = v - PHYS_MAP_BASE"

text \<open>
  The physical word behind a kernel pointer: identity-mapped during early boot, the direct map
  afterwards.
\<close>

definition kva_pa :: "phys_state \<Rightarrow> u64 \<Rightarrow> u64" where
  "kva_pa s v = (if early_boot s then v else v - PHYS_MAP_BASE)"

definition zero_mem :: "(u64 \<Rightarrow> u64) \<Rightarrow> u64 \<Rightarrow> u64 \<Rightarrow> u64 \<Rightarrow> u64" where
  "zero_mem m a n = (\<lambda>x. if x - a < n then 0 else m x)"

subsection \<open>Bump allocator\<close>

fun bump_first :: "mmap_entry list \<Rightarrow> u64 option" where
  "bump_first [] = None"
| "bump_first (m # ms) =
     (if m_type m \<noteq> ASD_MEM_FREE then bump_first ms
      else
        let base0 = PAGE_ALIGN (m_base m);
            fin = PAGE_ALIGN_DOWN (m_base m + m_pages m * PAGE_SIZE);
            base = (if base0 < 0x100000 then 0x100000 else base0)
        in if fin \<le> base \<or> fin - base < 0x4000000 then bump_first ms else Some base)"

fun bump_largest :: "mmap_entry list \<Rightarrow> phys_state \<Rightarrow> phys_state" where
  "bump_largest [] s = s"
| "bump_largest (m # ms) s =
     (if m_type m \<noteq> ASD_MEM_FREE then bump_largest ms s
      else
        let base = PAGE_ALIGN (m_base m);
            fin = PAGE_ALIGN_DOWN (m_base m + m_pages m * PAGE_SIZE)
        in bump_largest ms
             (if fin > base \<and> fin - base > bump_end s - bump_base s
              then s\<lparr>bump_base := base, bump_cur := base, bump_end := fin\<rparr> else s))"

definition bump_init :: "mmap_entry list \<Rightarrow> phys_state \<Rightarrow> phys_state" where
  "bump_init ms s =
     (case bump_first ms of
        Some base \<Rightarrow> s\<lparr>bump_base := base, bump_cur := base, bump_end := base + 0x4000000\<rparr>
      | None \<Rightarrow> bump_largest ms s)"

definition bump_alloc :: "phys_state \<Rightarrow> nat \<Rightarrow> u64 \<times> phys_state" where
  "bump_alloc s order =
     (let size = push_bit order PAGE_SIZE;
          aligned = (bump_cur s + size - 1) AND NOT (size - 1)
      in if aligned + size > bump_end s then (0, s)
         else (aligned, s\<lparr>bump_cur := aligned + size,
                          pmem := zero_mem (pmem s) aligned size\<rparr>))"

subsection \<open>Buddy system\<close>

definition pfn :: "u64 \<Rightarrow> u64" where
  "pfn p = drop_bit 12 p"

definition phys_free_block :: "phys_state \<Rightarrow> u64 \<Rightarrow> nat \<Rightarrow> phys_state option" where
  "phys_free_block s paddr order =
     (let b = phys_to_virt s paddr in
      if order < length (free_lists s) then
        (case page_infos s (pfn paddr) of
           None \<Rightarrow> None
         | Some pi \<Rightarrow>
             Some (s\<lparr>pmem := (pmem s)(kva_pa s b := free_lists s ! order),
                     free_lists := (free_lists s)[order := b],
                     page_infos := (page_infos s)(pfn paddr \<mapsto>
                       pi\<lparr>pi_flags := PAGE_FREE, pi_order := of_nat order\<rparr>),
                     free_pages := free_pages s + push_bit order 1\<rparr>))
      else None)"

fun fit_order :: "u64 \<Rightarrow> u64 \<Rightarrow> u64 \<Rightarrow> nat \<Rightarrow> nat" where
  "fit_order base i pages 0 = 0"
| "fit_order base i pages (Suc k) =
     (let block_pages = push_bit (Suc k) 1 in
      if i + block_pages > pages then fit_order base i pages k
      else if (base + i * PAGE_SIZE) AND (block_pages * PAGE_SIZE - 1) \<noteq> 0
      then fit_order base i pages k
      else Suc k)"

partial_function (option) free_range_from ::
  "u64 \<Rightarrow> u64 \<Rightarrow> u64 \<Rightarrow> phys_state \<Rightarrow> phys_state option" where
  "free_range_from base pages i s =
     (if i < pages then
        (let order = fit_order base i pages MAX_ORDER in
         Option.bind (phys_free_block s (base + i * PAGE_SIZE) order)
           (\<lambda>s'. free_range_from base pages (i + push_bit order 1) s'))
      else Some s)"

declare free_range_from.simps [code]

definition phys_free_range :: "phys_state \<Rightarrow> u64 \<Rightarrow> u64 \<Rightarrow> phys_state option" where
  "phys_free_range s base pages = free_range_from base pages 0 s"

definition free_and_count :: "phys_state \<Rightarrow> u64 \<Rightarrow> u64 \<Rightarrow> phys_state option" where
  "free_and_count s base pg =
     map_option (\<lambda>s'. s'\<lparr>total_pages := total_pages s' + pg\<rparr>) (phys_free_range s base pg)"

definition widen_bounds :: "phys_state \<Rightarrow> u64 \<Rightarrow> u64 \<Rightarrow> phys_state" where
  "widen_bounds s base fin =
     (let s = (if base < phys_base s then s\<lparr>phys_base := base\<rparr> else s)
      in if fin > phys_top s then s\<lparr>phys_top := fin\<rparr> else s)"

definition phys_init_entry :: "phys_state \<Rightarrow> mmap_entry \<Rightarrow> phys_state option" where
  "phys_init_entry s m =
     (if m_type m \<noteq> ASD_MEM_FREE then Some s
      else
        let base = PAGE_ALIGN (m_base m);
            fin = PAGE_ALIGN_DOWN (m_base m + m_pages m * PAGE_SIZE)
        in if fin \<le> base then Some s
           else
             let s = widen_bounds s base fin in
             if bump_base s \<noteq> 0 \<and> base < bump_end s \<and> fin > bump_base s then
               do {
                 s \<leftarrow> (if base < bump_base s
                      then free_and_count s base (drop_bit 12 (bump_base s - base))
                      else Some s);
                 if fin > bump_end s
                 then free_and_count s (bump_end s) (drop_bit 12 (fin - bump_end s))
                 else Some s
               }
             else free_and_count s base (drop_bit 12 (fin - base)))"

fun phys_init_entries :: "phys_state \<Rightarrow> mmap_entry list \<Rightarrow> phys_state option" where
  "phys_init_entries s [] = Some s"
| "phys_init_entries s (m # ms) =
     Option.bind (phys_init_entry s m) (\<lambda>s'. phys_init_entries s' ms)"

definition clear_g_phys :: "phys_state \<Rightarrow> phys_state" where
  "clear_g_phys s =
     s\<lparr>free_lists := replicate (MAX_ORDER + 1) 0, free_pages := 0, total_pages := 0,
       phys_base := -1, phys_top := 0\<rparr>"

definition amm_phys_init :: "phys_state \<Rightarrow> mmap_entry list \<Rightarrow> phys_state option" where
  "amm_phys_init s mmap = phys_init_entries (clear_g_phys s) mmap"

fun early_scan :: "phys_state \<Rightarrow> mmap_entry list \<Rightarrow> phys_state" where
  "early_scan s [] = s"
| "early_scan s (m # ms) =
     (if m_type m \<noteq> ASD_MEM_FREE then early_scan s ms
      else
        let base = PAGE_ALIGN (m_base m);
            fin = PAGE_ALIGN_DOWN (m_base m + m_pages m * PAGE_SIZE)
        in if fin \<le> base then early_scan s ms
           else
             let s = widen_bounds s base fin
             in early_scan (s\<lparr>total_pages := total_pages s + drop_bit 12 (fin - base)\<rparr>) ms)"

definition amm_early_phys_scan :: "phys_state \<Rightarrow> mmap_entry list \<Rightarrow> phys_state" where
  "amm_early_phys_scan s mmap = bump_init mmap (early_scan (clear_g_phys s) mmap)"

subsubsection \<open>Allocation\<close>

definition buddy_of :: "u64 \<Rightarrow> nat \<Rightarrow> u64" where
  "buddy_of paddr k = paddr XOR push_bit k PAGE_SIZE"

fun split_down :: "phys_state \<Rightarrow> u64 \<Rightarrow> nat \<Rightarrow> nat \<Rightarrow> phys_state option" where
  "split_down s paddr 0 order = Some s"
| "split_down s paddr (Suc k) order =
     (if Suc k > order then
        Option.bind (phys_free_block s (buddy_of paddr k) k) (\<lambda>s'. split_down s' paddr k order)
      else Some s)"

definition mark_alloc :: "phys_state \<Rightarrow> u64 \<Rightarrow> nat \<Rightarrow> phys_state option" where
  "mark_alloc s paddr order =
     (case page_infos s (pfn paddr) of
        None \<Rightarrow> None
      | Some pi \<Rightarrow>
          Some (s\<lparr>page_infos := (page_infos s)(pfn paddr \<mapsto>
            pi\<lparr>pi_flags := PAGE_ALLOC, pi_order := of_nat order, pi_refcount := 1\<rparr>)\<rparr>))"

function alloc_scan :: "phys_state \<Rightarrow> nat \<Rightarrow> nat \<Rightarrow> (u64 \<times> phys_state) option" where
  "alloc_scan s k order =
     (if k > MAX_ORDER then Some (0, s)
      else
        let b = free_lists s ! k in
        if b = 0 then alloc_scan s (Suc k) order
        else
          let paddr = virt_to_phys b;
              s = s\<lparr>free_lists := (free_lists s)[k := pmem s (kva_pa s b)],
                    free_pages := free_pages s - push_bit k 1\<rparr>
          in do {
               s \<leftarrow> split_down s paddr k order;
               s \<leftarrow> mark_alloc s paddr order;
               Some (paddr, s)
             })"
  by pat_completeness auto
termination by (relation "measure (\<lambda>(s, k, order). 19 - k)") auto

declare alloc_scan.simps [simp del]

definition amm_phys_alloc :: "phys_state \<Rightarrow> nat \<Rightarrow> (u64 \<times> phys_state) option" where
  "amm_phys_alloc s order =
     (if early_boot s then Some (bump_alloc s order)
      else if order > MAX_ORDER then Some (0, s)
      else alloc_scan s order order)"

subsubsection \<open>Release\<close>

text \<open>The pointer-to-pointer of the unlink loop: a list head or the link in a free block.\<close>

datatype link = Head | Next u64

fun link_get :: "phys_state \<Rightarrow> nat \<Rightarrow> link \<Rightarrow> u64" where
  "link_get s k Head = free_lists s ! k"
| "link_get s k (Next v) = pmem s (kva_pa s v)"

fun link_set :: "phys_state \<Rightarrow> nat \<Rightarrow> link \<Rightarrow> u64 \<Rightarrow> phys_state" where
  "link_set s k Head v = s\<lparr>free_lists := (free_lists s)[k := v]\<rparr>"
| "link_set s k (Next p) v = s\<lparr>pmem := (pmem s)(kva_pa s p := v)\<rparr>"

partial_function (option) seek_link :: "phys_state \<Rightarrow> nat \<Rightarrow> u64 \<Rightarrow> link \<Rightarrow> link option" where
  "seek_link s k fb pp =
     (if link_get s k pp \<noteq> 0 \<and> link_get s k pp \<noteq> fb
      then seek_link s k fb (Next (link_get s k pp)) else Some pp)"

declare seek_link.simps [code]

definition unlink_block :: "phys_state \<Rightarrow> nat \<Rightarrow> u64 \<Rightarrow> phys_state option" where
  "unlink_block s k buddy =
     (let fb = phys_to_virt s buddy in
      Option.bind (seek_link s k fb Head) (\<lambda>pp.
        Some (if link_get s k pp \<noteq> 0
              then (link_set s k pp (pmem s (kva_pa s fb)))
                     \<lparr>free_pages := free_pages s - push_bit k 1\<rparr>
              else s)))"

function free_merge :: "phys_state \<Rightarrow> u64 \<Rightarrow> nat \<Rightarrow> (phys_state \<times> u64 \<times> nat) option" where
  "free_merge s paddr order =
     (if order < MAX_ORDER then
        let buddy = buddy_of paddr order in
        (case page_infos s (pfn buddy) of
           None \<Rightarrow> None
         | Some bi \<Rightarrow>
             if pi_flags bi AND PAGE_FREE = 0 \<or> unat (pi_order bi) \<noteq> order
             then Some (s, paddr, order)
             else Option.bind (unlink_block s order buddy)
                    (\<lambda>s'. free_merge s' (if paddr < buddy then paddr else buddy) (Suc order)))
      else Some (s, paddr, order))"
  by pat_completeness auto
termination by (relation "measure (\<lambda>(s, p, k). 18 - k)") auto

declare free_merge.simps [simp del]

definition amm_phys_free :: "phys_state \<Rightarrow> u64 \<Rightarrow> nat \<Rightarrow> phys_state option" where
  "amm_phys_free s paddr order =
     (case free_merge s paddr order of
        None \<Rightarrow> None
      | Some (s', p, k) \<Rightarrow> phys_free_block s' p k)"

definition mm_get_meminfo :: "phys_state \<Rightarrow> u64 \<times> u64" where
  "mm_get_meminfo s = (total_pages s * PAGE_SIZE, free_pages s * PAGE_SIZE)"

end
