(* ===== verification/Buddy_Blocks.thy ===== *)
theory Buddy_Blocks
  imports Buddy
begin

text \<open>
  Block arithmetic of the buddy system: a block is a physical address with an order, its buddy
  is the address with one bit flipped, aligned extents are nested or disjoint, and a set of
  blocks is a tiling when they are aligned, below the top of memory and pairwise disjoint.
\<close>

unbundle bit_operations_syntax

subsection \<open>Block arithmetic\<close>

type_synonym block = "u64 \<times> nat"

definition bsize :: "nat \<Rightarrow> nat" where
  "bsize k = 4096 * 2 ^ k"

definition extent :: "block \<Rightarrow> nat set" where
  "extent b = {unat (fst b)..<unat (fst b) + bsize (snd b)}"

definition block_ok :: "nat \<Rightarrow> block \<Rightarrow> bool" where
  "block_ok T b \<longleftrightarrow> snd b \<le> MAX_ORDER \<and> bsize (snd b) dvd unat (fst b) \<and>
     unat (fst b) + bsize (snd b) \<le> T"

lemma bsize_pos [simp]: "0 < bsize k"
  by (simp add: bsize_def)

lemma bsize_nz [simp]: "bsize k \<noteq> 0"
  by (simp add: bsize_def)

lemma bsize_Suc: "bsize (Suc k) = 2 * bsize k"
  by (simp add: bsize_def)

lemma bsize_power: "bsize k = 2 ^ (k + 12)"
  by (simp add: bsize_def power_add)

lemma bsize_dvd: "j \<le> k \<Longrightarrow> bsize j dvd bsize k"
  by (simp add: bsize_power le_imp_power_dvd)

lemma page_dvd: "bsize k dvd n \<Longrightarrow> 4096 dvd n"
  using bsize_dvd[of 0 k] dvd_trans[of "bsize 0" "bsize k" n] by (simp add: bsize_def)

lemma bsize_less_2p64: "k \<le> MAX_ORDER \<Longrightarrow> bsize k < 2 ^ 64"
proof -
  assume "k \<le> MAX_ORDER"
  then have "bsize k dvd bsize 18" by (rule bsize_dvd)
  then have "bsize k \<le> bsize 18" by (rule dvd_imp_le) simp
  also have "bsize 18 < 2 ^ 64" by (simp add: bsize_def)
  finally show ?thesis .
qed

lemma unat_push_page: "k \<le> MAX_ORDER \<Longrightarrow> unat (push_bit k PAGE_SIZE) = bsize k"
proof -
  assume k: "k \<le> MAX_ORDER"
  have "push_bit k PAGE_SIZE = of_nat (bsize k)"
    by (simp add: push_bit_eq_mult bsize_def)
  then show ?thesis using bsize_less_2p64[OF k] by (simp add: unat_of_nat)
qed

lemma unat_push_one: "k \<le> MAX_ORDER \<Longrightarrow> unat (push_bit k 1 :: u64) = 2 ^ k"
proof -
  assume k: "k \<le> MAX_ORDER"
  have "(2::nat) ^ k \<le> 2 ^ 18" using k by (intro power_increasing) auto
  then have "(2::nat) ^ k < 2 ^ 64" by simp
  moreover have "(push_bit k 1 :: u64) = of_nat (2 ^ k)" by (simp add: push_bit_eq_mult)
  ultimately show ?thesis by (simp only: unat_of_nat) simp
qed

lemma nat_xor_pow2_even: "even (n div 2 ^ j) \<Longrightarrow> n XOR 2 ^ j = n + 2 ^ j" for n j :: nat
proof -
  assume e: "even (n div 2 ^ j)"
  have "n XOR 2 ^ j = flip_bit j n" by (simp add: flip_bit_eq_xor push_bit_eq_mult)
  then show ?thesis using e by (simp add: flip_bit_eq_if set_bit_eq bit_iff_odd)
qed

lemma nat_xor_pow2: "n XOR 2 ^ j = (if even (n div 2 ^ j) then n + 2 ^ j else n - 2 ^ j)"
  for n j :: nat
proof (cases "even (n div 2 ^ j)")
  case False
  let ?m = "n XOR 2 ^ j"
  have "bit n j" using False by (simp add: bit_iff_odd)
  then have "\<not> bit ?m j" by (simp add: bit_xor_iff bit_exp_iff)
  then have "?m XOR 2 ^ j = ?m + 2 ^ j"
    by (intro nat_xor_pow2_even) (simp add: bit_iff_odd)
  then have "n = ?m + 2 ^ j" by (simp add: xor.assoc)
  with False show ?thesis by simp
qed (simp add: nat_xor_pow2_even)

lemma unat_buddy_of:
  assumes "k \<le> MAX_ORDER"
  shows "unat (buddy_of p k) =
    (if even (unat p div bsize k) then unat p + bsize k else unat p - bsize k)"
  using nat_xor_pow2[of "unat p" "k + 12"] unat_push_page[OF assms]
  by (simp add: buddy_of_def unsigned_xor_eq bsize_power)

lemma buddy_of_low:
  assumes "k \<le> MAX_ORDER" and "bsize (Suc k) dvd unat p"
  shows "unat (buddy_of p k) = unat p + bsize k"
proof -
  from assms(2) obtain c where c: "unat p = bsize (Suc k) * c" by (rule dvdE)
  then have "unat p div bsize k = 2 * c" using bsize_pos[of k] by (simp add: bsize_Suc)
  then show ?thesis using assms(1) by (simp add: unat_buddy_of)
qed

lemma buddy_of_high:
  assumes k: "k \<le> MAX_ORDER" and a: "bsize k dvd unat p" and n: "\<not> bsize (Suc k) dvd unat p"
  shows "unat p = unat (buddy_of p k) + bsize k" and "bsize (Suc k) dvd unat (buddy_of p k)"
proof -
  from a obtain c where c: "unat p = bsize k * c" by (rule dvdE)
  have "odd c"
  proof
    assume "even c"
    then obtain d where "c = 2 * d" by (rule evenE)
    with c n show False by (simp add: bsize_Suc)
  qed
  then obtain d where d: "c = 2 * d + 1" by (rule oddE)
  have b: "unat (buddy_of p k) = unat p - bsize k"
    using k c \<open>odd c\<close> by (simp add: unat_buddy_of)
  also have "\<dots> = bsize (Suc k) * d" by (simp add: c d bsize_Suc)
  finally show "bsize (Suc k) dvd unat (buddy_of p k)" by simp
  show "unat p = unat (buddy_of p k) + bsize k" using b c d by simp
qed

lemma buddy_of_aligned:
  assumes k: "k \<le> MAX_ORDER" and a: "bsize k dvd unat p"
  shows "bsize k dvd unat (buddy_of p k)"
proof (cases "bsize (Suc k) dvd unat p")
  case True
  then show ?thesis using a by (simp add: buddy_of_low[OF k])
next
  case False
  have "bsize k dvd bsize (Suc k)" by (rule bsize_dvd) simp
  then show ?thesis using buddy_of_high(2)[OF k a False] by (rule dvd_trans)
qed

lemma buddy_of_neq:
  assumes k: "k \<le> MAX_ORDER" and a: "bsize k dvd unat p"
  shows "buddy_of p k \<noteq> p"
  using buddy_of_low[OF k, of p] buddy_of_high(1)[OF k a] bsize_nz[of k]
  by (cases "bsize (Suc k) dvd unat p") auto

lemma lower_buddy_aligned:
  assumes k: "k \<le> MAX_ORDER" and a: "bsize k dvd unat p"
  shows "bsize (Suc k) dvd unat (if p < buddy_of p k then p else buddy_of p k)"
proof (cases "bsize (Suc k) dvd unat p")
  case True
  then have "p < buddy_of p k" by (simp add: word_less_nat_alt buddy_of_low[OF k])
  with True show ?thesis by simp
next
  case False
  then have "\<not> p < buddy_of p k"
    using buddy_of_high(1)[OF k a False] by (simp add: word_less_nat_alt)
  then show ?thesis using buddy_of_high(2)[OF k a False] by simp
qed

lemma buddy_of_idem: "buddy_of (buddy_of p k) k = p"
  by (simp add: buddy_of_def xor.assoc)

text \<open>Splitting an aligned block gives its two halves, and nothing else.\<close>

lemma extent_halves:
  assumes "k \<le> MAX_ORDER" and "bsize (Suc k) dvd unat p"
  shows "extent (p, Suc k) = extent (p, k) \<union> extent (buddy_of p k, k)"
    and "extent (p, k) \<inter> extent (buddy_of p k, k) = {}"
  using buddy_of_low[OF assms] by (auto simp: extent_def bsize_Suc)

lemma block_ok_halves:
  assumes "block_ok T (p, Suc k)"
  shows "block_ok T (p, k)" and "block_ok T (buddy_of p k, k)" and "bsize (Suc k) dvd unat p"
    and "k \<le> MAX_ORDER"
proof -
  from assms have k: "k \<le> MAX_ORDER" and d: "bsize (Suc k) dvd unat p"
    and t: "unat p + bsize (Suc k) \<le> T"
    by (auto simp: block_ok_def)
  have d': "bsize k dvd unat p"
    using d bsize_dvd[of k "Suc k"] by (meson dvd_trans le_SucI order_refl)
  show "block_ok T (p, k)" using k d' t by (simp add: block_ok_def bsize_Suc)
  show "block_ok T (buddy_of p k, k)"
    using k d' t buddy_of_low[OF k d] by (simp add: block_ok_def bsize_Suc)
  show "bsize (Suc k) dvd unat p" "k \<le> MAX_ORDER" by (fact d, fact k)
qed

text \<open>Aligned extents are nested or disjoint.\<close>

lemma aligned_start_in_extent:
  assumes "bsize j dvd unat q" and "bsize k dvd n" and "j \<le> k" and "n \<in> extent (q, j)"
  shows "n = unat q"
proof -
  have "bsize j dvd n" using assms(2) bsize_dvd[OF assms(3)] by (rule dvd_trans[rotated])
  with assms(1) obtain a b where a: "unat q = bsize j * a" and b: "n = bsize j * b"
    by (auto elim!: dvdE)
  from assms(4) have "bsize j * a \<le> bsize j * b" "bsize j * b < bsize j * (a + 1)"
    by (auto simp: extent_def a b)
  then have "b = a" using bsize_pos[of j] by (simp only: mult_le_cancel1 mult_less_cancel1) auto
  with a b show ?thesis by simp
qed

lemma aligned_sub_extent:
  assumes "bsize j dvd unat q" and "bsize k dvd n" and "k \<le> j" and "n \<in> extent (q, j)"
  shows "{n..<n + bsize k} \<subseteq> extent (q, j)"
proof -
  have "bsize k dvd unat q" using assms(1) bsize_dvd[OF assms(3)] by (rule dvd_trans[rotated])
  with assms(2) obtain a b where a: "unat q = bsize k * a" and b: "n = bsize k * b"
    by (auto elim!: dvdE)
  obtain c where c: "bsize j = bsize k * c" using bsize_dvd[OF assms(3)] by (rule dvdE)
  from assms(4) have "bsize k * b < bsize k * (a + c)"
    by (auto simp: extent_def a b c algebra_simps)
  then have "b + 1 \<le> a + c" by (simp only: mult_less_cancel1) auto
  then have "bsize k * (b + 1) \<le> bsize k * (a + c)" by (simp only: mult_le_mono2)
  then have "n + bsize k \<le> unat q + bsize j" by (simp add: a b c algebra_simps)
  with assms(4) show ?thesis by (auto simp: extent_def)
qed

subsection \<open>Tilings\<close>

definition tiled :: "nat \<Rightarrow> block set \<Rightarrow> bool" where
  "tiled T U \<longleftrightarrow> (\<forall>x\<in>U. block_ok T x) \<and> pairwise (\<lambda>x y. disjnt (extent x) (extent y)) U"

definition cover :: "block set \<Rightarrow> nat set" where
  "cover U = (\<Union>x\<in>U. extent x)"

lemma start_in_extent [simp]: "unat p \<in> extent (p, k)"
  by (simp add: extent_def)

lemma tiled_ok: "tiled T U \<Longrightarrow> x \<in> U \<Longrightarrow> block_ok T x"
  by (auto simp: tiled_def)

lemma tiled_disjoint: "tiled T U \<Longrightarrow> x \<in> U \<Longrightarrow> y \<in> U \<Longrightarrow> n \<in> extent x \<Longrightarrow> n \<in> extent y \<Longrightarrow> x = y"
  by (auto simp: tiled_def pairwise_def disjnt_iff)

lemma tiled_same_start:
  "tiled T U \<Longrightarrow> (p, j) \<in> U \<Longrightarrow> (p, k) \<in> U \<Longrightarrow> j = k"
  using tiled_disjoint[of T U "(p, j)" "(p, k)" "unat p"] by simp

lemma tiled_subset: "tiled T U \<Longrightarrow> V \<subseteq> U \<Longrightarrow> tiled T V"
  unfolding tiled_def by (meson pairwise_subset subsetD)

lemma disjoint_cover: "E \<inter> cover U = {} \<longleftrightarrow> (\<forall>y\<in>U. disjnt E (extent y))"
  by (auto simp: cover_def disjnt_def)

lemma tiled_insert_iff:
  "x \<notin> U \<Longrightarrow> tiled T (insert x U) \<longleftrightarrow> tiled T U \<and> block_ok T x \<and> extent x \<inter> cover U = {}"
  unfolding tiled_def disjoint_cover pairwise_insert using disjnt_sym by auto

lemma tiled_insert:
  "tiled T U \<Longrightarrow> block_ok T x \<Longrightarrow> extent x \<inter> cover U = {} \<Longrightarrow> tiled T (insert x U)"
  by (cases "x \<in> U") (simp_all add: insert_absorb tiled_insert_iff)

lemma cover_insert: "cover (insert x U) = extent x \<union> cover U"
  by (simp add: cover_def)

lemma tiled_insertD: "tiled T (insert x U) \<Longrightarrow> x \<notin> U \<Longrightarrow> extent x \<inter> cover U = {}"
  by (simp add: tiled_insert_iff)

lemma cover_remove: "tiled T U \<Longrightarrow> x \<in> U \<Longrightarrow> cover (U - {x}) = cover U - extent x"
  using tiled_insertD[of T x "U - {x}"] by (auto simp: insert_absorb cover_def)

lemma tiled_split:
  assumes t: "tiled T (insert (p, Suc k) U)" and n: "(p, Suc k) \<notin> U"
  shows "tiled T (insert (p, k) (insert (buddy_of p k, k) U))"
    and "cover (insert (p, k) (insert (buddy_of p k, k) U)) = cover (insert (p, Suc k) U)"
proof -
  have ok: "block_ok T (p, Suc k)" using t by (rule tiled_ok) simp
  note h = block_ok_halves[OF ok]
  note e = extent_halves[OF h(4) h(3)]
  have U: "tiled T U" using t by (rule tiled_subset) blast
  have "extent (p, Suc k) \<inter> cover U = {}" using t n by (rule tiled_insertD)
  then have d: "extent (buddy_of p k, k) \<inter> cover U = {}" "extent (p, k) \<inter> cover U = {}"
    using e(1) by auto
  have "tiled T (insert (buddy_of p k, k) U)" using U h(2) d(1) by (rule tiled_insert)
  then show "tiled T (insert (p, k) (insert (buddy_of p k, k) U))"
    by (rule tiled_insert) (use h(1) d(2) e(2) in \<open>auto simp: cover_insert\<close>)
  show "cover (insert (p, k) (insert (buddy_of p k, k) U)) = cover (insert (p, Suc k) U)"
    by (simp only: cover_insert e(1) Un_assoc)
qed

lemma tiled_merge:
  assumes t: "tiled T (insert (p, k) (insert (buddy_of p k, k) U))"
    and n: "(p, k) \<notin> U" "(buddy_of p k, k) \<notin> U"
    and k: "Suc k \<le> MAX_ORDER" and a: "bsize (Suc k) dvd unat p"
  shows "tiled T (insert (p, Suc k) U)"
    and "cover (insert (p, Suc k) U) = cover (insert (p, k) (insert (buddy_of p k, k) U))"
proof -
  have k': "k \<le> MAX_ORDER" using k by simp
  note e = extent_halves[OF k' a]
  have U: "tiled T U" using t by (rule tiled_subset) blast
  have ne: "(p, k) \<noteq> (buddy_of p k, k)" using buddy_of_low[OF k' a] bsize_nz[of k] by auto
  then have "extent (p, k) \<inter> cover (insert (buddy_of p k, k) U) = {}"
    using t n by (intro tiled_insertD) auto
  moreover have "extent (buddy_of p k, k) \<inter> cover U = {}"
    using tiled_subset[OF t, of "insert (buddy_of p k, k) U"] n(2)
    by (intro tiled_insertD) auto
  ultimately have d: "extent (p, Suc k) \<inter> cover U = {}" by (auto simp: e(1) cover_insert)
  have "block_ok T (buddy_of p k, k)" using t by (rule tiled_ok) simp
  then have "block_ok T (p, Suc k)"
    using k a buddy_of_low[OF k' a] by (simp add: block_ok_def bsize_Suc)
  with U d show "tiled T (insert (p, Suc k) U)" by (intro tiled_insert)
  show "cover (insert (p, Suc k) U) = cover (insert (p, k) (insert (buddy_of p k, k) U))"
    by (simp only: cover_insert e(1) Un_assoc)
qed

text \<open>An aligned block larger than \<open>k\<close> that holds the buddy holds the block itself.\<close>

lemma extent_holds_both_buddies:
  assumes k: "k \<le> MAX_ORDER" and a: "bsize k dvd unat p" and j: "Suc k \<le> j"
    and q: "bsize j dvd unat q" and b: "unat (buddy_of p k) \<in> extent (q, j)"
  shows "unat p \<in> extent (q, j)"
proof (cases "bsize (Suc k) dvd unat p")
  case False
  note h = buddy_of_high[OF k a False]
  have "{unat (buddy_of p k)..<unat (buddy_of p k) + bsize (Suc k)} \<subseteq> extent (q, j)"
    using q h(2) j b by (rule aligned_sub_extent)
  then show ?thesis using h(1) bsize_pos[of k] by (auto simp: bsize_Suc subset_iff)
next
  case True
  note l = buddy_of_low[OF k True]
  obtain c where c: "unat p = bsize (Suc k) * c" using True by (rule dvdE)
  obtain d where d: "unat q = bsize (Suc k) * d"
    using q bsize_dvd[OF j] by (meson dvdE dvd_trans)
  have "unat q \<le> unat p + bsize k" using b l by (simp add: extent_def)
  also have "\<dots> < unat p + bsize (Suc k)" using bsize_pos[of k] unfolding bsize_Suc by linarith
  finally have "bsize (Suc k) * d < bsize (Suc k) * (c + 1)" by (simp add: c d)
  then have "d < c + 1" by (simp only: mult_less_cancel1)
  then have "bsize (Suc k) * d \<le> bsize (Suc k) * c" by (intro mult_le_mono2) simp
  then show ?thesis using b l by (simp add: extent_def c d)
qed

end
