(* ===== verification/Buddy_Inv.thy ===== *)
theory Buddy_Inv
  imports Buddy_Blocks
begin

text \<open>
  The invariant of the buddy system and its preservation by every operation. The free blocks
  are those on the intrusive lists, the allocated ones are tracked by a ghost set \<open>A\<close>, and a
  third set \<open>P\<close> holds the blocks an operation has in hand. Together they form a tiling. The
  page-info entry at the start of a free or allocated block is accurate; entries inside a
  block may be stale, and entries outside every block are never marked free.
\<close>

unbundle bit_operations_syntax

subsection \<open>Intrusive lists\<close>

fun chain :: "(u64 \<Rightarrow> u64) \<Rightarrow> u64 \<Rightarrow> u64 list \<Rightarrow> bool" where
  "chain m h [] \<longleftrightarrow> h = 0"
| "chain m h (p # ps) \<longleftrightarrow> h = PHYS_MAP_BASE + p \<and> h \<noteq> 0 \<and> chain m (m p) ps"

lemma chain_cong: "\<forall>p\<in>set ps. m p = m' p \<Longrightarrow> chain m h ps = chain m' h ps"
  by (induction ps arbitrary: h) auto

lemma chain_upd: "q \<notin> set ps \<Longrightarrow> chain (m(q := v)) h ps = chain m h ps"
  by (intro chain_cong) auto

lemma chain_null: "chain m 0 ps \<longleftrightarrow> ps = []"
  by (cases ps) auto

lemma chain_ConsD: "chain m h ps \<Longrightarrow> h \<noteq> 0 \<Longrightarrow>
    ps = (h - PHYS_MAP_BASE) # tl ps \<and> chain m (m (h - PHYS_MAP_BASE)) (tl ps)"
  by (cases ps) auto

fun link_outside :: "link \<Rightarrow> u64 list \<Rightarrow> bool" where
  "link_outside Head ps = True"
| "link_outside (Next v) ps = (v - PHYS_MAP_BASE \<notin> set ps)"

text \<open>
  The pointer-to-pointer walk terminates on a list that holds the block, and storing the
  block's successor through the link it returns takes the block off the list.
\<close>

lemma seek_link_unlinks:
  assumes "\<not> early_boot s" and "k < length (free_lists s)"
    and "chain (pmem s) (link_get s k pp) ps" and "distinct ps" and "b \<in> set ps"
    and "link_outside pp ps"
  shows "\<exists>pp'. seek_link s k (PHYS_MAP_BASE + b) pp = Some pp' \<and>
           link_get s k pp' = PHYS_MAP_BASE + b \<and> PHYS_MAP_BASE + b \<noteq> 0 \<and>
           (pp' = pp \<or> (\<exists>q\<in>set ps. pp' = Next (PHYS_MAP_BASE + q))) \<and>
           chain (pmem (link_set s k pp' (pmem s b))) (link_get (link_set s k pp' (pmem s b)) k pp)
             (remove1 b ps)"
  using assms(3-)
proof (induction ps arbitrary: pp)
  case Nil
  then show ?case by simp
next
  case (Cons p ps)
  from Cons.prems(1) have h: "link_get s k pp = PHYS_MAP_BASE + p" "PHYS_MAP_BASE + p \<noteq> 0"
    and c: "chain (pmem s) (pmem s p) ps" by auto
  show ?case
  proof (cases "p = b")
    case True
    have "chain (pmem (link_set s k pp (pmem s b))) (pmem s b) ps"
      using c True Cons.prems(2,4) assms(1) by (cases pp) (auto simp: kva_pa_def chain_upd)
    moreover have "link_get (link_set s k pp (pmem s b)) k pp = pmem s b"
      using assms(2) by (cases pp) (auto simp: kva_pa_def)
    ultimately show ?thesis
      using True h by (intro exI[of _ pp]) (simp add: seek_link.simps)
  next
    case False
    let ?n = "Next (PHYS_MAP_BASE + p)"
    have g: "link_get s k ?n = pmem s p" using assms(1) by (simp add: kva_pa_def)
    obtain pp' where pp': "seek_link s k (PHYS_MAP_BASE + b) ?n = Some pp'"
      "link_get s k pp' = PHYS_MAP_BASE + b" "PHYS_MAP_BASE + b \<noteq> 0"
      "pp' = ?n \<or> (\<exists>q\<in>set ps. pp' = Next (PHYS_MAP_BASE + q))"
      "chain (pmem (link_set s k pp' (pmem s b)))
         (link_get (link_set s k pp' (pmem s b)) k ?n) (remove1 b ps)"
      using Cons.IH[of ?n] c g Cons.prems(2,3) False by auto
    obtain q where q: "q \<in> set (p # ps)" "pp' = Next (PHYS_MAP_BASE + q)"
      using pp'(4) by auto
    define s' where "s' = link_set s k pp' (pmem s b)"
    have "link_get s' k ?n = pmem s' p"
      using assms(1) q by (simp add: kva_pa_def s'_def)
    moreover have "link_get s' k pp = PHYS_MAP_BASE + p"
      using h(1) q Cons.prems(4) assms(1) by (cases pp) (auto simp: kva_pa_def s'_def)
    ultimately have "chain (pmem s') (link_get s' k pp) (remove1 b (p # ps))"
      using pp'(5) h(2) False by (simp add: s'_def[symmetric])
    moreover have "seek_link s k (PHYS_MAP_BASE + b) pp = Some pp'"
      using pp'(1) h False by (simp add: seek_link.simps[of s k _ pp])
    ultimately show ?thesis
      using pp'(2,3) q unfolding s'_def by blast
  qed
qed

subsection \<open>The invariant\<close>

definition mem_limit :: nat where
  "mem_limit = 0x380000000000"

definition fblocks :: "(nat \<Rightarrow> u64 list) \<Rightarrow> block set" where
  "fblocks L = {(p, k). k \<le> MAX_ORDER \<and> p \<in> set (L k)}"

definition info_is :: "phys_state \<Rightarrow> block \<Rightarrow> u16 \<Rightarrow> bool" where
  "info_is s b fl \<longleftrightarrow> (\<exists>pi. page_infos s (pfn (fst b)) = Some pi \<and> pi_flags pi = fl \<and>
     unat (pi_order pi) = snd b)"

definition free_count :: "(nat \<Rightarrow> u64 list) \<Rightarrow> nat" where
  "free_count L = (\<Sum>k\<le>MAX_ORDER. length (L k) * 2 ^ k)"

definition lists_ok :: "phys_state \<Rightarrow> (nat \<Rightarrow> u64 list) \<Rightarrow> bool" where
  "lists_ok s L \<longleftrightarrow> \<not> early_boot s \<and> length (free_lists s) = MAX_ORDER + 1 \<and>
     (\<forall>k\<le>MAX_ORDER. chain (pmem s) (free_lists s ! k) (L k) \<and> distinct (L k)) \<and>
     free_pages s = of_nat (free_count L)"

definition infos_ok :: "nat \<Rightarrow> phys_state \<Rightarrow> block set \<Rightarrow> block set \<Rightarrow> block set \<Rightarrow> bool" where
  "infos_ok T s F A U \<longleftrightarrow>
     (\<forall>f. unat f \<le> T div 4096 \<longrightarrow> page_infos s f \<noteq> None) \<and>
     (\<forall>b\<in>F. info_is s b PAGE_FREE) \<and> (\<forall>b\<in>A. info_is s b PAGE_ALLOC) \<and>
     (\<forall>p pi. 4096 dvd unat p \<longrightarrow> unat p \<notin> cover U \<longrightarrow> page_infos s (pfn p) = Some pi \<longrightarrow>
        pi_flags pi AND PAGE_FREE = 0)"

definition buddy_inv ::
  "nat \<Rightarrow> nat set \<Rightarrow> phys_state \<Rightarrow> (nat \<Rightarrow> u64 list) \<Rightarrow> block set \<Rightarrow> block set \<Rightarrow> bool" where
  "buddy_inv T M s L A P \<longleftrightarrow> T \<le> mem_limit \<and> lists_ok s L \<and> tiled T (fblocks L \<union> A \<union> P) \<and>
     cover (fblocks L \<union> A \<union> P) = M \<and>
     fblocks L \<inter> A = {} \<and> fblocks L \<inter> P = {} \<and> A \<inter> P = {} \<and>
     infos_ok T s (fblocks L) A (fblocks L \<union> A \<union> P)"


text \<open>Block starts are page aligned, and distinct pages have distinct page-info entries.\<close>

lemma block_ok_page: "block_ok T (p, k) \<Longrightarrow> 4096 dvd unat p"
  by (auto simp: block_ok_def intro: page_dvd)

lemma unat_pfn: "unat (pfn p) = unat p div 4096"
  by (simp add: pfn_def drop_bit_eq_div unat_div)

lemma pfn_inj: "pfn p = pfn q \<Longrightarrow> 4096 dvd unat p \<Longrightarrow> 4096 dvd unat q \<Longrightarrow> p = q"
  by (metis unat_pfn dvd_div_mult_self word_unat_eq_iff)

lemma infos_mapped:
  assumes "infos_ok T s F A U" and "unat f \<le> T div 4096"
  shows "\<exists>pi. page_infos s f = Some pi"
proof -
  have "page_infos s f \<noteq> None" using assms unfolding infos_ok_def by simp
  then show ?thesis by simp
qed

lemma pfn_mapped: "block_ok T (p, k) \<Longrightarrow> infos_ok T s F A U \<Longrightarrow> \<exists>pi. page_infos s (pfn p) = Some pi"
  by (rule infos_mapped) (auto simp: block_ok_def unat_pfn div_le_mono)

lemma kva_nonzero: "T \<le> mem_limit \<Longrightarrow> block_ok T (p, k) \<Longrightarrow> PHYS_MAP_BASE + p \<noteq> 0"
proof -
  assume "T \<le> mem_limit" and "block_ok T (p, k)"
  then have "unat p < 0x380000000000"
    using bsize_pos[of k] by (simp only: block_ok_def mem_limit_def fst_conv snd_conv) linarith
  moreover have "unat PHYS_MAP_BASE = 0xFFFFC80000000000" by (simp add: PHYS_MAP_BASE_def)
  ultimately have "unat (PHYS_MAP_BASE + p) = unat PHYS_MAP_BASE + unat p"
    by (subst unat_add_lem[THEN iffD1]) auto
  then show ?thesis by (auto simp: PHYS_MAP_BASE_def)
qed

lemma fblocks_push: "k \<le> MAX_ORDER \<Longrightarrow> fblocks (L(k := p # L k)) = insert (p, k) (fblocks L)"
  by (auto simp: fblocks_def)

lemma fblocks_remove:
  "distinct (L k) \<Longrightarrow> fblocks (L(k := remove1 p (L k))) = fblocks L - {(p, k)}"
  by (auto simp: fblocks_def)

lemma free_count_push:
  "k \<le> MAX_ORDER \<Longrightarrow> free_count (L(k := p # L k)) = free_count L + 2 ^ k"
proof -
  assume k: "k \<le> MAX_ORDER"
  have "(\<Sum>j\<in>{..MAX_ORDER} - {k}. length ((L(k := p # L k)) j) * 2 ^ j) =
        (\<Sum>j\<in>{..MAX_ORDER} - {k}. length (L j) * 2 ^ j)"
    by (rule sum.cong) auto
  then show ?thesis
    using k by (simp add: free_count_def sum.remove[of "{..MAX_ORDER}" k])
qed

lemma free_count_remove:
  assumes k: "k \<le> MAX_ORDER" and p: "p \<in> set (L k)"
  shows "free_count L = free_count (L(k := remove1 p (L k))) + 2 ^ k"
proof -
  let ?L = "L(k := remove1 p (L k))"
  have "free_count (?L(k := p # ?L k)) = free_count L"
  proof -
    have "length (p # remove1 p (L k)) = length (L k)"
      using p by (simp add: length_remove1) (metis Suc_pred length_pos_if_in_set)
    then have "length ((?L(k := p # ?L k)) j) = length (L j)" for j by simp
    then show ?thesis by (simp only: free_count_def)
  qed
  then show ?thesis using free_count_push[OF k, of ?L p] by simp
qed

subsection \<open>Preservation by the primitive steps\<close>

text \<open>The blocks in hand can be split into buddies or joined without touching the state.\<close>

lemma inv_repartition:
  assumes "buddy_inv T M s L A P" and "tiled T (fblocks L \<union> A \<union> P')"
    and "cover (fblocks L \<union> A \<union> P') = cover (fblocks L \<union> A \<union> P)"
    and "fblocks L \<inter> P' = {}" and "A \<inter> P' = {}"
  shows "buddy_inv T M s L A P'"
  using assms by (auto simp: buddy_inv_def infos_ok_def)

lemma inv_overlap:
  assumes "buddy_inv T M s L A P" and "x \<in> P" and "n \<in> extent x"
    and "y \<in> fblocks L \<union> A \<union> P" and "n \<in> extent y"
  shows "y = x"
  using assms tiled_disjoint[of T "fblocks L \<union> A \<union> P" y x n] by (auto simp: buddy_inv_def)

lemma inv_split:
  assumes inv: "buddy_inv T M s L A (insert (p, Suc k) P)" and n: "(p, Suc k) \<notin> P"
  shows "buddy_inv T M s L A (insert (p, k) (insert (buddy_of p k, k) P))"
    and "(p, k) \<notin> P" and "(buddy_of p k, k) \<notin> P"
proof -
  let ?U = "fblocks L \<union> A \<union> P" and ?b = "buddy_of p k"
  have dP: "fblocks L \<inter> P = {}" "A \<inter> P = {}" using inv by (auto simp: buddy_inv_def)
  have t: "tiled T (insert (p, Suc k) ?U)" using inv by (simp add: buddy_inv_def)
  have nU: "(p, Suc k) \<notin> ?U" using inv n by (auto simp: buddy_inv_def)
  have "block_ok T (p, Suc k)" using t by (rule tiled_ok) simp
  from block_ok_halves(3,4)[OF this] have "unat ?b \<in> extent (p, Suc k)"
    by (simp add: extent_def buddy_of_low bsize_Suc)
  then have new: "(p, k) \<notin> ?U" "(?b, k) \<notin> ?U"
    using inv_overlap[OF inv, of "(p, Suc k)" "unat p" "(p, k)"]
      inv_overlap[OF inv, of "(p, Suc k)" "unat ?b" "(?b, k)"]
    by auto
  then show "(p, k) \<notin> P" "(?b, k) \<notin> P" by auto
  show "buddy_inv T M s L A (insert (p, k) (insert (?b, k) P))"
    using inv tiled_split[OF t nU] new dP by (elim inv_repartition) auto
qed

lemma inv_merge:
  assumes inv: "buddy_inv T M s L A (insert (p, k) (insert (buddy_of p k, k) P))"
    and n: "(p, k) \<notin> P" "(buddy_of p k, k) \<notin> P"
    and k: "Suc k \<le> MAX_ORDER" and a: "bsize (Suc k) dvd unat p"
  shows "buddy_inv T M s L A (insert (p, Suc k) P)" and "(p, Suc k) \<notin> P"
proof -
  let ?U = "fblocks L \<union> A \<union> P" and ?b = "buddy_of p k"
  have dP: "fblocks L \<inter> P = {}" "A \<inter> P = {}" using inv by (auto simp: buddy_inv_def)
  have t: "tiled T (insert (p, k) (insert (?b, k) ?U))" using inv by (simp add: buddy_inv_def)
  have nU: "(p, k) \<notin> ?U" "(?b, k) \<notin> ?U" using inv n by (auto simp: buddy_inv_def)
  have new: "(p, Suc k) \<notin> ?U"
    using inv_overlap[OF inv, of "(p, k)" "unat p" "(p, Suc k)"] by auto
  then show "(p, Suc k) \<notin> P" by simp
  show "buddy_inv T M s L A (insert (p, Suc k) P)"
    using inv tiled_merge[OF t nU k a] new dP by (elim inv_repartition) auto
qed

text \<open>A block of uncovered memory can be taken in hand.\<close>

lemma inv_adopt:
  assumes inv: "buddy_inv T M s L A P" and ok: "block_ok T x"
    and d: "extent x \<inter> cover (fblocks L \<union> A \<union> P) = {}"
  shows "buddy_inv T (M \<union> extent x) s L A (insert x P)"
proof -
  have "unat (fst x) \<in> extent x" using start_in_extent[of "fst x" "snd x"] by simp
  then have "x \<notin> fblocks L \<union> A \<union> P" using d by (auto simp: cover_def)
  moreover have "tiled T (insert x (fblocks L \<union> A \<union> P))"
    using inv ok d by (intro tiled_insert) (auto simp: buddy_inv_def)
  ultimately show ?thesis
    using inv by (auto simp: buddy_inv_def infos_ok_def cover_insert)
qed

text \<open>Putting a block in hand on its free list.\<close>

lemma lists_ok_push:
  assumes l: "lists_ok s L" and k: "k \<le> MAX_ORDER" and new: "\<forall>j\<le>MAX_ORDER. p \<notin> set (L j)"
    and nz: "PHYS_MAP_BASE + p \<noteq> 0" and pi: "page_infos s (pfn p) = Some pi"
  shows "\<exists>s'. phys_free_block s p k = Some s' \<and> lists_ok s' (L(k := p # L k)) \<and>
    page_infos s' = (page_infos s)(pfn p \<mapsto> pi\<lparr>pi_flags := PAGE_FREE, pi_order := of_nat k\<rparr>)"
proof -
  define s' where "s' = s\<lparr>pmem := (pmem s)(p := free_lists s ! k),
      free_lists := (free_lists s)[k := PHYS_MAP_BASE + p],
      page_infos := (page_infos s)(pfn p \<mapsto> pi\<lparr>pi_flags := PAGE_FREE, pi_order := of_nat k\<rparr>),
      free_pages := free_pages s + push_bit k 1\<rparr>"
  have e: "\<not> early_boot s" and n: "length (free_lists s) = MAX_ORDER + 1"
    using l by (auto simp: lists_ok_def)
  have "phys_free_block s p k = Some s'"
    using k pi e n by (simp add: phys_free_block_def phys_to_virt_def kva_pa_def s'_def)
  moreover have "chain (pmem s') (free_lists s' ! j) ((L(k := p # L k)) j) \<and>
      distinct ((L(k := p # L k)) j)" if "j \<le> MAX_ORDER" for j
    using l that k new nz n by (simp add: lists_ok_def s'_def chain_upd)
  moreover have "free_pages s' = of_nat (free_count (L(k := p # L k)))"
    using l by (simp only: free_count_push[OF k])
      (simp add: lists_ok_def s'_def push_bit_eq_mult)
  ultimately show ?thesis
    using e n by (intro exI[of _ s']) (auto simp: lists_ok_def s'_def)
qed

lemma of_nat_order: "k \<le> MAX_ORDER \<Longrightarrow> unat (of_nat k :: u8) = k"
  by (simp add: unat_of_nat)

lemma info_is_upd:
  assumes "4096 dvd unat p" and "4096 dvd unat (fst b)"
  shows "page_infos s' = (page_infos s)(pfn p \<mapsto> pi) \<Longrightarrow> fst b \<noteq> p \<Longrightarrow>
    info_is s' b fl = info_is s b fl"
  using assms pfn_inj[of "fst b" p] by (auto simp: info_is_def)

text \<open>
  Rewriting the entry at the start of a block keeps the page-info part of the invariant for
  the other blocks.
\<close>

lemma infos_ok_upd:
  assumes i: "infos_ok T s F A U" and t: "tiled T U" and x: "(p, k) \<in> U"
    and sub: "F \<subseteq> U" "A \<subseteq> U"
    and s': "page_infos s' = (page_infos s)(pfn p \<mapsto> pi)"
    and F': "\<forall>b\<in>F' - F. info_is s' b PAGE_FREE" and A': "\<forall>b\<in>A' - A. info_is s' b PAGE_ALLOC"
    and out: "(p, k) \<notin> F' \<inter> F" "(p, k) \<notin> A' \<inter> A"
  shows "infos_ok T s' F' A' U"
proof -
  have al: "4096 dvd unat p" using tiled_ok[OF t x] by (rule block_ok_page)
  have keep: "info_is s' b fl" if "b \<in> U" "b \<noteq> (p, k)" "info_is s b fl" for b fl
  proof -
    have "fst b \<noteq> p" using that(1,2) x tiled_same_start[OF t, of p "snd b" k] by auto
    moreover have "4096 dvd unat (fst b)"
      using tiled_ok[OF t that(1)] block_ok_page[of T "fst b" "snd b"] by simp
    ultimately show ?thesis using info_is_upd[OF al _ s', of b fl] that(3) by simp
  qed
  have 1: "\<forall>b\<in>F'. info_is s' b PAGE_FREE"
  proof
    fix b assume b: "b \<in> F'"
    show "info_is s' b PAGE_FREE"
    proof (cases "b \<in> F")
      case True
      then show ?thesis using b out(1) sub(1) i by (intro keep) (auto simp: infos_ok_def)
    qed (use b F' in blast)
  qed
  have 2: "\<forall>b\<in>A'. info_is s' b PAGE_ALLOC"
  proof
    fix b assume b: "b \<in> A'"
    show "info_is s' b PAGE_ALLOC"
    proof (cases "b \<in> A")
      case True
      then show ?thesis using b out(2) sub(2) i by (intro keep) (auto simp: infos_ok_def)
    qed (use b A' in blast)
  qed
  have 3: "pi' AND PAGE_FREE = 0"
    if "4096 dvd unat q" "unat q \<notin> cover U" "map_option pi_flags (page_infos s' (pfn q)) = Some pi'"
    for q pi'
  proof -
    have "unat p \<in> cover U" using x start_in_extent[of p k] unfolding cover_def by blast
    then have "pfn q \<noteq> pfn p" using that(1,2) al pfn_inj[of q p] by auto
    then show ?thesis using that i by (auto simp: s' infos_ok_def)
  qed
  show ?thesis unfolding infos_ok_def
    using 1 2 3 i by (auto simp: s' infos_ok_def)
qed

lemma inv_free_block:
  assumes inv: "buddy_inv T M s L A (insert (p, k) P)" and n: "(p, k) \<notin> P"
  shows "\<exists>s'. phys_free_block s p k = Some s' \<and> buddy_inv T M s' (L(k := p # L k)) A P"
proof -
  let ?U = "fblocks L \<union> A \<union> insert (p, k) P" and ?L = "L(k := p # L k)"
  have t: "tiled T ?U" and l: "lists_ok s L" and T: "T \<le> mem_limit"
    and i: "infos_ok T s (fblocks L) A ?U"
    using inv by (auto simp: buddy_inv_def)
  have ok: "block_ok T (p, k)" using t by (rule tiled_ok) simp
  then have k: "k \<le> MAX_ORDER" by (simp add: block_ok_def)
  have new: "\<forall>j\<le>MAX_ORDER. p \<notin> set (L j)"
  proof safe
    fix j assume "j \<le> MAX_ORDER" "p \<in> set (L j)"
    then have m: "(p, j) \<in> fblocks L" by (simp add: fblocks_def)
    then have "(p, j) = (p, k)"
      by (intro inv_overlap[OF inv, of _ "unat p"]) (auto intro: start_in_extent)
    with m inv show False by (auto simp: buddy_inv_def)
  qed
  obtain pi where pi: "page_infos s (pfn p) = Some pi" using pfn_mapped[OF ok i] by blast
  obtain s' where s': "phys_free_block s p k = Some s'" "lists_ok s' ?L"
    "page_infos s' = (page_infos s)(pfn p \<mapsto> pi\<lparr>pi_flags := PAGE_FREE, pi_order := of_nat k\<rparr>)"
    using lists_ok_push[OF l k new kva_nonzero[OF T ok] pi] by blast
  have F: "fblocks ?L = insert (p, k) (fblocks L)" by (rule fblocks_push[OF k])
  have U: "?U = fblocks ?L \<union> A \<union> P" by (auto simp: F)
  have "info_is s' (p, k) PAGE_FREE"
    using s'(3) of_nat_order[OF k] by (simp add: info_is_def)
  then have "infos_ok T s' (fblocks ?L) A ?U"
    using inv by (intro infos_ok_upd[OF i t _ _ _ s'(3)]) (auto simp: F buddy_inv_def)
  then have "buddy_inv T M s' ?L A P"
    using inv n T s'(2) t unfolding buddy_inv_def U by (auto simp: F)
  with s'(1) show ?thesis by blast
qed

text \<open>Taking a block off its list, at the head or in the middle.\<close>

lemma inv_take:
  assumes inv: "buddy_inv T M s L A P" and b: "(b, k) \<in> fblocks L"
    and l: "lists_ok s' (L(k := remove1 b (L k)))" and i: "page_infos s' = page_infos s"
  shows "buddy_inv T M s' (L(k := remove1 b (L k))) A (insert (b, k) P)"
    and "(b, k) \<notin> P"
proof -
  let ?L = "L(k := remove1 b (L k))"
  have "distinct (L k)" using inv b by (auto simp: buddy_inv_def lists_ok_def fblocks_def)
  then have F: "fblocks ?L = fblocks L - {(b, k)}" by (rule fblocks_remove)
  have U: "fblocks ?L \<union> A \<union> insert (b, k) P = fblocks L \<union> A \<union> P" using b by (auto simp: F)
  show "(b, k) \<notin> P" using inv b by (auto simp: buddy_inv_def)
  show "buddy_inv T M s' ?L A (insert (b, k) P)"
    using inv l b unfolding buddy_inv_def U by (auto simp: F infos_ok_def info_is_def i)
qed

lemma lists_ok_unlink:
  assumes l: "lists_ok s L" and k: "k \<le> MAX_ORDER" and b: "b \<in> set (L k)"
    and others: "\<forall>j\<le>MAX_ORDER. j \<noteq> k \<longrightarrow> set (L j) \<inter> set (L k) = {}"
  shows "\<exists>s'. unlink_block s k b = Some s' \<and> lists_ok s' (L(k := remove1 b (L k))) \<and>
    page_infos s' = page_infos s"
proof -
  have e: "\<not> early_boot s" and n: "k < length (free_lists s)"
    and c: "chain (pmem s) (link_get s k Head) (L k)" and d: "distinct (L k)"
    using l k by (auto simp: lists_ok_def)
  obtain pp where pp: "seek_link s k (PHYS_MAP_BASE + b) Head = Some pp"
      "link_get s k pp = PHYS_MAP_BASE + b" "PHYS_MAP_BASE + b \<noteq> 0"
      "pp = Head \<or> (\<exists>q\<in>set (L k). pp = Next (PHYS_MAP_BASE + q))"
      "chain (pmem (link_set s k pp (pmem s b))) (link_get (link_set s k pp (pmem s b)) k Head)
         (remove1 b (L k))"
    using seek_link_unlinks[OF e n c d b] by auto
  define s1 where "s1 = link_set s k pp (pmem s b)"
  define s' where "s' = s1\<lparr>free_pages := free_pages s - push_bit k 1\<rparr>"
  have s1: "page_infos s1 = page_infos s" "early_boot s1 = early_boot s"
    "length (free_lists s1) = length (free_lists s)" "free_pages s1 = free_pages s"
    by (cases pp; simp add: s1_def)+
  have "unlink_block s k b = Some s'"
    using pp(1,2,3) e by (simp add: unlink_block_def phys_to_virt_def kva_pa_def s'_def s1_def)
  moreover have "chain (pmem s1) (free_lists s1 ! j) (L j)" if "j \<le> MAX_ORDER" "j \<noteq> k" for j
    using pp(4)
  proof
    assume "pp = Head"
    then show ?thesis using l that by (simp add: s1_def lists_ok_def)
  next
    assume "\<exists>q\<in>set (L k). pp = Next (PHYS_MAP_BASE + q)"
    then obtain q where q: "q \<in> set (L k)" "pp = Next (PHYS_MAP_BASE + q)" by blast
    then have "q \<notin> set (L j)" using others that by blast
    then show ?thesis
      using l that q e by (simp add: s1_def lists_ok_def kva_pa_def chain_upd)
  qed
  moreover have "free_pages s' = of_nat (free_count (L(k := remove1 b (L k))))"
    using l free_count_remove[OF k, of b L] b by (simp add: lists_ok_def s'_def push_bit_eq_mult)
  ultimately show ?thesis
    using pp(5) l d s1 by (intro exI[of _ s']) (auto simp: lists_ok_def s'_def s1_def[symmetric])
qed

lemma inv_lists_disjoint:
  assumes inv: "buddy_inv T M s L A P" and "j \<le> MAX_ORDER" "k \<le> MAX_ORDER" "j \<noteq> k"
  shows "set (L j) \<inter> set (L k) = {}"
proof (rule ccontr)
  assume "set (L j) \<inter> set (L k) \<noteq> {}"
  then obtain p where "(p, j) \<in> fblocks L" "(p, k) \<in> fblocks L"
    using assms by (auto simp: fblocks_def)
  then have "j = k"
    using inv tiled_same_start[of T "fblocks L \<union> A \<union> P" p j k] by (auto simp: buddy_inv_def)
  with assms show False by simp
qed

lemma inv_unlink:
  assumes inv: "buddy_inv T M s L A P" and b: "(b, k) \<in> fblocks L"
  shows "\<exists>s'. unlink_block s k b = Some s' \<and>
    buddy_inv T M s' (L(k := remove1 b (L k))) A (insert (b, k) P)" and "(b, k) \<notin> P"
proof -
  have k: "k \<le> MAX_ORDER" and bL: "b \<in> set (L k)" and l: "lists_ok s L"
    using inv b by (auto simp: buddy_inv_def fblocks_def)
  have "\<forall>j\<le>MAX_ORDER. j \<noteq> k \<longrightarrow> set (L j) \<inter> set (L k) = {}"
    using inv_lists_disjoint[OF inv _ k] by blast
  from lists_ok_unlink[OF l k bL this] inv_take[OF inv b]
  show "\<exists>s'. unlink_block s k b = Some s' \<and>
    buddy_inv T M s' (L(k := remove1 b (L k))) A (insert (b, k) P)" by blast
  show "(b, k) \<notin> P" using inv b by (auto simp: buddy_inv_def)
qed

lemma inv_pop:
  assumes inv: "buddy_inv T M s L A P" and k: "k \<le> MAX_ORDER" and h: "free_lists s ! k \<noteq> 0"
  shows "\<exists>p ps. L k = p # ps \<and> virt_to_phys (free_lists s ! k) = p \<and> (p, k) \<notin> P \<and>
    buddy_inv T M (s\<lparr>free_lists := (free_lists s)[k := pmem s (kva_pa s (free_lists s ! k))],
                  free_pages := free_pages s - push_bit k 1\<rparr>)
      (L(k := ps)) A (insert (p, k) P)"
proof -
  have l: "lists_ok s L" using inv by (simp add: buddy_inv_def)
  define p ps where "p = free_lists s ! k - PHYS_MAP_BASE" and "ps = tl (L k)"
  have c: "chain (pmem s) (free_lists s ! k) (L k)" using l k by (simp add: lists_ok_def)
  have L: "L k = p # ps" and c': "chain (pmem s) (pmem s p) ps"
    using chain_ConsD[OF c h] by (simp_all add: p_def ps_def)
  have b: "(p, k) \<in> fblocks L" using L k by (simp add: fblocks_def)
  have r: "remove1 p (L k) = ps" by (simp add: L)
  have fc: "free_count L = free_count (L(k := ps)) + 2 ^ k"
    using free_count_remove[OF k, of p L] L by simp
  let ?s = "s\<lparr>free_lists := (free_lists s)[k := pmem s (kva_pa s (free_lists s ! k))],
              free_pages := free_pages s - push_bit k 1\<rparr>"
  have "lists_ok ?s (L(k := ps))"
    using l k c' L fc by (auto simp: lists_ok_def kva_pa_def p_def push_bit_eq_mult nth_list_update)
  then have "buddy_inv T M ?s (L(k := ps)) A (insert (p, k) P)" "(p, k) \<notin> P"
    using inv_take[OF inv b, of ?s] r by simp_all
  with L show ?thesis by (auto simp: virt_to_phys_def p_def)
qed

lemma inv_mark_alloc:
  assumes inv: "buddy_inv T M s L A (insert (p, k) P)" and n: "(p, k) \<notin> P"
  shows "\<exists>s'. mark_alloc s p k = Some s' \<and> buddy_inv T M s' L (insert (p, k) A) P"
proof -
  let ?U = "fblocks L \<union> A \<union> insert (p, k) P"
  have t: "tiled T ?U" and l: "lists_ok s L" and i: "infos_ok T s (fblocks L) A ?U"
    using inv by (auto simp: buddy_inv_def)
  have ok: "block_ok T (p, k)" using t by (rule tiled_ok) simp
  then have k: "k \<le> MAX_ORDER" by (simp add: block_ok_def)
  obtain pi where pi: "page_infos s (pfn p) = Some pi" using pfn_mapped[OF ok i] by blast
  let ?pi = "pi\<lparr>pi_flags := PAGE_ALLOC, pi_order := of_nat k, pi_refcount := 1\<rparr>"
  define s' where "s' = s\<lparr>page_infos := (page_infos s)(pfn p \<mapsto> ?pi)\<rparr>"
  have "info_is s' (p, k) PAGE_ALLOC" using of_nat_order[OF k] by (simp add: info_is_def s'_def)
  then have "infos_ok T s' (fblocks L) (insert (p, k) A) ?U"
    using inv by (intro infos_ok_upd[OF i t, of p k s' ?pi]) (auto simp: buddy_inv_def s'_def)
  moreover have "lists_ok s' L" using l by (simp add: lists_ok_def s'_def)
  ultimately have "buddy_inv T M s' L (insert (p, k) A) P"
    using inv n by (auto simp: buddy_inv_def)
  then show ?thesis using pi by (auto simp: mark_alloc_def s'_def)
qed

end
