(* ===== verification/Buddy_Ops.thy ===== *)
theory Buddy_Ops
  imports Buddy_Inv
begin

text \<open>
  Correctness of allocation, release and initialisation of physical memory, and the contract
  of a block allocator that its clients rely on.
\<close>

unbundle bit_operations_syntax

subsection \<open>Allocation\<close>

lemma inv_split_down:
  assumes "buddy_inv T M s L A {(p, k)}" and "order \<le> k"
  shows "\<exists>s' L'. split_down s p k order = Some s' \<and> buddy_inv T M s' L' A {(p, order)}"
  using assms
proof (induction k arbitrary: s L)
  case 0
  then show ?case by auto
next
  case (Suc k)
  show ?case
  proof (cases "order = Suc k")
    case True
    then show ?thesis using Suc.prems by auto
  next
    case False
    then have ord: "order \<le> k" using Suc.prems by simp
    let ?b = "buddy_of p k"
    have i: "buddy_inv T M s L A (insert (?b, k) {(p, k)})"
      using inv_split[of T M s L A p k "{}"] Suc.prems(1) by (simp add: insert_commute)
    have ok: "block_ok T (p, Suc k)"
      using Suc.prems(1) by (intro tiled_ok[of T "fblocks L \<union> A \<union> {(p, Suc k)}"])
        (auto simp: buddy_inv_def)
    have "(?b, k) \<notin> {(p, k)}"
      using buddy_of_low[OF block_ok_halves(4,3)[OF ok]] by auto
    then obtain s' where "phys_free_block s ?b k = Some s'"
      "buddy_inv T M s' (L(k := ?b # L k)) A {(p, k)}"
      using inv_free_block[OF i] by blast
    then show ?thesis using Suc.IH[OF _ ord] ord by auto
  qed
qed

definition oom :: "(nat \<Rightarrow> u64 list) \<Rightarrow> nat \<Rightarrow> bool" where
  "oom L order \<longleftrightarrow> (\<forall>k. order \<le> k \<and> k \<le> MAX_ORDER \<longrightarrow> L k = [])"

lemma alloc_scan_spec:
  assumes "buddy_inv T M s L A {}" and "order \<le> k" and "\<forall>j. order \<le> j \<and> j < k \<longrightarrow> L j = []"
  shows "if oom L order then alloc_scan s k order = Some (0, s)
    else \<exists>p s' L'. alloc_scan s k order = Some (p, s') \<and>
           buddy_inv T M s' L' (insert (p, order) A) {} \<and>
           (\<exists>b\<in>fblocks L. extent (p, order) \<subseteq> extent b)"
  using assms
proof (induction s k order rule: alloc_scan.induct)
  case (1 s k order)
  show ?case
  proof (cases "k > MAX_ORDER")
    case True
    then have "oom L order" using "1.prems"(3) by (auto simp: oom_def)
    then show ?thesis using True by (subst alloc_scan.simps) simp
  next
    case k: False
    have c: "chain (pmem s) (free_lists s ! k) (L k)"
      using "1.prems"(1) k by (auto simp: buddy_inv_def lists_ok_def)
    show ?thesis
    proof (cases "free_lists s ! k = 0")
      case True
      then have "L k = []" using c chain_null by metis
      then have "\<forall>j. order \<le> j \<and> j < Suc k \<longrightarrow> L j = []"
        using "1.prems"(3) by (auto simp: less_Suc_eq)
      then have *: "if oom L order then alloc_scan s (Suc k) order = Some (0, s)
        else \<exists>p s' L'. alloc_scan s (Suc k) order = Some (p, s') \<and>
           buddy_inv T M s' L' (insert (p, order) A) {} \<and>
           (\<exists>b\<in>fblocks L. extent (p, order) \<subseteq> extent b)"
        using "1.prems"(1,2) by (intro "1.IH"[OF k refl True]) auto
      have "alloc_scan s k order = alloc_scan s (Suc k) order"
        using k True by (subst alloc_scan.simps) simp
      with * show ?thesis by (simp only:)
    next
      case h: False
      let ?s = "s\<lparr>free_lists := (free_lists s)[k := pmem s (kva_pa s (free_lists s ! k))],
              free_pages := free_pages s - push_bit k 1\<rparr>"
      obtain p ps where p: "L k = p # ps" "virt_to_phys (free_lists s ! k) = p"
        "buddy_inv T M ?s (L(k := ps)) A {(p, k)}"
        using inv_pop[OF "1.prems"(1) _ h] k by auto
      obtain s2 L2 where s2: "split_down ?s p k order = Some s2" "buddy_inv T M s2 L2 A {(p, order)}"
        using inv_split_down[OF p(3) "1.prems"(2)] by blast
      obtain s3 where s3: "mark_alloc s2 p order = Some s3" "buddy_inv T M s3 L2 (insert (p, order) A) {}"
        using inv_mark_alloc[of T M s2 L2 A p order "{}"] s2(2) by auto
      have "bsize order dvd bsize k" using "1.prems"(2) by (rule bsize_dvd)
      then have "bsize order \<le> bsize k" by (rule dvd_imp_le) simp
      then have "extent (p, order) \<subseteq> extent (p, k)" by (auto simp: extent_def)
      moreover have "(p, k) \<in> fblocks L" using p(1) k by (simp add: fblocks_def)
      moreover have "\<not> oom L order" using p(1) "1.prems"(2) k by (auto simp: oom_def)
      moreover have "alloc_scan s k order = Some (p, s3)"
        using k h p(2) s2(1) s3(1) by (subst alloc_scan.simps) simp
      ultimately show ?thesis using s3(2) by auto
    qed
  qed
qed

lemma amm_phys_alloc_spec:
  assumes inv: "buddy_inv T M s L A {}" and order: "order \<le> MAX_ORDER"
  shows "if oom L order then amm_phys_alloc s order = Some (0, s)
    else \<exists>p s' L'. amm_phys_alloc s order = Some (p, s') \<and>
           buddy_inv T M s' L' (insert (p, order) A) {} \<and>
           (\<exists>b\<in>fblocks L. extent (p, order) \<subseteq> extent b)"
proof -
  have "amm_phys_alloc s order = alloc_scan s order order"
    using inv order by (simp add: amm_phys_alloc_def buddy_inv_def lists_ok_def)
  moreover have "\<forall>j. order \<le> j \<and> j < order \<longrightarrow> L j = []" by auto
  ultimately show ?thesis using alloc_scan_spec[OF inv order_refl, of order] by (simp only:)
qed

subsection \<open>Release\<close>

text \<open>
  The test on the buddy's page-info entry is exact: it passes only for a block that really is
  on the free list of that order, however stale the entries inside other blocks are.
\<close>

lemma buddy_test_exact:
  assumes inv: "buddy_inv T M s L A (insert (p, k) P)"
    and pi: "page_infos s (pfn (buddy_of p k)) = Some bi"
    and fl: "pi_flags bi AND PAGE_FREE \<noteq> 0" and ord: "unat (pi_order bi) = k"
    and P: "\<forall>x\<in>P. unat (buddy_of p k) \<notin> extent x"
  shows "(buddy_of p k, k) \<in> fblocks L"
proof -
  let ?b = "buddy_of p k" and ?U = "fblocks L \<union> A \<union> insert (p, k) P"
  have t: "tiled T ?U" and i: "infos_ok T s (fblocks L) A ?U" using inv by (auto simp: buddy_inv_def)
  have ok: "block_ok T (p, k)" using t by (rule tiled_ok) simp
  then have k: "k \<le> MAX_ORDER" and dp: "bsize k dvd unat p" by (auto simp: block_ok_def)
  have db: "bsize k dvd unat ?b" using k dp by (rule buddy_of_aligned)
  then have pg: "4096 dvd unat ?b" by (rule page_dvd)
  have "unat ?b \<in> cover ?U" using i pg pi fl by (auto simp: infos_ok_def)
  then obtain q j where q: "(q, j) \<in> ?U" "unat ?b \<in> extent (q, j)" unfolding cover_def by auto
  have dq: "bsize j dvd unat q" using tiled_ok[OF t q(1)] by (simp add: block_ok_def)
  have jk: "j \<le> k"
  proof (rule ccontr)
    assume "\<not> j \<le> k"
    then have j: "Suc k \<le> j" by simp
    have "unat p \<in> extent (q, j)"
      using k dp j dq q(2) by (rule extent_holds_both_buddies)
    then have "(q, j) = (p, k)" using tiled_disjoint[OF t q(1), of "(p, k)" "unat p"] by simp
    with j show False by simp
  qed
  then have qb: "q = ?b" using aligned_start_in_extent[OF dq db jk q(2)] by (simp add: word_unat_eq_iff)
  consider "(q, j) \<in> fblocks L" | "(q, j) \<in> A" | "(q, j) = (p, k)" | "(q, j) \<in> P" using q(1) by auto
  then show ?thesis
  proof cases
    case 1
    then have "j = k" using i pi ord qb by (auto simp: infos_ok_def info_is_def)
    with 1 qb show ?thesis by simp
  next
    case 2
    then have "pi_flags bi = PAGE_ALLOC" using i pi qb by (auto simp: infos_ok_def info_is_def)
    with fl show ?thesis by (simp add: PAGE_ALLOC_def PAGE_FREE_def)
  next
    case 3
    then show ?thesis using qb buddy_of_neq[OF k dp] by simp
  next
    case 4
    then show ?thesis using P q(2) by auto
  qed
qed

lemma free_merge_top: "\<not> k < MAX_ORDER \<Longrightarrow> free_merge s p k = Some (s, p, k)"
  by (subst free_merge.simps) (simp only: if_False)

lemma free_merge_stop:
  assumes "k < MAX_ORDER" and "page_infos s (pfn (buddy_of p k)) = Some bi"
    and "pi_flags bi AND PAGE_FREE = 0 \<or> unat (pi_order bi) \<noteq> k"
  shows "free_merge s p k = Some (s, p, k)"
  using assms by (subst free_merge.simps) (simp only: Let_def option.case if_True simp_thms)

lemma free_merge_step:
  assumes "k < MAX_ORDER" and "page_infos s (pfn (buddy_of p k)) = Some bi"
    and "\<not> (pi_flags bi AND PAGE_FREE = 0 \<or> unat (pi_order bi) \<noteq> k)"
    and "unlink_block s k (buddy_of p k) = Some s'"
  shows "free_merge s p k =
    free_merge s' (if p < buddy_of p k then p else buddy_of p k) (Suc k)"
  using assms
  by (subst free_merge.simps) (simp only: Let_def option.case if_True if_False bind.simps)

lemma buddy_info_mapped:
  assumes inv: "buddy_inv T M s L A {(p, k)}" and k: "k \<le> MAX_ORDER"
  shows "\<exists>bi. page_infos s (pfn (buddy_of p k)) = Some bi"
proof -
  let ?U = "fblocks L \<union> A \<union> {(p, k)}"
  have t: "tiled T ?U" and i: "infos_ok T s (fblocks L) A ?U"
    using inv by (simp_all add: buddy_inv_def)
  have ok: "block_ok T (p, k)" using t by (rule tiled_ok) simp
  then have dp: "bsize k dvd unat p" by (simp add: block_ok_def)
  have "unat (buddy_of p k) \<le> T"
  proof (cases "bsize (Suc k) dvd unat p")
    case True
    then show ?thesis using ok buddy_of_low[OF k True] by (simp add: block_ok_def)
  next
    case False
    then show ?thesis using ok buddy_of_high(1)[OF k dp False] by (simp add: block_ok_def)
  qed
  then have "unat (pfn (buddy_of p k)) \<le> T div 4096" by (simp only: unat_pfn div_le_mono)
  then show ?thesis by (rule infos_mapped[OF i])
qed

lemma inv_merge_step:
  assumes inv: "buddy_inv T M s L A {(p, k)}" and k: "k < MAX_ORDER"
    and bi: "page_infos s (pfn (buddy_of p k)) = Some bi"
    and test: "\<not> (pi_flags bi AND PAGE_FREE = 0 \<or> unat (pi_order bi) \<noteq> k)"
  shows "\<exists>s' L'. unlink_block s k (buddy_of p k) = Some s' \<and>
    buddy_inv T M s' L' A {(if p < buddy_of p k then p else buddy_of p k, Suc k)}"
proof -
  let ?b = "buddy_of p k" and ?lo = "if p < buddy_of p k then p else buddy_of p k"
  have k': "k \<le> MAX_ORDER" "Suc k \<le> MAX_ORDER" using k by simp_all
  have "block_ok T (p, k)"
    using inv by (intro tiled_ok[of T "fblocks L \<union> A \<union> {(p, k)}"]) (simp_all add: buddy_inv_def)
  then have dp: "bsize k dvd unat p" by (simp add: block_ok_def)
  have b: "(?b, k) \<in> fblocks L"
    using test by (intro buddy_test_exact[OF inv bi]) simp_all
  obtain s1 where s1: "unlink_block s k ?b = Some s1"
    "buddy_inv T M s1 (L(k := remove1 ?b (L k))) A {(?b, k), (p, k)}"
    using inv_unlink(1)[OF inv b] by blast
  have lo: "bsize (Suc k) dvd unat ?lo" using k'(1) dp by (rule lower_buddy_aligned)
  have "{(?b, k), (p, k)} = {(?lo, k), (buddy_of ?lo k, k)}"
    by (simp add: buddy_of_idem insert_commute)
  with s1(2) have i2: "buddy_inv T M s1 (L(k := remove1 ?b (L k))) A {(?lo, k), (buddy_of ?lo k, k)}"
    by (simp only:)
  have "buddy_inv T M s1 (L(k := remove1 ?b (L k))) A {(?lo, Suc k)}"
    by (rule inv_merge(1)[OF i2 _ _ k'(2) lo]) simp_all
  with s1(1) show ?thesis by blast
qed

lemma free_merge_spec:
  assumes "buddy_inv T M s L A {(p, k)}"
  shows "\<exists>s' L' p' k'. free_merge s p k = Some (s', p', k') \<and> buddy_inv T M s' L' A {(p', k')}"
  using assms
proof (induction "18 - k" arbitrary: s L p k)
  case 0
  then have "\<not> k < MAX_ORDER" by simp
  then show ?case using free_merge_top 0(2) by blast
next
  case (Suc d)
  then have k: "k < MAX_ORDER" "k \<le> MAX_ORDER" by simp_all
  obtain bi where bi: "page_infos s (pfn (buddy_of p k)) = Some bi"
    using buddy_info_mapped[OF Suc.prems k(2)] ..
  show ?case
  proof (cases "pi_flags bi AND PAGE_FREE = 0 \<or> unat (pi_order bi) \<noteq> k")
    case True
    show ?thesis using free_merge_stop[OF k(1) bi True] Suc.prems by blast
  next
    case False
    let ?lo = "if p < buddy_of p k then p else buddy_of p k"
    obtain s1 L1 where s1: "unlink_block s k (buddy_of p k) = Some s1"
      "buddy_inv T M s1 L1 A {(?lo, Suc k)}"
      using inv_merge_step[OF Suc.prems k(1) bi False] by blast
    have "d = 18 - Suc k" using Suc.hyps(2) by simp
    from Suc.hyps(1)[OF this s1(2)] show ?thesis
      unfolding free_merge_step[OF k(1) bi False s1(1)] .
  qed
qed

lemma amm_phys_free_spec:
  assumes inv: "buddy_inv T M s L A {}" and a: "(p, k) \<in> A"
  shows "\<exists>s' L'. amm_phys_free s p k = Some s' \<and> buddy_inv T M s' L' (A - {(p, k)}) {}"
proof -
  have U: "fblocks L \<union> (A - {(p, k)}) \<union> {(p, k)} = fblocks L \<union> A \<union> {}" using a by auto
  have "buddy_inv T M s L (A - {(p, k)}) {(p, k)}"
    using inv a unfolding buddy_inv_def U by (auto simp: infos_ok_def)
  then obtain s1 L1 p1 k1 where 1: "free_merge s p k = Some (s1, p1, k1)"
    "buddy_inv T M s1 L1 (A - {(p, k)}) {(p1, k1)}"
    using free_merge_spec by blast
  from inv_free_block[of T M s1 L1 "A - {(p, k)}" p1 k1 "{}"] 1(2)
  obtain s' where "phys_free_block s1 p1 k1 = Some s'"
    "buddy_inv T M s' (L1(k1 := p1 # L1 k1)) (A - {(p, k)}) {}" by auto
  with 1(1) show ?thesis unfolding amm_phys_free_def by auto
qed

end
