(* ===== verification/Buddy_Init.thy ===== *)
theory Buddy_Init
  imports Buddy_Ops
begin

text \<open>
  Initialisation of the buddy system from the boot memory map: freeing a range terminates and
  adds exactly that range to the free memory, and amm_phys_init hands out all free regions of
  the map except the bootstrap pool.
\<close>

unbundle bit_operations_syntax

subsection \<open>Freeing a range\<close>

definition page_range :: "nat \<Rightarrow> nat \<Rightarrow> nat set" where
  "page_range a b = {a..<b}"

lemma unat_page_addr:
  assumes "unat base + 4096 * unat pages \<le> T" and "T \<le> mem_limit" and "unat i \<le> unat pages"
  shows "unat (base + i * PAGE_SIZE) = unat base + 4096 * unat i"
proof -
  have b: "unat base + 4096 * unat i < 2 ^ 64"
    using assms by (simp add: mem_limit_def)
  have "base + i * PAGE_SIZE = of_nat (unat base + 4096 * unat i)" by simp
  then show ?thesis using b by (simp only: unat_of_nat) simp
qed

lemma fit_order_spec:
  assumes m: "m \<le> MAX_ORDER" and i: "unat i < unat pages" and p: "unat pages < 2 ^ 63"
    and base: "4096 dvd unat (base + i * PAGE_SIZE)"
  shows "fit_order base i pages m \<le> m \<and> unat i + 2 ^ fit_order base i pages m \<le> unat pages \<and>
    bsize (fit_order base i pages m) dvd unat (base + i * PAGE_SIZE)"
  using m
proof (induction m)
  case 0
  then show ?case using i base by (simp add: bsize_def)
next
  case (Suc m)
  let ?bp = "push_bit (Suc m) 1 :: u64"
  have bp: "unat ?bp = 2 ^ Suc m" using Suc.prems by (rule unat_push_one)
  have le: "(2::nat) ^ Suc m \<le> 2 ^ 18" using Suc.prems by (intro power_increasing) auto
  have sum: "unat (i + ?bp) = unat i + 2 ^ Suc m"
    using i p le by (subst unat_add_lem[THEN iffD1]) (simp_all only: bp, simp_all)
  have sz: "unat (?bp * PAGE_SIZE) = bsize (Suc m)"
    using unat_push_page[OF Suc.prems] by (simp add: push_bit_eq_mult mult.commute)
  show ?case
  proof (cases "i + ?bp > pages \<or> (base + i * PAGE_SIZE) AND (?bp * PAGE_SIZE - 1) \<noteq> 0")
    case True
    then have "fit_order base i pages (Suc m) = fit_order base i pages m" by (auto simp: Let_def)
    then show ?thesis using Suc by simp
  next
    case False
    then have f: "fit_order base i pages (Suc m) = Suc m" by (simp add: Let_def)
    have "unat ((base + i * PAGE_SIZE) AND (?bp * PAGE_SIZE - 1)) =
          unat (base + i * PAGE_SIZE) mod bsize (Suc m)"
      using unat_and_pow2_mask[of "?bp * PAGE_SIZE" "Suc m + 12"] sz by (simp add: bsize_power)
    with False have "bsize (Suc m) dvd unat (base + i * PAGE_SIZE)" by (simp add: dvd_eq_mod_eq_0)
    moreover have "unat i + 2 ^ Suc m \<le> unat pages"
      using False sum by (simp add: word_less_nat_alt)
    ultimately show ?thesis unfolding f by blast
  qed
qed

text \<open>Fields of the state that putting a block on a free list leaves alone.\<close>

definition same_bounds :: "phys_state \<Rightarrow> phys_state \<Rightarrow> bool" where
  "same_bounds s s' \<longleftrightarrow> total_pages s' = total_pages s \<and> phys_base s' = phys_base s \<and>
     phys_top s' = phys_top s \<and> bump_base s' = bump_base s \<and> bump_end s' = bump_end s"

lemma phys_free_block_bounds: "phys_free_block s p k = Some s' \<Longrightarrow> same_bounds s s'"
  by (auto simp: phys_free_block_def same_bounds_def Let_def split: if_splits option.splits)

lemma same_bounds_trans: "same_bounds a b \<Longrightarrow> same_bounds b c \<Longrightarrow> same_bounds a c"
  by (simp add: same_bounds_def)

lemma free_range_from_spec:
  assumes "buddy_inv T M s L A {}" and "4096 dvd unat base"
    and "unat base + 4096 * unat pages \<le> T" and "unat i \<le> unat pages"
    and "page_range (unat base + 4096 * unat i) (unat base + 4096 * unat pages) \<inter>
           cover (fblocks L \<union> A) = {}"
  shows "\<exists>M' s' L'. free_range_from base pages i s = Some s' \<and> buddy_inv T M' s' L' A {} \<and>
    cover (fblocks L') = cover (fblocks L) \<union>
      page_range (unat base + 4096 * unat i) (unat base + 4096 * unat pages) \<and> same_bounds s s'"
  using assms
proof (induction "unat pages - unat i" arbitrary: s L i M rule: less_induct)
  case less
  have T: "T \<le> mem_limit" using less.prems(1) by (simp add: buddy_inv_def)
  show ?case
  proof (cases "i < pages")
    case False
    then have "unat i = unat pages" using less.prems(4) by (simp add: word_less_nat_alt)
    then show ?thesis using less.prems(1) False
      by (subst free_range_from.simps) (auto simp: page_range_def same_bounds_def)
  next
    case True
    then have i: "unat i < unat pages" by (simp add: word_less_nat_alt)
    define k where "k = fit_order base i pages MAX_ORDER"
    define a where "a = base + i * PAGE_SIZE"
    have a: "unat a = unat base + 4096 * unat i"
      unfolding a_def using less.prems(3) T less.prems(4) by (rule unat_page_addr)
    have p: "unat pages < 2 ^ 63" using less.prems(3) T by (simp add: mem_limit_def)
    have "4096 dvd unat a" using less.prems(2) by (simp add: a)
    then have k: "k \<le> MAX_ORDER" "unat i + 2 ^ k \<le> unat pages" "bsize k dvd unat a"
      using fit_order_spec[OF order_refl i p, of base] by (auto simp: k_def a_def)
    define nxt where "nxt = i + push_bit k 1"
    have ni: "unat nxt = unat i + 2 ^ k"
      unfolding nxt_def using unat_push_one[OF k(1)] k(2) p by (subst unat_add_lem[THEN iffD1]) auto
    have ext: "extent (a, k) = page_range (unat base + 4096 * unat i)
        (unat base + 4096 * unat nxt)"
      by (simp add: extent_def page_range_def a ni bsize_def algebra_simps)
    have fit: "unat a + bsize k \<le> unat base + 4096 * unat pages"
      using k(2) by (simp add: a bsize_def)
    have ok: "block_ok T (a, k)" using k fit less.prems(3) by (simp add: block_ok_def)
    have "extent (a, k) \<subseteq> page_range (unat base + 4096 * unat i) (unat base + 4096 * unat pages)"
      using fit by (auto simp: extent_def page_range_def a)
    then have "extent (a, k) \<inter> cover (fblocks L \<union> A \<union> {}) = {}" using less.prems(5) by auto
    then have "buddy_inv T (M \<union> extent (a, k)) s L A (insert (a, k) {})"
      using less.prems(1) ok by (intro inv_adopt)
    then obtain s1 where s1: "phys_free_block s a k = Some s1"
      "buddy_inv T (M \<union> extent (a, k)) s1 (L(k := a # L k)) A {}"
      using inv_free_block by blast
    have F: "fblocks (L(k := a # L k)) = insert (a, k) (fblocks L)"
      using k(1) by (rule fblocks_push)
    let ?tail = "page_range (unat base + 4096 * unat nxt) (unat base + 4096 * unat pages)"
    have "?tail \<subseteq> page_range (unat base + 4096 * unat i) (unat base + 4096 * unat pages)"
      "?tail \<inter> extent (a, k) = {}"
      by (auto simp: ext page_range_def ni)
    then have rest: "?tail \<inter> cover (insert (a, k) (fblocks L) \<union> A) = {}"
      using less.prems(5) unfolding Un_insert_left cover_insert by blast
    have step: "free_range_from base pages i s = free_range_from base pages nxt s1"
      using True s1(1) by (subst free_range_from.simps) (simp add: k_def a_def nxt_def)
    have "unat pages - unat nxt < unat pages - unat i"
      unfolding ni using i by (intro diff_less_mono2) auto
    from less.hyps[OF this s1(2) less.prems(2,3)] rest k(2)
    obtain M' s' L' where s': "free_range_from base pages i s = Some s'" "buddy_inv T M' s' L' A {}"
      "cover (fblocks L') = cover (insert (a, k) (fblocks L)) \<union>
         page_range (unat base + 4096 * unat nxt) (unat base + 4096 * unat pages)"
      "same_bounds s1 s'"
      unfolding F step ni by auto
    have "extent (a, k) \<union> page_range (unat base + 4096 * unat nxt)
            (unat base + 4096 * unat pages) =
          page_range (unat base + 4096 * unat i) (unat base + 4096 * unat pages)"
      using k(2) by (auto simp: ext page_range_def ni)
    then have "cover (fblocks L') = cover (fblocks L) \<union>
        page_range (unat base + 4096 * unat i) (unat base + 4096 * unat pages)"
      unfolding s'(3) cover_insert by blast
    then show ?thesis
      using s' same_bounds_trans[OF phys_free_block_bounds[OF s1(1)]] by blast
  qed
qed

subsection \<open>Initialisation from the memory map\<close>

lemma page_mask_aligned: "4096 dvd unat (x AND NOT (PAGE_SIZE - 1))" for x :: u64
proof -
  have "take_bit 12 (x AND NOT (mask 12)) = 0"
    by (rule bit_word_eqI) (auto simp: bit_simps)
  then have "unat (take_bit 12 (x AND NOT (PAGE_SIZE - 1))) = 0"
    by (simp add: mask_eq_exp_minus_1)
  then show ?thesis by (simp add: take_bit_eq_mod unat_mod dvd_eq_mod_eq_0)
qed

lemma PAGE_ALIGN_aligned: "4096 dvd unat (PAGE_ALIGN x)" "4096 dvd unat (PAGE_ALIGN_DOWN x)"
  unfolding PAGE_ALIGN_def PAGE_ALIGN_DOWN_def by (rule page_mask_aligned)+

text \<open>The page-aligned bytes of an entry, and the bytes of the bootstrap pool.\<close>

definition entry_lo :: "mmap_entry \<Rightarrow> u64" where
  "entry_lo m = PAGE_ALIGN (m_base m)"

definition entry_hi :: "mmap_entry \<Rightarrow> u64" where
  "entry_hi m = PAGE_ALIGN_DOWN (m_base m + m_pages m * PAGE_SIZE)"

definition entry_bytes :: "mmap_entry \<Rightarrow> nat set" where
  "entry_bytes m = (if m_type m = ASD_MEM_FREE
     then page_range (unat (entry_lo m)) (unat (entry_hi m)) else {})"

definition pool_bytes :: "phys_state \<Rightarrow> nat set" where
  "pool_bytes s = (if bump_base s = 0 then {} else page_range (unat (bump_base s)) (unat (bump_end s)))"

definition pool_ok :: "phys_state \<Rightarrow> bool" where
  "pool_ok s \<longleftrightarrow> 4096 dvd unat (bump_base s) \<and> 4096 dvd unat (bump_end s) \<and> bump_base s \<le> bump_end s"

lemma inv_frame:
  assumes "buddy_inv T M s L A P" and "free_lists s' = free_lists s" and "pmem s' = pmem s"
    and "page_infos s' = page_infos s" and "free_pages s' = free_pages s"
    and "early_boot s' = early_boot s"
  shows "buddy_inv T M s' L A P"
  using assms by (simp add: buddy_inv_def lists_ok_def infos_ok_def info_is_def)

lemma inv_widen: "buddy_inv T M s L A P \<Longrightarrow> buddy_inv T M (widen_bounds s b e) L A P"
  by (erule inv_frame) (auto simp: widen_bounds_def Let_def)

lemma inv_total: "buddy_inv T M s L A P \<Longrightarrow> buddy_inv T M (s\<lparr>total_pages := n\<rparr>) L A P"
  by (erule inv_frame) auto

lemma free_and_count_spec:
  assumes inv: "buddy_inv T M s L A {}" and lo: "4096 dvd unat lo" and hi: "4096 dvd unat hi"
    and le: "lo \<le> hi" and T: "unat hi \<le> T"
    and d: "page_range (unat lo) (unat hi) \<inter> cover (fblocks L \<union> A) = {}"
  shows "\<exists>M' s' L'. free_and_count s lo (drop_bit 12 (hi - lo)) = Some s' \<and> buddy_inv T M' s' L' A {} \<and>
    cover (fblocks L') = cover (fblocks L) \<union> page_range (unat lo) (unat hi) \<and>
    bump_base s' = bump_base s \<and> bump_end s' = bump_end s \<and>
    total_pages s' = total_pages s + drop_bit 12 (hi - lo)"
proof -
  let ?n = "drop_bit 12 (hi - lo)"
  have le': "unat lo \<le> unat hi" using le by (simp add: word_le_nat_alt)
  have "unat ?n = (unat hi - unat lo) div 4096"
    using unat_pfn[of "hi - lo"] le by (simp add: pfn_def unat_sub)
  moreover have "4096 dvd unat hi - unat lo" using lo hi by (rule dvd_diff_nat[rotated])
  ultimately have n: "unat lo + 4096 * unat ?n = unat hi" using le' by simp
  from free_range_from_spec[OF inv lo, of ?n 0] n T d
  obtain M' s1 L' where "free_range_from lo ?n 0 s = Some s1" "buddy_inv T M' s1 L' A {}"
    "cover (fblocks L') = cover (fblocks L) \<union> page_range (unat lo) (unat hi)" "same_bounds s s1"
    by auto
  then show ?thesis
    by (auto simp: free_and_count_def phys_free_range_def same_bounds_def intro: inv_total)
qed

lemma page_range_minus_pool:
  assumes "pool_ok s" and "lo < hi" and "bump_base s \<noteq> 0" and "lo < bump_end s" and "bump_base s < hi"
  shows "page_range (unat lo) (unat hi) - pool_bytes s =
    (if lo < bump_base s then page_range (unat lo) (unat (bump_base s)) else {}) \<union>
    (if bump_end s < hi then page_range (unat (bump_end s)) (unat hi) else {})"
  using assms
  by (auto simp: pool_ok_def pool_bytes_def page_range_def word_less_nat_alt word_le_nat_alt)

lemma phys_init_entry_spec:
  assumes inv: "buddy_inv T M s L {} {}" and pool: "pool_ok s"
    and T: "m_type m = ASD_MEM_FREE \<Longrightarrow> unat (entry_hi m) \<le> T"
    and d: "entry_bytes m \<inter> cover (fblocks L) = {}"
  shows "\<exists>M' s' L'. phys_init_entry s m = Some s' \<and> buddy_inv T M' s' L' {} {} \<and>
    cover (fblocks L') = cover (fblocks L) \<union> (entry_bytes m - pool_bytes s) \<and>
    bump_base s' = bump_base s \<and> bump_end s' = bump_end s"
proof (cases "m_type m \<noteq> ASD_MEM_FREE \<or> entry_hi m \<le> entry_lo m")
  case True
  then have "entry_bytes m = {}"
    by (auto simp: entry_bytes_def page_range_def word_le_nat_alt)
  moreover have "phys_init_entry s m = Some s"
    using True by (auto simp: phys_init_entry_def Let_def entry_lo_def entry_hi_def)
  ultimately show ?thesis using inv by auto
next
  case False
  then have ty: "m_type m = ASD_MEM_FREE" and lt: "entry_lo m < entry_hi m" by auto
  let ?lo = "entry_lo m" and ?hi = "entry_hi m"
  define w where "w = widen_bounds s ?lo ?hi"
  have w: "buddy_inv T M w L {} {}" "bump_base w = bump_base s" "bump_end w = bump_end s"
    unfolding w_def using inv by (auto intro: inv_widen) (auto simp: widen_bounds_def Let_def)
  have al: "4096 dvd unat ?lo" "4096 dvd unat ?hi" "4096 dvd unat (bump_base s)"
    "4096 dvd unat (bump_end s)"
    using pool PAGE_ALIGN_aligned by (auto simp: entry_lo_def entry_hi_def pool_ok_def)
  have eb: "entry_bytes m = page_range (unat ?lo) (unat ?hi)" using ty by (simp add: entry_bytes_def)
  have hiT: "unat ?hi \<le> T" using T ty by simp
  show ?thesis
  proof (cases "bump_base s \<noteq> 0 \<and> ?lo < bump_end s \<and> bump_base s < ?hi")
    case out: False
    then have "phys_init_entry s m = free_and_count w ?lo (drop_bit 12 (?hi - ?lo))"
      using ty lt w by (auto simp: phys_init_entry_def Let_def entry_lo_def entry_hi_def w_def)
    moreover have "entry_bytes m - pool_bytes s = page_range (unat ?lo) (unat ?hi)"
      using out by (auto simp: eb pool_bytes_def page_range_def word_less_nat_alt)
    ultimately show ?thesis
      using free_and_count_spec[OF w(1) al(1,2) less_imp_le[OF lt] hiT] d w(2,3) by (auto simp: eb)
  next
    case True
    then have br: "bump_base s \<noteq> 0" "?lo < bump_end s" "bump_base s < ?hi" by auto
    let ?A = "if ?lo < bump_base s then page_range (unat ?lo) (unat (bump_base s)) else {}"
    let ?B = "if bump_end s < ?hi then page_range (unat (bump_end s)) (unat ?hi) else {}"
    have split: "entry_bytes m - pool_bytes s = ?A \<union> ?B"
      unfolding eb using pool lt br by (rule page_range_minus_pool)
    have AB: "?A \<inter> ?B = {}" using pool
      by (auto simp: page_range_def pool_ok_def word_le_nat_alt)
    have dA: "?A \<inter> cover (fblocks L \<union> {}) = {}" and dB: "?B \<inter> cover (fblocks L) = {}"
      using split d by auto
    have bT: "unat (bump_base s) \<le> T" using br(3) hiT by (simp add: word_less_nat_alt)
    obtain M1 s1 L1 where 1: "(if ?lo < bump_base w then free_and_count w ?lo (drop_bit 12 (bump_base w - ?lo))
         else Some w) = Some s1" "buddy_inv T M1 s1 L1 {} {}"
      "cover (fblocks L1) = cover (fblocks L) \<union> ?A" "bump_base s1 = bump_base s" "bump_end s1 = bump_end s"
    proof (cases "?lo < bump_base s")
      case True
      then show ?thesis
        using free_and_count_spec[OF w(1) al(1,3) less_imp_le[OF True] bT] dA w(2,3) that by auto
    qed (use w that in auto)
    have dB': "?B \<inter> cover (fblocks L1 \<union> {}) = {}" using dB AB 1(3) by auto
    obtain M2 s2 L2 where 2: "(if bump_end s1 < ?hi then free_and_count s1 (bump_end s1)
           (drop_bit 12 (?hi - bump_end s1)) else Some s1) = Some s2" "buddy_inv T M2 s2 L2 {} {}"
      "cover (fblocks L2) = cover (fblocks L1) \<union> ?B" "bump_base s2 = bump_base s" "bump_end s2 = bump_end s"
    proof (cases "bump_end s < ?hi")
      case True
      then show ?thesis
        using free_and_count_spec[OF 1(2) al(4,2) less_imp_le[OF True] hiT] dB' 1(4,5) that by auto
    qed (use 1 that in auto)
    have "phys_init_entry s m = Option.bind
        (if ?lo < bump_base w then free_and_count w ?lo (drop_bit 12 (bump_base w - ?lo)) else Some w)
        (\<lambda>s. if bump_end s < ?hi then free_and_count s (bump_end s) (drop_bit 12 (?hi - bump_end s))
             else Some s)"
      using ty lt br w(2,3) leD[OF less_imp_le[OF lt]]
      by (simp add: phys_init_entry_def Let_def entry_lo_def[symmetric] entry_hi_def[symmetric]
          w_def[symmetric] not_le[symmetric] del: not_le)
    also have "\<dots> = Some s2" using 1(1) 2(1) by (simp only: bind.simps)
    finally have "phys_init_entry s m = Some s2" .
    moreover have "cover (fblocks L2) = cover (fblocks L) \<union> (entry_bytes m - pool_bytes s)"
      unfolding 2(3) 1(3) split by (simp only: Un_assoc)
    ultimately show ?thesis using 2(2,4,5) by blast
  qed
qed

lemma phys_init_entries_spec:
  assumes "buddy_inv T M s L {} {}" and "pool_ok s"
    and "\<forall>m\<in>set ms. m_type m = ASD_MEM_FREE \<longrightarrow> unat (entry_hi m) \<le> T"
    and "\<forall>m\<in>set ms. entry_bytes m \<inter> cover (fblocks L) = {}"
    and "sorted_wrt (\<lambda>m m'. entry_bytes m \<inter> entry_bytes m' = {}) ms"
  shows "\<exists>M' s' L'. phys_init_entries s ms = Some s' \<and> buddy_inv T M' s' L' {} {} \<and>
    cover (fblocks L') = cover (fblocks L) \<union> ((\<Union>m\<in>set ms. entry_bytes m) - pool_bytes s)"
  using assms
proof (induction ms arbitrary: s L M)
  case Nil
  then show ?case by auto
next
  case (Cons m ms)
  obtain M1 s1 L1 where 1: "phys_init_entry s m = Some s1" "buddy_inv T M1 s1 L1 {} {}"
    "cover (fblocks L1) = cover (fblocks L) \<union> (entry_bytes m - pool_bytes s)"
    "bump_base s1 = bump_base s" "bump_end s1 = bump_end s"
    using phys_init_entry_spec[OF Cons.prems(1,2), of m] Cons.prems(3,4) by auto
  have d: "\<forall>m'\<in>set ms. entry_bytes m' \<inter> cover (fblocks L1) = {}"
    using Cons.prems(4,5) unfolding 1(3) by fastforce
  have p: "pool_ok s1" "pool_bytes s1 = pool_bytes s"
    using Cons.prems(2) 1(4,5) by (auto simp: pool_ok_def pool_bytes_def)
  obtain M2 s2 L2 where 2: "phys_init_entries s1 ms = Some s2" "buddy_inv T M2 s2 L2 {} {}"
    "cover (fblocks L2) = cover (fblocks L1) \<union> ((\<Union>m\<in>set ms. entry_bytes m) - pool_bytes s)"
    using Cons.IH[OF 1(2) p(1) _ d] Cons.prems(3,5) p(2) by auto
  have "cover (fblocks L2) = cover (fblocks L) \<union> ((\<Union>m\<in>set (m # ms). entry_bytes m) - pool_bytes s)"
    unfolding 2(3) 1(3) by auto
  with 1(1) 2 show ?case by auto
qed

lemma clear_g_phys_inv:
  assumes "\<not> early_boot s" and "T \<le> mem_limit"
    and "\<forall>f. unat f \<le> T div 4096 \<longrightarrow> page_infos s f \<noteq> None"
    and "\<forall>f pi. page_infos s f = Some pi \<longrightarrow> pi_flags pi AND PAGE_FREE = 0"
  shows "buddy_inv T {} (clear_g_phys s) (\<lambda>_. []) {} {}"
proof -
  have "fblocks (\<lambda>_. []) = {}" by (simp add: fblocks_def)
  then show ?thesis using assms
    by (auto simp: buddy_inv_def lists_ok_def infos_ok_def clear_g_phys_def tiled_def free_count_def cover_def
        nth_replicate simp del: replicate_Suc split: if_splits)
qed

text \<open>The number of free pages the state keeps is the number of free pages there are.\<close>

lemma finite_fblocks: "finite (fblocks L)"
proof -
  have "fblocks L \<subseteq> (\<Union>k\<le>MAX_ORDER. (\<lambda>p. (p, k)) ` set (L k))" by (auto simp: fblocks_def)
  then show ?thesis by (rule finite_subset) auto
qed

lemma fblocks_sum: "(\<Sum>b\<in>fblocks L. 2 ^ snd b) = (\<Sum>k\<le>MAX_ORDER. card (set (L k)) * (2::nat) ^ k)"
proof -
  have F: "fblocks L = (\<Union>k\<le>MAX_ORDER. (\<lambda>p. (p, k)) ` set (L k))" by (auto simp: fblocks_def)
  have "(\<Sum>b\<in>fblocks L. (2::nat) ^ snd b) =
        (\<Sum>k\<le>MAX_ORDER. \<Sum>b\<in>(\<lambda>p. (p, k)) ` set (L k). 2 ^ snd b)"
    unfolding F by (rule sum.UNION_disjoint) auto
  also have "\<dots> = (\<Sum>k\<le>MAX_ORDER. card (set (L k)) * 2 ^ k)"
    by (rule sum.cong) (auto simp: sum.reindex inj_on_def)
  finally show ?thesis .
qed

lemma card_cover_free:
  assumes inv: "buddy_inv T M s L A P"
  shows "card (cover (fblocks L)) = 4096 * free_count L"
proof -
  have t: "tiled T (fblocks L)"
    using inv by (auto simp: buddy_inv_def intro: tiled_subset)
  have "card (cover (fblocks L)) = (\<Sum>b\<in>fblocks L. card (extent b))"
    unfolding cover_def
  proof (rule card_UN_disjoint)
    show "\<forall>i\<in>fblocks L. finite (extent i)" by (simp add: extent_def)
    show "\<forall>i\<in>fblocks L. \<forall>j\<in>fblocks L. i \<noteq> j \<longrightarrow> extent i \<inter> extent j = {}"
      using t by (simp add: tiled_def pairwise_def disjnt_def)
  qed (rule finite_fblocks)
  also have "\<dots> = (\<Sum>b\<in>fblocks L. 4096 * 2 ^ snd b)"
    by (rule sum.cong) (simp_all add: extent_def bsize_def)
  also have "\<dots> = 4096 * (\<Sum>k\<le>MAX_ORDER. card (set (L k)) * 2 ^ k)"
    by (simp only: sum_distrib_left[symmetric] fblocks_sum)
  also have "(\<Sum>k\<le>MAX_ORDER. card (set (L k)) * 2 ^ k) = free_count L"
    unfolding free_count_def
    by (rule sum.cong) (use inv in \<open>auto simp: buddy_inv_def lists_ok_def distinct_card\<close>)
  finally show ?thesis .
qed

lemma free_pages_exact:
  assumes inv: "buddy_inv T M s L A P"
  shows "4096 * unat (free_pages s) = card (cover (fblocks L))"
proof -
  have "cover (fblocks L) \<subseteq> {..<T}"
    using inv by (auto simp: cover_def buddy_inv_def tiled_def block_ok_def extent_def dest: bspec)
  then have "card (cover (fblocks L)) \<le> T" using card_mono[of "{..<T}"] by fastforce
  moreover have "T \<le> mem_limit" using inv by (simp add: buddy_inv_def)
  ultimately have "free_count L < 2 ^ 64"
    using card_cover_free[OF inv] by (simp add: mem_limit_def)
  then have "unat (free_pages s) = free_count L"
    using inv by (simp add: buddy_inv_def lists_ok_def unat_of_nat)
  then show ?thesis using card_cover_free[OF inv] by simp
qed

end
