(* ===== verification/Block_Alloc.thy ===== *)
theory Block_Alloc
  imports Buddy_Init
begin

text \<open>
  The contract of a physical block allocator towards the rest of memory management (page
  tables, slabs, kernel stacks), its interpretation by amm_phys_alloc and amm_phys_free, and
  the properties of the allocator.
\<close>

unbundle bit_operations_syntax

subsection \<open>The contract\<close>

text \<open>
  Requests of a client that keeps the blocks it holds in a list: allocate a block of an order,
  or release the block at a position. An answer of zero to an allocation means no block.
\<close>

datatype mem_req = Get nat | Put nat

definition drop_nth :: "nat \<Rightarrow> 'a list \<Rightarrow> 'a list" where
  "drop_nth i xs = take i xs @ drop (Suc i) xs"

lemma set_drop_nth: "distinct xs \<Longrightarrow> i < length xs \<Longrightarrow> set (drop_nth i xs) = set xs - {xs ! i}"
proof -
  assume d: "distinct xs" and i: "i < length xs"
  define ys zs where "ys = take i xs" and "zs = drop (Suc i) xs"
  have x: "xs = ys @ xs ! i # zs" unfolding ys_def zs_def using i by (rule id_take_nth_drop)
  then have "distinct (ys @ xs ! i # zs)" using d by simp
  then have "set ys \<union> set zs = set (ys @ xs ! i # zs) - {xs ! i}" by auto
  also have "\<dots> = set xs - {xs ! i}" using x by metis
  finally show ?thesis by (simp add: drop_nth_def ys_def zs_def)
qed

lemma distinct_drop_nth: "distinct xs \<Longrightarrow> distinct (drop_nth i xs)"
  by (auto simp: drop_nth_def set_take_disj_set_drop_if_distinct)

fun mem_run :: "('s \<Rightarrow> nat \<Rightarrow> (u64 \<times> 's) option) \<Rightarrow> ('s \<Rightarrow> u64 \<Rightarrow> nat \<Rightarrow> 's option) \<Rightarrow>
    's \<Rightarrow> block list \<Rightarrow> mem_req list \<Rightarrow> ('s \<times> block list) option" where
  "mem_run al rel s held [] = Some (s, held)"
| "mem_run al rel s held (Get k # reqs) =
     Option.bind (al s k) (\<lambda>(p, s').
       mem_run al rel s' (if p = 0 then held else held @ [(p, k)]) reqs)"
| "mem_run al rel s held (Put i # reqs) =
     (if i < length held
      then Option.bind (rel s (fst (held ! i)) (snd (held ! i))) (\<lambda>s'.
             mem_run al rel s' (drop_nth i held) reqs)
      else mem_run al rel s held reqs)"

locale block_allocator =
  fixes al :: "'s \<Rightarrow> nat \<Rightarrow> (u64 \<times> 's) option"
    and rel :: "'s \<Rightarrow> u64 \<Rightarrow> nat \<Rightarrow> 's option"
    and ok :: "'s \<Rightarrow> block set \<Rightarrow> bool"
    and top :: nat
  assumes al_law: "ok s A \<Longrightarrow> \<exists>p s'. al s k = Some (p, s') \<and>
      (if p = 0 then s' = s else (p, k) \<notin> A \<and> ok s' (insert (p, k) A))"
    and rel_law: "ok s A \<Longrightarrow> (p, k) \<in> A \<Longrightarrow> \<exists>s'. rel s p k = Some s' \<and> ok s' (A - {(p, k)})"
    and ok_tiled: "ok s A \<Longrightarrow> tiled top A"
begin

lemma run_keeps:
  assumes "ok s (set held)" and "distinct held"
  shows "\<exists>s' held'. mem_run al rel s held reqs = Some (s', held') \<and> ok s' (set held') \<and>
    distinct held'"
  using assms
proof (induction reqs arbitrary: s held)
  case Nil
  then show ?case by simp
next
  case (Cons r reqs)
  show ?case
  proof (cases r)
    case (Get k)
    obtain p s' where a: "al s k = Some (p, s')"
      "if p = 0 then s' = s else (p, k) \<notin> set held \<and> ok s' (insert (p, k) (set held))"
      using al_law[OF Cons.prems(1)] by blast
    let ?h = "if p = 0 then held else held @ [(p, k)]"
    have "ok s' (set ?h)" "distinct ?h" using a(2) Cons.prems by (auto split: if_splits)
    from Cons.IH[OF this] a(1) Get show ?thesis by simp
  next
    case (Put i)
    show ?thesis
    proof (cases "i < length held")
      case True
      obtain p k where pk: "held ! i = (p, k)" by fastforce
      then have "(p, k) \<in> set held" using True nth_mem by metis
      from rel_law[OF Cons.prems(1) this] obtain s' where
        s': "rel s p k = Some s'" "ok s' (set held - {(p, k)})" by blast
      have "ok s' (set (drop_nth i held))"
        using s'(2) set_drop_nth[OF Cons.prems(2) True] pk by simp
      from Cons.IH[OF this distinct_drop_nth[OF Cons.prems(2)]] s'(1) Put True pk
      show ?thesis by simp
    next
      case False
      then show ?thesis using Cons Put by simp
    qed
  qed
qed

lemma run_disjoint:
  assumes "ok s {}" and "mem_run al rel s [] reqs = Some (s', held)"
    and "i < length held" and "j < length held" and "i \<noteq> j"
  shows "extent (held ! i) \<inter> extent (held ! j) = {}"
proof -
  have h: "ok s' (set held)" "distinct held"
    using run_keeps[of s "[]" reqs] assms(1,2) by auto
  have "held ! i \<noteq> held ! j" using h(2) assms(3-5) by (simp add: nth_eq_iff_index_eq)
  then show ?thesis
    using ok_tiled[OF h(1)] nth_mem[OF assms(3)] nth_mem[OF assms(4)]
    by (auto dest: tiled_disjoint)
qed

end

subsection \<open>The buddy system provides it\<close>

text \<open>
  Zero doubles as the out-of-memory answer, so the contract holds where frame 0 is not among
  the managed pages.
\<close>

definition buddy_ok :: "nat \<Rightarrow> nat set \<Rightarrow> phys_state \<Rightarrow> block set \<Rightarrow> bool" where
  "buddy_ok T M s A \<longleftrightarrow> 0 \<notin> M \<and> (\<exists>L. buddy_inv T M s L A {})"

lemma buddy_alloc_law:
  assumes "buddy_ok T M s A"
  shows "\<exists>p s'. amm_phys_alloc s k = Some (p, s') \<and>
      (if p = 0 then s' = s else (p, k) \<notin> A \<and> buddy_ok T M s' (insert (p, k) A))"
proof -
  obtain L where inv: "buddy_inv T M s L A {}" and z: "0 \<notin> M" using assms by (auto simp: buddy_ok_def)
  show ?thesis
  proof (cases "k \<le> MAX_ORDER \<and> \<not> oom L k")
    case False
    have "\<not> early_boot s" using inv by (simp add: buddy_inv_def lists_ok_def)
    then have "amm_phys_alloc s k = Some (0, s)"
      using False amm_phys_alloc_spec[OF inv, of k] by (cases "k \<le> MAX_ORDER") (auto simp: amm_phys_alloc_def)
    then show ?thesis by simp
  next
    case True
    then obtain p s' L' where p: "amm_phys_alloc s k = Some (p, s')"
      "buddy_inv T M s' L' (insert (p, k) A) {}" "\<exists>b\<in>fblocks L. extent (p, k) \<subseteq> extent b"
      using amm_phys_alloc_spec[OF inv, of k] by auto
    obtain b where b: "b \<in> fblocks L" "unat p \<in> extent b"
      using p(3) start_in_extent[of p k] by blast
    then have "unat p \<in> M" using inv by (auto simp: buddy_inv_def cover_def)
    then have "p \<noteq> 0" using z by auto
    moreover have "(p, k) \<notin> A"
    proof
      assume A: "(p, k) \<in> A"
      then have "b = (p, k)"
        using inv b tiled_disjoint[of T "fblocks L \<union> A \<union> {}" b "(p, k)" "unat p"]
        by (auto simp: buddy_inv_def)
      then show False using A b(1) inv by (auto simp: buddy_inv_def)
    qed
    ultimately show ?thesis using p z by (auto simp: buddy_ok_def)
  qed
qed

interpretation buddy: block_allocator amm_phys_alloc amm_phys_free "buddy_ok T M" T for T M
proof
  show "\<exists>p s'. amm_phys_alloc s k = Some (p, s') \<and>
      (if p = 0 then s' = s else (p, k) \<notin> A \<and> buddy_ok T M s' (insert (p, k) A))"
    if "buddy_ok T M s A" for s A k using that by (rule buddy_alloc_law)
  show "\<exists>s'. amm_phys_free s p k = Some s' \<and> buddy_ok T M s' (A - {(p, k)})"
    if "buddy_ok T M s A" "(p, k) \<in> A" for s A p k
    using that amm_phys_free_spec[of T M s _ A p k] by (auto simp: buddy_ok_def)
  show "tiled T A" if "buddy_ok T M s A" for s A
    using that by (auto simp: buddy_ok_def buddy_inv_def intro: tiled_subset)
qed

subsection \<open>A concrete memory\<close>

text \<open>
  Eight MiB of memory, all page-info entries mapped and clear, with a boot map of two free
  regions and a reserved one; the second region spans a bootstrap pool.
\<close>

definition blank_info :: page_info where
  "blank_info = \<lparr>pi_flags = 0, pi_order = 0, pi_refcount = 0, pi_map_count = 0, pi_reserved = 0\<rparr>"

definition demo_phys :: phys_state where
  "demo_phys = \<lparr>free_lists = [], free_pages = 0, total_pages = 0, phys_base = 0, phys_top = 0,
     early_boot = False, bump_base = 0x300000, bump_cur = 0x300000, bump_end = 0x400000,
     page_infos = (\<lambda>_. Some blank_info), pmem = (\<lambda>_. 0)\<rparr>"

definition demo_mmap :: "mmap_entry list" where
  "demo_mmap = [\<lparr>m_base = 0x1000, m_pages = 3, m_type = ASD_MEM_FREE\<rparr>,
     \<lparr>m_base = 0x10000, m_pages = 16, m_type = 1\<rparr>,
     \<lparr>m_base = 0x200000, m_pages = 0x600, m_type = ASD_MEM_FREE\<rparr>]"

lemmas demo_defs = demo_phys_def demo_mmap_def entry_bytes_def entry_lo_def entry_hi_def
  PAGE_ALIGN_def PAGE_ALIGN_DOWN_def ASD_MEM_FREE_def page_range_def pool_bytes_def

lemma demo_map_ok:
  "\<forall>m\<in>set demo_mmap. m_type m = ASD_MEM_FREE \<longrightarrow> unat (entry_hi m) \<le> 0x800000"
  "sorted_wrt (\<lambda>m m'. entry_bytes m \<inter> entry_bytes m' = {}) demo_mmap"
  "pool_ok demo_phys"
  by (simp_all add: demo_defs pool_ok_def)

lemma demo_infos_ok:
  "\<forall>f. unat f \<le> 0x800000 div 4096 \<longrightarrow> page_infos demo_phys f \<noteq> None"
  "\<forall>f pi. page_infos demo_phys f = Some pi \<longrightarrow> pi_flags pi AND PAGE_FREE = 0"
  by (auto simp: demo_phys_def blank_info_def)

lemma demo_inv: "\<exists>s L. amm_phys_init demo_phys demo_mmap = Some s \<and>
    buddy_inv 0x800000 ((\<Union>m\<in>set demo_mmap. entry_bytes m) - pool_bytes demo_phys) s L {} {}"
proof -
  let ?s = "clear_g_phys demo_phys"
  have i: "buddy_inv 0x800000 {} ?s (\<lambda>_. []) {} {}"
    using demo_infos_ok by (intro clear_g_phys_inv) (auto simp: mem_limit_def demo_phys_def)
  have p: "pool_ok ?s" "pool_bytes ?s = pool_bytes demo_phys"
    using demo_map_ok(3) by (simp_all add: pool_ok_def pool_bytes_def clear_g_phys_def)
  have e: "cover (fblocks (\<lambda>_. [])) = {}" by (simp add: cover_def fblocks_def)
  obtain M s' L where s': "phys_init_entries ?s demo_mmap = Some s'" "buddy_inv 0x800000 M s' L {} {}"
    "cover (fblocks L) = (\<Union>m\<in>set demo_mmap. entry_bytes m) - pool_bytes demo_phys"
    using phys_init_entries_spec[OF i p(1) demo_map_ok(1)] demo_map_ok(2) e p(2) by auto
  moreover have "M = cover (fblocks L)" using s'(2) by (simp add: buddy_inv_def)
  ultimately show ?thesis unfolding amm_phys_init_def by auto
qed

abbreviation demo_mem :: "nat set" where
  "demo_mem \<equiv> (\<Union>m\<in>set demo_mmap. entry_bytes m) - pool_bytes demo_phys"

lemma demo_mem_bounds: "0x1000 \<in> demo_mem" "0 \<notin> demo_mem"
  by (simp_all add: demo_defs)

lemma demo_not_oom: "buddy_inv T demo_mem s L {} {} \<Longrightarrow> \<not> oom L 0"
proof -
  assume i: "buddy_inv T demo_mem s L {} {}"
  then have "0x1000 \<in> cover (fblocks L)" using demo_mem_bounds(1) by (simp add: buddy_inv_def)
  then obtain q k where "(q, k) \<in> fblocks L" by (auto simp: cover_def)
  then show ?thesis by (auto simp: fblocks_def oom_def)
qed

lemma demo_alloc: "\<exists>s s' L' p. amm_phys_init demo_phys demo_mmap = Some s \<and>
    amm_phys_alloc s 0 = Some (p, s') \<and> buddy_inv 0x800000 demo_mem s' L' {(p, 0)} {}"
proof -
  obtain s L where s: "amm_phys_init demo_phys demo_mmap = Some s"
    "buddy_inv 0x800000 demo_mem s L {} {}" using demo_inv by blast
  then show ?thesis
    using amm_phys_alloc_spec[OF s(2), of 0] demo_not_oom[OF s(2)] by auto
qed

subsection \<open>Properties\<close>

text \<open>
  C8: amm_phys_init on a memory map whose free entries do not overlap, with the page-info
  array mapped and clear, terminates without a fault and sets up a buddy system whose free
  blocks cover exactly the pages of the free entries minus the bootstrap pool, with
  free_pages equal to the number of those pages.
\<close>

theorem amm_phys_init_correct:
  assumes "\<not> early_boot s" and "T \<le> mem_limit" and "pool_ok s"
    and "\<forall>f. unat f \<le> T div 4096 \<longrightarrow> page_infos s f \<noteq> None"
    and "\<forall>f pi. page_infos s f = Some pi \<longrightarrow> pi_flags pi AND PAGE_FREE = 0"
    and "\<forall>m\<in>set mmap. m_type m = ASD_MEM_FREE \<longrightarrow> unat (entry_hi m) \<le> T"
    and "sorted_wrt (\<lambda>m m'. entry_bytes m \<inter> entry_bytes m' = {}) mmap"
  shows "\<exists>s' L. amm_phys_init s mmap = Some s' \<and>
    buddy_inv T ((\<Union>m\<in>set mmap. entry_bytes m) - pool_bytes s) s' L {} {} \<and>
    4096 * unat (free_pages s') = card ((\<Union>m\<in>set mmap. entry_bytes m) - pool_bytes s)"
proof -
  let ?s = "clear_g_phys s"
  have i: "buddy_inv T {} ?s (\<lambda>_. []) {} {}" using assms(1,2,4,5) by (rule clear_g_phys_inv)
  have p: "pool_ok ?s" "pool_bytes ?s = pool_bytes s"
    using assms(3) by (simp_all add: pool_ok_def pool_bytes_def clear_g_phys_def)
  have e: "cover (fblocks (\<lambda>_. [])) = {}" by (simp add: cover_def fblocks_def)
  obtain M s' L where s': "phys_init_entries ?s mmap = Some s'" "buddy_inv T M s' L {} {}"
    "cover (fblocks L) = (\<Union>m\<in>set mmap. entry_bytes m) - pool_bytes s"
    using phys_init_entries_spec[OF i p(1) assms(6)] assms(7) e p(2) by auto
  moreover have "M = cover (fblocks L)" using s'(2) by (simp add: buddy_inv_def)
  ultimately show ?thesis
    using free_pages_exact[OF s'(2)] unfolding amm_phys_init_def by metis
qed

theorem amm_phys_init_correct_witness:
  "\<exists>s' L. amm_phys_init demo_phys demo_mmap = Some s' \<and>
    buddy_inv 0x800000 ((\<Union>m\<in>set demo_mmap. entry_bytes m) - pool_bytes demo_phys) s' L {} {} \<and>
    4096 * unat (free_pages s') = card ((\<Union>m\<in>set demo_mmap. entry_bytes m) - pool_bytes demo_phys)"
  by (rule amm_phys_init_correct)
    (use demo_map_ok demo_infos_ok in \<open>auto simp: mem_limit_def demo_phys_def\<close>)



text \<open>
  C2: releasing an allocated block never faults and always terminates: the walk of the
  intrusive list finds the buddy, blocks merge with a buddy only if it is really free, and the
  result is a well-formed buddy system over the same memory in which that block, and no other,
  stopped being allocated.
\<close>

theorem amm_phys_free_correct:
  assumes "buddy_inv T M s L A {}" and "(p, k) \<in> A"
  shows "\<exists>s' L'. amm_phys_free s p k = Some s' \<and> buddy_inv T M s' L' (A - {(p, k)}) {}"
  using assms by (rule amm_phys_free_spec)

theorem amm_phys_free_correct_witness:
  "\<exists>s s1 s2 L p. amm_phys_init demo_phys demo_mmap = Some s \<and>
    amm_phys_alloc s 0 = Some (p, s1) \<and> amm_phys_free s1 p 0 = Some s2 \<and>
    buddy_inv 0x800000 demo_mem s2 L {} {}"
proof -
  obtain s s1 L p where s: "amm_phys_init demo_phys demo_mmap = Some s"
    "amm_phys_alloc s 0 = Some (p, s1)" "buddy_inv 0x800000 demo_mem s1 L {(p, 0)} {}"
    using demo_alloc by blast
  from amm_phys_free_correct[OF s(3), of p 0] s(1,2) show ?thesis by auto
qed

text \<open>
  C4: after any sequence of allocations and releases by clients that release only what they
  hold, starting from a well-formed buddy system in which frame 0 is not managed, no operation
  faults and the blocks held are pairwise disjoint.
\<close>

theorem phys_blocks_never_overlap:
  assumes "0 \<notin> M" and "buddy_inv T M s L {} {}"
  shows "\<exists>s' held. mem_run amm_phys_alloc amm_phys_free s [] reqs = Some (s', held) \<and>
    (\<forall>i<length held. \<forall>j<length held. i \<noteq> j \<longrightarrow> extent (held ! i) \<inter> extent (held ! j) = {})"
proof -
  have ok: "buddy_ok T M s (set [])" using assms by (auto simp: buddy_ok_def)
  obtain s' held where r: "mem_run amm_phys_alloc amm_phys_free s [] reqs = Some (s', held)"
    using buddy.run_keeps[OF ok distinct.simps(1)[THEN iffD2, OF TrueI]] by blast
  have "extent (held ! i) \<inter> extent (held ! j) = {}" if "i < length held" "j < length held" "i \<noteq> j" for i j
    using buddy.run_disjoint[OF _ r that] ok by simp
  with r show ?thesis by blast
qed

theorem phys_blocks_never_overlap_witness:
  "\<exists>s s' held. amm_phys_init demo_phys demo_mmap = Some s \<and>
    mem_run amm_phys_alloc amm_phys_free s [] [Get 0, Get 1, Get 9, Put 1, Get 3] = Some (s', held) \<and>
    (\<forall>i<length held. \<forall>j<length held. i \<noteq> j \<longrightarrow> extent (held ! i) \<inter> extent (held ! j) = {})"
proof -
  obtain s L where s: "amm_phys_init demo_phys demo_mmap = Some s"
    "buddy_inv 0x800000 demo_mem s L {} {}" using demo_inv by blast
  from phys_blocks_never_overlap[OF demo_mem_bounds(2) s(2)] s(1) show ?thesis by blast
qed

text \<open>
  C15: a free block at physical address 0 is lost on its allocation: amm_phys_alloc removes it
  from its list and from free_pages, and returns 0, the answer that callers take for out of
  memory.
\<close>

theorem amm_phys_alloc_frame_zero:
  assumes "buddy_inv T M s L A {}" and "L 0 = 0 # ps"
  shows "\<exists>s' L'. amm_phys_alloc s 0 = Some (0, s') \<and> buddy_inv T M s' L' (insert (0, 0) A) {} \<and>
    free_pages s' = free_pages s - 1"
proof -
  have h: "free_lists s ! 0 = PHYS_MAP_BASE" and e: "\<not> early_boot s"
    using assms by (auto simp: buddy_inv_def lists_ok_def dest!: spec[of _ 0])
  have nz: "PHYS_MAP_BASE \<noteq> 0" by (simp add: PHYS_MAP_BASE_def)
  have "\<not> oom L 0" using assms(2) by (auto simp: oom_def)
  then obtain p s' L' where p: "amm_phys_alloc s 0 = Some (p, s')"
    "buddy_inv T M s' L' (insert (p, 0) A) {}"
    using amm_phys_alloc_spec[OF assms(1), of 0] by auto
  moreover have "p = 0" "free_pages s' = free_pages s - 1"
    using p(1) h e nz
    by (auto simp: amm_phys_alloc_def alloc_scan.simps[of s 0 0] virt_to_phys_def mark_alloc_def
        Let_def split: option.splits)
  ultimately show ?thesis by auto
qed

definition zero_frame :: phys_state where
  "zero_frame = demo_phys\<lparr>free_lists := PHYS_MAP_BASE # replicate 18 0, free_pages := 1,
     page_infos := (\<lambda>_. Some blank_info)(0 \<mapsto> blank_info\<lparr>pi_flags := PAGE_FREE\<rparr>)\<rparr>"

lemma zero_frame_inv:
  "buddy_inv 0x1000 {0..<0x1000} zero_frame ((\<lambda>_. [])(0 := [0])) {} {}"
proof -
  let ?L = "(\<lambda>_. [])(0 := [0]) :: nat \<Rightarrow> u64 list"
  have F: "fblocks ?L = {(0, 0)}" by (auto simp: fblocks_def split: if_splits)
  have c: "free_count ?L = 1"
    unfolding free_count_def by (simp add: sum.remove[of "{..18}" 0])
  have l: "lists_ok zero_frame ?L"
    unfolding lists_ok_def c
    by (auto simp: zero_frame_def demo_phys_def PHYS_MAP_BASE_def nth_Cons' simp del: replicate_Suc)
  have "infos_ok 0x1000 zero_frame {(0, 0)} {} {(0, 0)}"
    unfolding infos_ok_def
    by (auto simp: info_is_def zero_frame_def pfn_def blank_info_def cover_def extent_def bsize_def
        PAGE_FREE_def split: if_splits dest!: arg_cong[of _ 0 unat])
       (simp add: drop_bit_eq_div unat_div)
  then show ?thesis
    using l by (simp add: buddy_inv_def F tiled_def block_ok_def mem_limit_def cover_def extent_def bsize_def)
qed

theorem amm_phys_alloc_frame_zero_witness:
  "\<exists>s'. amm_phys_alloc zero_frame 0 = Some (0, s') \<and> free_pages zero_frame = 1 \<and> free_pages s' = 0"
  using amm_phys_alloc_frame_zero[OF zero_frame_inv, of "[]"] by (auto simp: zero_frame_def)

end
