(* ===== verification/Frame_Store.thy ===== *)
theory Frame_Store
  imports Block_Alloc
begin

text \<open>
  The contract of the block allocator extended by the memory behind the blocks: allocation
  leaves the contents of allocated blocks alone, and writing inside an allocated block does
  not disturb the allocator. Page tables and other clients that keep data in frames rely on it.
\<close>

unbundle bit_operations_syntax

locale frame_store = block_allocator +
  fixes mem :: "'a \<Rightarrow> u64 \<Rightarrow> u64" and set_mem :: "'a \<Rightarrow> (u64 \<Rightarrow> u64) \<Rightarrow> 'a"
  assumes mem_set: "mem (set_mem s m) = m"
    and set_ok: "ok s A \<Longrightarrow> (\<And>x. unat x \<notin> cover A \<Longrightarrow> m x = mem s x) \<Longrightarrow> ok (set_mem s m) A"
    and al_frame: "ok s A \<Longrightarrow> al s k = Some (p, s') \<Longrightarrow> unat x \<in> cover A \<Longrightarrow> mem s' x = mem s x"
begin

text \<open>A block obtained from the allocator is disjoint from the data kept before.\<close>

lemma al_fresh_cell:
  assumes "ok s A" and "al s k = Some (p, s')" and "p \<noteq> 0" and "n \<in> extent (p, k)"
  shows "n \<notin> cover A"
proof -
  have n: "(p, k) \<notin> A" and o: "ok s' (insert (p, k) A)"
    using al_law[OF assms(1), of k] assms(2,3) by auto
  have "extent (p, k) \<inter> cover A = {}" using ok_tiled[OF o] n by (rule tiled_insertD)
  then show ?thesis using assms(4) by blast
qed

text \<open>
  Taking a block and initialising it: the contents of the blocks held before stay, the block
  has the contents written.
\<close>

lemma al_init:
  assumes o: "ok s A" and a: "al s k = Some (p, s')" and p: "p \<noteq> 0"
    and m: "\<And>x. unat x \<notin> extent (p, k) \<Longrightarrow> m x = mem s' x"
  shows "ok (set_mem s' m) (insert (p, k) A)" and "unat x \<in> cover A \<Longrightarrow> m x = mem s x"
proof -
  have "ok s' (insert (p, k) A)" using al_law[OF o, of k] a p by auto
  then show "ok (set_mem s' m) (insert (p, k) A)"
    by (rule set_ok) (use m in \<open>auto simp: cover_insert\<close>)
  show "m x = mem s x" if "unat x \<in> cover A"
    using that al_fresh_cell[OF o a p, of "unat x"] m[of x] al_frame[OF o a that] by auto
qed

end

subsection \<open>The buddy system provides it\<close>

definition with_mem :: "phys_state \<Rightarrow> (u64 \<Rightarrow> u64) \<Rightarrow> phys_state" where
  "with_mem s m = s\<lparr>pmem := m\<rparr>"

lemma phys_free_block_mem:
  assumes "phys_free_block s p k = Some s'" and "\<not> early_boot s" and "x \<noteq> p"
  shows "pmem s' x = pmem s x" and "\<not> early_boot s'"
  using assms by (auto simp: phys_free_block_def Let_def kva_pa_def phys_to_virt_def
      split: option.splits if_splits)

lemma split_down_mem:
  assumes "split_down s p k order = Some s'" and "\<not> early_boot s"
    and "k \<le> MAX_ORDER" and "bsize k dvd unat p" and "unat x \<notin> extent (p, k)"
  shows "pmem s' x = pmem s x"
  using assms
proof (induction s p k order arbitrary: s' rule: split_down.induct)
  case (1 s p order)
  then show ?case by simp
next
  case (2 s p k order)
  show ?case
  proof (cases "Suc k > order")
    case False
    then show ?thesis using "2.prems"(1) by simp
  next
    case True
    then obtain s1 where s1: "phys_free_block s (buddy_of p k) k = Some s1"
      "split_down s1 p k order = Some s'" using "2.prems"(1) by (auto split: bind_splits)
    have k: "k \<le> MAX_ORDER" using "2.prems"(3) by simp
    note e = extent_halves[OF k "2.prems"(4)]
    have out: "unat x \<notin> extent (p, k)" "unat x \<notin> extent (buddy_of p k, k)"
      using "2.prems"(5) e(1) by auto
    have "x \<noteq> buddy_of p k" using out(2) start_in_extent[of "buddy_of p k" k] by auto
    note m = phys_free_block_mem[OF s1(1) "2.prems"(2) this]
    have "bsize k dvd bsize (Suc k)" by (rule bsize_dvd) simp
    then have "bsize k dvd unat p" using "2.prems"(4) by (rule dvd_trans)
    then have "pmem s' x = pmem s1 x"
      using True s1 m(2) k out(1) by (intro "2.IH") auto
    then show ?thesis using m(1) by simp
  qed
qed

lemma alloc_scan_mem:
  assumes "buddy_inv T M s L A {}" and "alloc_scan s k order = Some (p, s')" and "unat x \<in> cover A"
  shows "pmem s' x = pmem s x"
  using assms
proof (induction s k order arbitrary: p s' rule: alloc_scan.induct)
  case (1 s k order)
  show ?case
  proof (cases "k > MAX_ORDER")
    case True
    then show ?thesis using "1.prems"(2) by (subst (asm) alloc_scan.simps) simp
  next
    case k: False
    show ?thesis
    proof (cases "free_lists s ! k = 0")
      case True
      have "alloc_scan s (Suc k) order = Some (p, s')"
        using k True "1.prems"(2) by (subst (asm) alloc_scan.simps) simp
      then show ?thesis by (rule "1.IH"[OF k refl True "1.prems"(1) _ "1.prems"(3)])
    next
      case h: False
      let ?s = "s\<lparr>free_lists := (free_lists s)[k := pmem s (kva_pa s (free_lists s ! k))],
              free_pages := free_pages s - push_bit k 1\<rparr>"
      obtain q ps where q: "L k = q # ps" "virt_to_phys (free_lists s ! k) = q"
        using inv_pop[OF "1.prems"(1) _ h] k by auto
      then have b: "(q, k) \<in> fblocks L" using k by (simp add: fblocks_def)
      have t: "tiled T (fblocks L \<union> A)" and d: "fblocks L \<inter> A = {}" and e: "\<not> early_boot s"
        using "1.prems"(1) by (simp_all add: buddy_inv_def lists_ok_def)
      have ok: "block_ok T (q, k)" using t b by (intro tiled_ok[OF t]) simp
      have "(q, k) \<notin> A" using b d by blast
      then have "extent (q, k) \<inter> cover A = {}"
        using b by (intro tiled_insertD[of T]) (auto intro: tiled_subset[OF t])
      then have out: "unat x \<notin> extent (q, k)" using "1.prems"(3) by blast
      have "alloc_scan s k order = Option.bind (split_down ?s q k order) (\<lambda>s.
          Option.bind (mark_alloc s q order) (\<lambda>s. Some (q, s)))"
        using k h q(2) by (subst alloc_scan.simps) (simp add: Let_def)
      then obtain s2 s3 where s: "split_down ?s q k order = Some s2" "mark_alloc s2 q order = Some s3"
        "s' = s3" using "1.prems"(2) by (auto split: bind_splits)
      have "pmem s2 x = pmem ?s x"
        using s(1) e ok out by (intro split_down_mem[OF s(1)]) (auto simp: block_ok_def)
      moreover have "pmem s3 = pmem s2" using s(2) by (auto simp: mark_alloc_def split: option.splits)
      ultimately show ?thesis using s(3) by simp
    qed
  qed
qed

lemma amm_phys_alloc_mem:
  assumes "buddy_ok T M s A" and "amm_phys_alloc s k = Some (p, s')" and "unat x \<in> cover A"
  shows "pmem s' x = pmem s x"
proof -
  obtain L where i: "buddy_inv T M s L A {}" using assms(1) by (auto simp: buddy_ok_def)
  then have "\<not> early_boot s" by (simp add: buddy_inv_def lists_ok_def)
  then show ?thesis
    using assms(2) alloc_scan_mem[OF i _ assms(3)] by (auto simp: amm_phys_alloc_def split: if_splits)
qed

lemma with_mem_ok:
  assumes "buddy_ok T M s A" and m: "\<And>x. unat x \<notin> cover A \<Longrightarrow> m x = pmem s x"
  shows "buddy_ok T M (with_mem s m) A"
proof -
  obtain L where i: "buddy_inv T M s L A {}" and z: "0 \<notin> M" using assms(1) by (auto simp: buddy_ok_def)
  have t: "tiled T (fblocks L \<union> A)" and d: "fblocks L \<inter> A = {}"
    using i by (simp_all add: buddy_inv_def)
  have same: "m x = pmem s x" if "k \<le> MAX_ORDER" "x \<in> set (L k)" for k x
  proof (rule m, rule)
    assume "unat x \<in> cover A"
    then obtain y where y: "y \<in> A" "unat x \<in> extent y" by (auto simp: cover_def)
    have b: "(x, k) \<in> fblocks L" using that by (simp add: fblocks_def)
    have "(x, k) = y" using tiled_disjoint[OF t _ _ start_in_extent y(2)] b y(1) by blast
    then show False using b y(1) d by blast
  qed
  have "chain m (free_lists s ! k) (L k)" if "k \<le> MAX_ORDER" for k
  proof -
    have "chain (pmem s) (free_lists s ! k) (L k)" using i that by (simp add: buddy_inv_def lists_ok_def)
    then show ?thesis using chain_cong[of "L k" m "pmem s"] same[OF that] by blast
  qed
  then have "lists_ok (with_mem s m) L"
    using i by (simp add: buddy_inv_def lists_ok_def with_mem_def)
  then have "buddy_inv T M (with_mem s m) L A {}"
    using i by (simp add: buddy_inv_def infos_ok_def info_is_def with_mem_def)
  then show ?thesis using z by (auto simp: buddy_ok_def)
qed

interpretation frames: frame_store amm_phys_alloc amm_phys_free "buddy_ok T M" T pmem with_mem for T M
proof
  show "pmem (with_mem s m) = m" for s m by (simp add: with_mem_def)
  show "buddy_ok T M (with_mem s m) A"
    if "buddy_ok T M s A" "\<And>x. unat x \<notin> cover A \<Longrightarrow> m x = pmem s x" for s A m
    using that by (rule with_mem_ok)
  show "pmem s' x = pmem s x" if "buddy_ok T M s A" "amm_phys_alloc s k = Some (p, s')" "unat x \<in> cover A"
    for s A k p s' x using that by (rule amm_phys_alloc_mem)
qed

end
