(* ===== verification/Region.thy ===== *)
theory Region
  imports Buddy
begin

text \<open>
  The address-space regions of kernel/mm/mm.c: the sorted list of a vmap with insertion,
  removal and lookup, on 64-bit addresses. The doubly linked list is the HOL list of its
  nodes from the head; nodes come from a fixed pool that only grows, kept as the number of
  nodes handed out.
\<close>

unbundle bit_operations_syntax

subsection \<open>Model\<close>

record vregion =
  r_base :: u64
  r_size :: u64
  r_prot :: int
  r_kind :: int
  r_fd :: int

record vmap =
  regions :: "vregion list"
  cr3 :: u64
  region_count :: u32

definition MAX_REGIONS :: nat where "MAX_REGIONS = 1024 * 16"

text \<open>A pool is the number of region nodes handed out so far.\<close>

definition region_alloc :: "nat \<Rightarrow> nat option" where
  "region_alloc used = (if used \<ge> MAX_REGIONS then None else Some (Suc used))"

fun overlaps_from :: "u64 \<Rightarrow> u64 \<Rightarrow> vregion list \<Rightarrow> bool" where
  "overlaps_from base fin [] = False"
| "overlaps_from base fin (r # rs) =
     (let r_end = r_base r + r_size r in
      if r_end \<le> r_base r then True
      else if base < r_end \<and> fin > r_base r then True
      else if r_base r \<ge> fin then False
      else overlaps_from base fin rs)"

definition amm_region_overlaps :: "vmap option \<Rightarrow> u64 \<Rightarrow> u64 \<Rightarrow> bool" where
  "amm_region_overlaps mp base sz =
     (case mp of
        None \<Rightarrow> False
      | Some m \<Rightarrow>
          if sz = 0 then False
          else let fin = base + sz in
            if fin \<le> base then True else overlaps_from base fin (regions m))"

fun insert_after :: "vregion \<Rightarrow> vregion list \<Rightarrow> vregion list" where
  "insert_after nr [] = [nr]"
| "insert_after nr [cur] = [cur, nr]"
| "insert_after nr (cur # nxt # rs) =
     (if r_base nxt < r_base nr then cur # insert_after nr (nxt # rs)
      else cur # nr # nxt # rs)"

fun region_insert :: "vregion \<Rightarrow> vregion list \<Rightarrow> vregion list" where
  "region_insert nr [] = [nr]"
| "region_insert nr (h # rs) =
     (if r_base h > r_base nr then nr # h # rs else insert_after nr (h # rs))"

definition amm_region_add ::
  "nat \<Rightarrow> vmap option \<Rightarrow> u64 \<Rightarrow> u64 \<Rightarrow> int \<Rightarrow> int \<Rightarrow> int \<Rightarrow> int \<times> nat \<times> vmap option" where
  "amm_region_add used mp base sz prot kind fd =
     (case mp of
        None \<Rightarrow> (-1, used, mp)
      | Some m \<Rightarrow>
          if sz = 0 then (-1, used, mp)
          else if amm_region_overlaps mp base sz then (-1, used, mp)
          else
            (case region_alloc used of
               None \<Rightarrow> (-1, used, mp)
             | Some used' \<Rightarrow>
                 let nr = \<lparr>r_base = base, r_size = sz, r_prot = prot, r_kind = kind, r_fd = fd\<rparr>
                 in (0, used', Some (m\<lparr>regions := region_insert nr (regions m),
                                       region_count := region_count m + 1\<rparr>))))"

fun remove_base :: "u64 \<Rightarrow> vregion list \<Rightarrow> vregion list option" where
  "remove_base base [] = None"
| "remove_base base (r # rs) =
     (if r_base r \<noteq> base then map_option ((#) r) (remove_base base rs) else Some rs)"

definition amm_region_remove :: "vmap \<Rightarrow> u64 \<Rightarrow> int \<times> vmap" where
  "amm_region_remove m base =
     (case remove_base base (regions m) of
        None \<Rightarrow> (-1, m)
      | Some rs \<Rightarrow> (0, m\<lparr>regions := rs, region_count := region_count m - 1\<rparr>))"

fun find_from :: "u64 \<Rightarrow> vregion list \<Rightarrow> vregion option" where
  "find_from addr [] = None"
| "find_from addr (r # rs) =
     (if addr \<ge> r_base r \<and> addr < r_base r + r_size r then Some r
      else if r_base r > addr then None
      else find_from addr rs)"

definition amm_region_find :: "vmap \<Rightarrow> u64 \<Rightarrow> vregion option" where
  "amm_region_find m addr = find_from addr (regions m)"

subsection \<open>Invariant\<close>

definition r_end :: "vregion \<Rightarrow> u64" where
  "r_end r = r_base r + r_size r"

definition region_ok :: "vregion \<Rightarrow> bool" where
  "region_ok r \<longleftrightarrow> r_base r < r_end r"

definition in_region :: "u64 \<Rightarrow> vregion \<Rightarrow> bool" where
  "in_region a r \<longleftrightarrow> r_base r \<le> a \<and> a < r_end r"

definition regions_ok :: "vregion list \<Rightarrow> bool" where
  "regions_ok rs \<longleftrightarrow> (\<forall>r\<in>set rs. region_ok r) \<and> sorted_wrt (\<lambda>r r'. r_end r \<le> r_base r') rs"

definition vmap_wf :: "vmap \<Rightarrow> bool" where
  "vmap_wf m \<longleftrightarrow> regions_ok (regions m) \<and> region_count m = of_nat (length (regions m))"

lemma regions_ok_Cons: "regions_ok (r # rs) \<longleftrightarrow>
    region_ok r \<and> (\<forall>r'\<in>set rs. r_end r \<le> r_base r') \<and> regions_ok rs"
  by (auto simp: regions_ok_def)

lemma overlaps_from_iff:
  assumes "regions_ok rs" and "base < fin"
  shows "overlaps_from base fin rs \<longleftrightarrow> (\<exists>r\<in>set rs. base < r_end r \<and> r_base r < fin)"
  using assms(1)
proof (induction rs)
  case Nil
  then show ?case by simp
next
  case (Cons r rs)
  then have ok: "region_ok r" "\<forall>r'\<in>set rs. r_end r \<le> r_base r'" "regions_ok rs"
    by (auto simp: regions_ok_Cons)
  have "\<not> (\<exists>r'\<in>set rs. r_base r' < fin)" if "fin \<le> r_base r"
    using ok(1,2) that by (force simp: region_ok_def)
  then show ?case
    using Cons.IH[OF ok(3)] ok(1) by (auto simp: Let_def r_end_def region_ok_def)
qed

text \<open>Two proper intervals meet exactly when they share an address.\<close>

lemma intervals_meet:
  fixes a b c d :: u64
  assumes "a < b" and "c < d"
  shows "a < d \<and> c < b \<longleftrightarrow> (\<exists>x. a \<le> x \<and> x < b \<and> c \<le> x \<and> x < d)"
proof
  assume "a < d \<and> c < b"
  then show "\<exists>x. a \<le> x \<and> x < b \<and> c \<le> x \<and> x < d"
    using assms by (intro exI[of _ "max a c"]) (auto simp: max_def)
qed auto

lemma find_from_iff:
  assumes "regions_ok rs"
  shows "find_from a rs = Some r \<longleftrightarrow> r \<in> set rs \<and> in_region a r"
  using assms
proof (induction rs)
  case Nil
  then show ?case by simp
next
  case (Cons r' rs)
  then have ok: "region_ok r'" "\<forall>x\<in>set rs. r_end r' \<le> r_base x" "regions_ok rs"
    by (auto simp: regions_ok_Cons)
  have 1: "\<not> in_region a r" if "r \<in> set rs" "in_region a r'"
    using ok(2) that by (force simp: in_region_def)
  have 2: "\<not> in_region a r" if "r \<in> set rs" "a < r_base r'"
    using ok(1,2) that by (force simp: in_region_def region_ok_def)
  show ?case
  proof (cases "in_region a r'")
    case True
    then have "find_from a (r' # rs) = Some r'" by (simp add: in_region_def r_end_def)
    then show ?thesis using True 1 by auto
  next
    case False
    then show ?thesis
      using Cons.IH[OF ok(3)] 2 by (auto simp: in_region_def r_end_def not_le)
  qed
qed

lemma set_insert_after: "set (insert_after nr rs) = insert nr (set rs)"
  by (induction nr rs rule: insert_after.induct) auto

lemma set_region_insert: "set (region_insert nr rs) = insert nr (set rs)"
  by (cases rs) (auto simp: set_insert_after)

lemma length_insert_after: "length (insert_after nr rs) = Suc (length rs)"
  by (induction nr rs rule: insert_after.induct) auto

lemma length_region_insert: "length (region_insert nr rs) = Suc (length rs)"
  by (cases rs) (auto simp: length_insert_after)

definition apart :: "vregion \<Rightarrow> vregion \<Rightarrow> bool" where
  "apart r r' \<longleftrightarrow> r_end r \<le> r_base r' \<or> r_end r' \<le> r_base r"

lemma insert_after_ok:
  assumes "regions_ok (h # rs)" and "region_ok nr" and "\<forall>r\<in>set (h # rs). apart nr r"
    and "r_base h \<le> r_base nr"
  shows "regions_ok (insert_after nr (h # rs))"
  using assms
proof (induction rs arbitrary: h)
  case Nil
  then show ?case by (auto simp: regions_ok_Cons regions_ok_def apart_def region_ok_def)
next
  case (Cons n rs)
  have h: "r_end h \<le> r_base nr"
    using Cons.prems by (auto simp: regions_ok_Cons apart_def region_ok_def)
  show ?case
  proof (cases "r_base n < r_base nr")
    case True
    have "regions_ok (insert_after nr (n # rs))"
      using Cons.prems True by (intro Cons.IH) (auto simp: regions_ok_Cons)
    then show ?thesis
      using True h Cons.prems(1) by (auto simp: regions_ok_Cons set_insert_after)
  next
    case False
    then have n: "r_end nr \<le> r_base n"
      using Cons.prems by (auto simp: regions_ok_Cons apart_def region_ok_def)
    have "\<forall>r\<in>set rs. r_end nr \<le> r_base r"
      using n Cons.prems(1) by (force simp: regions_ok_Cons region_ok_def)
    then show ?thesis
      using False h n Cons.prems(1,2) by (auto simp: regions_ok_Cons)
  qed
qed

lemma region_insert_ok:
  assumes "regions_ok rs" and "region_ok nr" and "\<forall>r\<in>set rs. apart nr r"
  shows "regions_ok (region_insert nr rs)"
proof (cases rs)
  case Nil
  then show ?thesis using assms(2) by (simp add: regions_ok_Cons regions_ok_def)
next
  case (Cons h rs')
  show ?thesis
  proof (cases "r_base h > r_base nr")
    case False
    then show ?thesis using assms Cons insert_after_ok by auto
  next
    case True
    then have h: "r_end nr \<le> r_base h"
      using assms Cons by (auto simp: regions_ok_Cons apart_def region_ok_def)
    have "\<forall>r\<in>set rs'. r_end nr \<le> r_base r"
      using h assms(1) Cons by (force simp: regions_ok_Cons region_ok_def)
    then show ?thesis using assms(1,2) h True Cons by (simp add: regions_ok_Cons)
  qed
qed

lemma remove_base_spec:
  assumes "regions_ok rs"
  shows "case remove_base base rs of
      None \<Rightarrow> \<forall>r\<in>set rs. r_base r \<noteq> base
    | Some rs' \<Rightarrow> \<exists>r\<in>set rs. r_base r = base \<and> set rs' = set rs - {r} \<and> regions_ok rs' \<and>
        length rs = Suc (length rs')"
  using assms
proof (induction rs)
  case Nil
  then show ?case by simp
next
  case (Cons r rs)
  then have ok: "region_ok r" "\<forall>x\<in>set rs. r_end r \<le> r_base x" "regions_ok rs"
    by (auto simp: regions_ok_Cons)
  have ne: "r \<notin> set rs" using ok(1,2) by (force simp: region_ok_def)
  show ?case
  proof (cases "r_base r = base")
    case True
    then show ?thesis using ok ne by auto
  next
    case False
    show ?thesis
    proof (cases "remove_base base rs")
      case None
      then show ?thesis using Cons.IH[OF ok(3)] False by simp
    next
      case (Some rs')
      then obtain x where x: "x \<in> set rs" "r_base x = base" "set rs' = set rs - {x}"
        "regions_ok rs'" "length rs = Suc (length rs')"
        using Cons.IH[OF ok(3)] by auto
      have "regions_ok (r # rs')" using ok(1,2) x(3,4) by (simp add: regions_ok_Cons)
      moreover have "set (r # rs') = set (r # rs) - {x}" using x(1,3) ne by auto
      ultimately show ?thesis using Some False x by auto
    qed
  qed
qed

subsection \<open>Properties\<close>

lemma region_find_ext:
  assumes "regions_ok rs" and "regions_ok rs'"
    and "\<And>r. r \<in> set rs' \<and> in_region a r \<longleftrightarrow> r \<in> set rs \<and> in_region a r"
  shows "find_from a rs' = find_from a rs"
proof (cases "find_from a rs")
  case (Some r)
  then show ?thesis using assms find_from_iff by metis
next
  case None
  then show ?thesis using assms find_from_iff by (metis not_None_eq)
qed

text \<open>
  C9: on a vmap whose regions are sorted, disjoint and do not wrap, amm_region_add refuses
  with -1 and no change exactly when the request is empty, wraps around the address space,
  shares an address with a mapped region or finds the node pool exhausted; otherwise the vmap
  stays well formed, and a lookup afterwards finds the new region at exactly its own
  addresses and what was there before everywhere else.
\<close>

theorem amm_region_add_correct:
  assumes wf: "vmap_wf m"
  shows "case amm_region_add used (Some m) base sz prot kind fd of (rc, used', mp) \<Rightarrow>
    if sz = 0 \<or> base + sz \<le> base \<or> used \<ge> MAX_REGIONS \<or>
       (\<exists>r\<in>set (regions m). \<exists>a. in_region a r \<and> base \<le> a \<and> a < base + sz)
    then rc = -1 \<and> used' = used \<and> mp = Some m
    else rc = 0 \<and> used' = Suc used \<and> (\<exists>m'. mp = Some m' \<and> vmap_wf m' \<and>
      (\<forall>a. amm_region_find m' a =
         (if base \<le> a \<and> a < base + sz
          then Some \<lparr>r_base = base, r_size = sz, r_prot = prot, r_kind = kind, r_fd = fd\<rparr>
          else amm_region_find m a)))"
proof -
  let ?rs = "regions m"
  let ?nr = "\<lparr>r_base = base, r_size = sz, r_prot = prot, r_kind = kind, r_fd = fd\<rparr>"
  have ok: "regions_ok ?rs" using wf by (simp add: vmap_wf_def)
  show ?thesis
  proof (cases "sz = 0 \<or> base + sz \<le> base")
    case True
    then show ?thesis by (auto simp: amm_region_add_def amm_region_overlaps_def)
  next
    case False
    then have lt: "base < base + sz" by auto
    have ov: "amm_region_overlaps (Some m) base sz \<longleftrightarrow>
        (\<exists>r\<in>set ?rs. \<exists>a. in_region a r \<and> base \<le> a \<and> a < base + sz)"
    proof -
      have "base < r_end r \<and> r_base r < base + sz \<longleftrightarrow>
          (\<exists>a. in_region a r \<and> base \<le> a \<and> a < base + sz)" if "r \<in> set ?rs" for r
        using intervals_meet[OF lt, of "r_base r" "r_end r"] ok that
        by (auto simp: regions_ok_def region_ok_def in_region_def)
      then show ?thesis
        using False overlaps_from_iff[OF ok lt] by (auto simp: amm_region_overlaps_def)
    qed
    show ?thesis
    proof (cases "amm_region_overlaps (Some m) base sz \<or> used \<ge> MAX_REGIONS")
      case True
      then show ?thesis using ov by (auto simp: amm_region_add_def region_alloc_def)
    next
      case free: False
      let ?m = "m\<lparr>regions := region_insert ?nr ?rs, region_count := region_count m + 1\<rparr>"
      have nr: "region_ok ?nr" using lt by (simp add: region_ok_def r_end_def)
      have ap: "\<forall>r\<in>set ?rs. apart ?nr r"
        using free False overlaps_from_iff[OF ok lt]
        by (auto simp: amm_region_overlaps_def apart_def r_end_def not_less)
      have ok': "regions_ok (region_insert ?nr ?rs)" using ok nr ap by (rule region_insert_ok)
      have wf': "vmap_wf ?m" using wf ok' by (simp add: vmap_wf_def length_region_insert)
      have "amm_region_find ?m a =
         (if base \<le> a \<and> a < base + sz then Some ?nr else amm_region_find m a)" for a
      proof (cases "base \<le> a \<and> a < base + sz")
        case True
        then show ?thesis using find_from_iff[OF ok', of a ?nr]
          by (simp add: amm_region_find_def set_region_insert in_region_def r_end_def)
      next
        case out: False
        then have "find_from a (region_insert ?nr ?rs) = find_from a ?rs"
          by (intro region_find_ext[OF ok ok'])
            (auto simp: set_region_insert in_region_def r_end_def)
        then show ?thesis using out by (auto simp: amm_region_find_def)
      qed
      then show ?thesis using free False wf' ov
        by (auto simp: amm_region_add_def region_alloc_def)
    qed
  qed
qed

definition demo_vmap :: vmap where
  "demo_vmap = \<lparr>regions =
     [\<lparr>r_base = 0x1000, r_size = 0x1000, r_prot = 1, r_kind = 0, r_fd = -1\<rparr>,
      \<lparr>r_base = 0x8000, r_size = 0x2000, r_prot = 3, r_kind = 2, r_fd = -1\<rparr>],
     cr3 = 0x5000, region_count = 2\<rparr>"

lemma demo_vmap_wf: "vmap_wf demo_vmap"
  by (simp add: demo_vmap_def vmap_wf_def regions_ok_def region_ok_def r_end_def)

theorem amm_region_add_correct_witness:
  "vmap_wf demo_vmap \<and> fst (amm_region_add 7 (Some demo_vmap) 0x2000 0x6000 3 2 (-1)) = 0 \<and>
   fst (amm_region_add 7 (Some demo_vmap) 0x2000 0x6001 3 2 (-1)) = -1"
proof -
  have "\<not> (\<exists>r\<in>set (regions demo_vmap). \<exists>a. in_region a r \<and> 0x2000 \<le> a \<and> a < (0x8000 :: u64))"
    by (auto simp: demo_vmap_def in_region_def r_end_def)
  moreover have "\<exists>r\<in>set (regions demo_vmap). \<exists>a. in_region a r \<and> 0x2000 \<le> a \<and> a < (0x8001 :: u64)"
    by (rule bexI[of _ "regions demo_vmap ! 1"], rule exI[of _ "0x8000"])
      (simp_all add: demo_vmap_def in_region_def r_end_def)
  ultimately show ?thesis
    using amm_region_add_correct[OF demo_vmap_wf, where used = 7 and base = "0x2000"
          and sz = "0x6000" and prot = 3 and kind = 2 and fd = "-1"]
      amm_region_add_correct[OF demo_vmap_wf, where used = 7 and base = "0x2000"
          and sz = "0x6001" and prot = 3 and kind = 2 and fd = "-1"] demo_vmap_wf
    by (auto simp: MAX_REGIONS_def split: prod.splits)
qed

text \<open>
  C10: amm_region_find on a well-formed vmap, although it stops at the first region beyond the
  address, finds a region exactly when some region contains the address; and removing the
  region at a base address makes exactly its addresses unmapped, keeping the vmap well formed,
  while an unknown base is refused with -1.
\<close>

theorem amm_region_find_remove_correct:
  assumes wf: "vmap_wf m"
  shows "(amm_region_find m a = Some r \<longleftrightarrow> r \<in> set (regions m) \<and> in_region a r) \<and>
    (case amm_region_remove m base of (rc, m') \<Rightarrow>
       if \<exists>x\<in>set (regions m). r_base x = base
       then rc = 0 \<and> vmap_wf m' \<and> (\<exists>x\<in>set (regions m). r_base x = base \<and>
         (\<forall>a. amm_region_find m' a = (if in_region a x then None else amm_region_find m a)))
       else rc = -1 \<and> m' = m)"
proof -
  have ok: "regions_ok (regions m)" using wf by (simp add: vmap_wf_def)
  have "amm_region_find m a = Some r \<longleftrightarrow> r \<in> set (regions m) \<and> in_region a r"
    using find_from_iff[OF ok] by (simp add: amm_region_find_def)
  moreover have "case amm_region_remove m base of (rc, m') \<Rightarrow>
       if \<exists>x\<in>set (regions m). r_base x = base
       then rc = 0 \<and> vmap_wf m' \<and> (\<exists>x\<in>set (regions m). r_base x = base \<and>
         (\<forall>a. amm_region_find m' a = (if in_region a x then None else amm_region_find m a)))
       else rc = -1 \<and> m' = m"
  proof (cases "remove_base base (regions m)")
    case None
    then show ?thesis using remove_base_spec[OF ok, of base] by (auto simp: amm_region_remove_def)
  next
    case (Some rs)
    then obtain x where x: "x \<in> set (regions m)" "r_base x = base" "set rs = set (regions m) - {x}"
      "regions_ok rs" "length (regions m) = Suc (length rs)"
      using remove_base_spec[OF ok, of base] by auto
    let ?m = "m\<lparr>regions := rs, region_count := region_count m - 1\<rparr>"
    have "vmap_wf ?m" using wf x(4,5) by (simp add: vmap_wf_def)
    moreover have "amm_region_find ?m a = (if in_region a x then None else amm_region_find m a)" for a
    proof (cases "in_region a x")
      case True
      then have f: "find_from a (regions m) = Some x" using find_from_iff[OF ok] x(1) by simp
      have "find_from a rs \<noteq> Some y" for y
      proof
        assume "find_from a rs = Some y"
        then have "y \<in> set rs" "in_region a y" using find_from_iff[OF x(4)] by simp_all
        then have "find_from a (regions m) = Some y" using find_from_iff[OF ok] x(3) by simp
        then show False using f \<open>y \<in> set rs\<close> x(3) by simp
      qed
      then show ?thesis using True by (simp add: amm_region_find_def) (metis not_None_eq)
    next
      case False
      then have "find_from a rs = find_from a (regions m)"
        using x(3) by (intro region_find_ext[OF ok x(4)]) auto
      then show ?thesis using False by (simp add: amm_region_find_def)
    qed
    ultimately show ?thesis using Some x(1,2) by (auto simp: amm_region_remove_def)
  qed
  ultimately show ?thesis by blast
qed

theorem amm_region_find_remove_correct_witness:
  "vmap_wf demo_vmap \<and> amm_region_find demo_vmap 0x9fff = Some (regions demo_vmap ! 1) \<and>
   fst (amm_region_remove demo_vmap 0x8000) = 0"
  using amm_region_find_remove_correct[OF demo_vmap_wf, where a = "0x9fff"
      and r = "regions demo_vmap ! 1" and base = "0x8000"]
    demo_vmap_wf
  by (auto simp: demo_vmap_def in_region_def r_end_def split: prod.splits)

end
