(* ===== verification/PageTable.thy ===== *)
theory PageTable
  imports Frame_Store Region
begin

text \<open>
  The four-level page tables of kernel/mm/mm.c on the physical memory of the allocator:
  walking with allocation of missing tables, mapping a page, translating an address, demand
  paging, populating a region, and creating and destroying an address space. A table is its
  physical address; its entries are the 64-bit words of \<open>pmem\<close> behind the direct map. The
  invlpg instruction has no effect on this state.
\<close>

unbundle bit_operations_syntax

subsection \<open>Model\<close>

definition PTE_PRESENT :: u64 where "PTE_PRESENT = 1"
definition PTE_WRITE :: u64 where "PTE_WRITE = 2"
definition PTE_USER :: u64 where "PTE_USER = 4"
definition PTE_NX :: u64 where "PTE_NX = push_bit 63 1"
definition PTE_ADDR_MASK :: u64 where "PTE_ADDR_MASK = 0x000FFFFFFFFFF000"

definition PML4_IDX :: "u64 \<Rightarrow> u64" where "PML4_IDX v = drop_bit 39 v AND 0x1FF"
definition PDPT_IDX :: "u64 \<Rightarrow> u64" where "PDPT_IDX v = drop_bit 30 v AND 0x1FF"
definition PD_IDX :: "u64 \<Rightarrow> u64" where "PD_IDX v = drop_bit 21 v AND 0x1FF"
definition PT_IDX :: "u64 \<Rightarrow> u64" where "PT_IDX v = drop_bit 12 v AND 0x1FF"

definition PROT_WRITE :: int where "PROT_WRITE = 2"
definition PROT_EXEC :: int where "PROT_EXEC = 4"

text \<open>The physical address of entry \<open>idx\<close> of the table at physical address \<open>t\<close>.\<close>

definition entry_pa :: "phys_state \<Rightarrow> u64 \<Rightarrow> u64 \<Rightarrow> u64" where
  "entry_pa s t idx = kva_pa s (phys_to_virt s t + 8 * idx)"

definition entry_get :: "phys_state \<Rightarrow> u64 \<Rightarrow> u64 \<Rightarrow> u64" where
  "entry_get s t idx = pmem s (entry_pa s t idx)"

definition entry_put :: "phys_state \<Rightarrow> u64 \<Rightarrow> u64 \<Rightarrow> u64 \<Rightarrow> phys_state" where
  "entry_put s t idx e = s\<lparr>pmem := (pmem s)(entry_pa s t idx := e)\<rparr>"

definition zero_page :: "phys_state \<Rightarrow> u64 \<Rightarrow> phys_state" where
  "zero_page s p = s\<lparr>pmem := zero_mem (pmem s) (kva_pa s (phys_to_virt s p)) PAGE_SIZE\<rparr>"

text \<open>
  One level of the walk, the same in the code for the PML4, the PDPT and the PD: allocate and
  link a zeroed table if the entry is not present, then follow the entry. The inner option is
  the NULL that the walk returns when no frame is left.
\<close>

definition walk_level :: "phys_state \<Rightarrow> u64 \<Rightarrow> u64 \<Rightarrow> (u64 option \<times> phys_state) option" where
  "walk_level s t idx =
     (if entry_get s t idx AND PTE_PRESENT = 0 then
        (case amm_phys_alloc s 0 of
           None \<Rightarrow> None
         | Some (p, s1) \<Rightarrow>
             if p = 0 then Some (None, s1)
             else
               let s2 = zero_page s1 p;
                   s3 = entry_put s2 t idx (p OR PTE_PRESENT OR PTE_WRITE OR PTE_USER)
               in Some (Some (entry_get s3 t idx AND PTE_ADDR_MASK), s3))
      else Some (Some (entry_get s t idx AND PTE_ADDR_MASK), s))"

definition pt_walk_alloc :: "phys_state \<Rightarrow> u64 \<Rightarrow> u64 \<Rightarrow> (u64 option \<times> phys_state) option" where
  "pt_walk_alloc s root va =
     (case walk_level s (root AND PTE_ADDR_MASK) (PML4_IDX va) of
        None \<Rightarrow> None
      | Some (None, s1) \<Rightarrow> Some (None, s1)
      | Some (Some pdpt, s1) \<Rightarrow>
          (case walk_level s1 pdpt (PDPT_IDX va) of
             None \<Rightarrow> None
           | Some (None, s2) \<Rightarrow> Some (None, s2)
           | Some (Some pd, s2) \<Rightarrow>
               (case walk_level s2 pd (PD_IDX va) of
                  None \<Rightarrow> None
                | Some (None, s3) \<Rightarrow> Some (None, s3)
                | Some (Some pt, s3) \<Rightarrow> Some (Some pt, s3))))"

definition pte_flags :: "int \<Rightarrow> u64" where
  "pte_flags prot =
     (let f = PTE_PRESENT OR PTE_USER;
          f = (if prot AND PROT_WRITE \<noteq> 0 then f OR PTE_WRITE else f)
      in if prot AND PROT_EXEC = 0 then f OR PTE_NX else f)"

definition map_page :: "phys_state \<Rightarrow> u64 \<Rightarrow> u64 \<Rightarrow> u64 \<Rightarrow> int \<Rightarrow> phys_state option" where
  "map_page s root va pa prot =
     (case pt_walk_alloc s root va of
        None \<Rightarrow> None
      | Some (None, s1) \<Rightarrow> Some s1
      | Some (Some pt, s1) \<Rightarrow>
          Some (entry_put s1 pt (PT_IDX va) ((pa AND PTE_ADDR_MASK) OR pte_flags prot)))"

definition amm_virt_to_kva :: "phys_state \<Rightarrow> u64 \<Rightarrow> u64 \<Rightarrow> u64" where
  "amm_virt_to_kva s root va =
     (let e = entry_get s (root AND PTE_ADDR_MASK) (PML4_IDX va) in
      if e AND PTE_PRESENT = 0 then 0
      else let e = entry_get s (e AND PTE_ADDR_MASK) (PDPT_IDX va) in
        if e AND PTE_PRESENT = 0 then 0
        else let e = entry_get s (e AND PTE_ADDR_MASK) (PD_IDX va) in
          if e AND PTE_PRESENT = 0 then 0
          else let e = entry_get s (e AND PTE_ADDR_MASK) (PT_IDX va) in
            if e AND PTE_PRESENT = 0 then 0
            else phys_to_virt s ((e AND PTE_ADDR_MASK) OR (va AND (PAGE_SIZE - 1))))"

definition amm_page_fault ::
  "phys_state \<Rightarrow> vmap \<Rightarrow> u64 \<Rightarrow> bool \<Rightarrow> (int \<times> phys_state) option" where
  "amm_page_fault s m fault_addr wr =
     (case amm_region_find m fault_addr of
        None \<Rightarrow> Some (-1, s)
      | Some r \<Rightarrow>
          if wr \<and> r_prot r AND PROT_WRITE = 0 then Some (-1, s)
          else
            (case amm_phys_alloc s 0 of
               None \<Rightarrow> None
             | Some (pa, s1) \<Rightarrow>
                 if pa = 0 then Some (-1, s1)
                 else map_option (\<lambda>s2. (0, s2))
                        (map_page (zero_page s1 pa) (cr3 m)
                           (fault_addr AND NOT (PAGE_SIZE - 1)) pa (r_prot r))))"

partial_function (option) populate_from ::
  "u64 \<Rightarrow> int \<Rightarrow> u64 \<Rightarrow> phys_state \<Rightarrow> u64 \<Rightarrow> (bool \<times> phys_state) option" where
  "populate_from root prot aligned_end s va =
     (if va < aligned_end then
        (if amm_virt_to_kva s root va \<noteq> 0
         then populate_from root prot aligned_end s (va + PAGE_SIZE)
         else
           (case amm_phys_alloc s 0 of
              None \<Rightarrow> None
            | Some (pa, s1) \<Rightarrow>
                if pa = 0 then Some (False, s1)
                else Option.bind (map_page (zero_page s1 pa) root va pa prot)
                       (\<lambda>s2. populate_from root prot aligned_end s2 (va + PAGE_SIZE))))
      else Some (True, s))"

declare populate_from.simps [code]

definition amm_region_populate ::
  "phys_state \<Rightarrow> vmap option \<Rightarrow> u64 \<Rightarrow> u64 \<Rightarrow> int \<Rightarrow> (u64 \<times> phys_state) option" where
  "amm_region_populate s mp base sz prot =
     (case mp of
        None \<Rightarrow> Some (0, s)
      | Some m \<Rightarrow>
          if sz = 0 then Some (0, s)
          else
            let aligned_base = base AND NOT (PAGE_SIZE - 1);
                aligned_end = PAGE_ALIGN (base + sz)
            in if aligned_end \<le> aligned_base then Some (0, s)
               else
                 (case populate_from (cr3 m) prot aligned_end s aligned_base of
                    None \<Rightarrow> None
                  | Some (ok, s1) \<Rightarrow>
                      Some (if ok then amm_virt_to_kva s1 (cr3 m) base else 0, s1)))"

text \<open>Copying the entries \<open>is\<close> of one table to another.\<close>

fun copy_entries :: "phys_state \<Rightarrow> u64 \<Rightarrow> u64 \<Rightarrow> nat list \<Rightarrow> phys_state" where
  "copy_entries s dst src [] = s"
| "copy_entries s dst src (i # is) =
     copy_entries (entry_put s dst (of_nat i) (entry_get s src (of_nat i))) dst src is"

definition MAX_VMAPS :: nat where "MAX_VMAPS = 4096"

text \<open>The pool of address spaces only grows: \<open>used\<close> of them were handed out.\<close>

definition amm_vmap_create ::
  "phys_state \<Rightarrow> u64 \<Rightarrow> nat \<Rightarrow> (vmap option \<times> nat \<times> phys_state) option" where
  "amm_vmap_create s kernel_cr3 used =
     (if used \<ge> MAX_VMAPS then Some (None, used, s)
      else do {
        let used = Suc used;
        (pml4, s) \<leftarrow> amm_phys_alloc s 0;
        if pml4 = 0 then Some (None, used, s)
        else do {
          let s = zero_page s pml4;
          let s = copy_entries s pml4 kernel_cr3 [256..<512];
          (pdpt, s) \<leftarrow> amm_phys_alloc s 0;
          (pd0, s) \<leftarrow> amm_phys_alloc s 0;
          if pdpt = 0 \<or> pd0 = 0 then Some (None, used, s)
          else do {
            let s = zero_page s pdpt;
            let s = zero_page s pd0;
            let s = entry_put s pml4 0 (pdpt OR PTE_PRESENT OR PTE_WRITE OR PTE_USER);
            let s = entry_put s pdpt 0 (pd0 OR PTE_PRESENT OR PTE_WRITE OR PTE_USER);
            let kp = entry_get s kernel_cr3 0;
            let s = (if kp AND PTE_PRESENT \<noteq> 0 then
                       let kpdpt = kp AND PTE_ADDR_MASK;
                           s = copy_entries s pdpt kpdpt [1, 2, 3];
                           kd = entry_get s kpdpt 0
                       in if kd AND PTE_PRESENT \<noteq> 0
                          then copy_entries s pd0 (kd AND PTE_ADDR_MASK) [32..<512] else s
                     else s);
            Some (Some \<lparr>regions = [], cr3 = pml4, region_count = 0\<rparr>, used, s)
          }
        }
      })"

subsubsection \<open>Destroying an address space\<close>

definition entry_present :: "phys_state \<Rightarrow> u64 \<Rightarrow> nat \<Rightarrow> bool" where
  "entry_present s t i = (entry_get s t (of_nat i) AND PTE_PRESENT \<noteq> 0)"

definition entry_addr :: "phys_state \<Rightarrow> u64 \<Rightarrow> nat \<Rightarrow> u64" where
  "entry_addr s t i = entry_get s t (of_nat i) AND PTE_ADDR_MASK"

fun free_leaves :: "phys_state \<Rightarrow> u64 \<Rightarrow> nat list \<Rightarrow> phys_state option" where
  "free_leaves s pt [] = Some s"
| "free_leaves s pt (i # is) =
     (if entry_present s pt i
      then Option.bind (amm_phys_free s (entry_addr s pt i) 0) (\<lambda>s. free_leaves s pt is)
      else free_leaves s pt is)"

fun free_pd :: "phys_state \<Rightarrow> u64 \<Rightarrow> nat list \<Rightarrow> phys_state option" where
  "free_pd s pd [] = Some s"
| "free_pd s pd (i # is) =
     (if \<not> entry_present s pd i then free_pd s pd is
      else if entry_get s pd (of_nat i) AND push_bit 7 1 \<noteq> 0 then free_pd s pd is
      else do {
        let pt = entry_addr s pd i;
        s \<leftarrow> free_leaves s pt [0..<512];
        s \<leftarrow> amm_phys_free s pt 0;
        free_pd s pd is
      })"

fun free_pdpt :: "phys_state \<Rightarrow> bool \<Rightarrow> u64 \<Rightarrow> nat list \<Rightarrow> phys_state option" where
  "free_pdpt s first pdpt [] = Some s"
| "free_pdpt s first pdpt (i # is) =
     (if \<not> entry_present s pdpt i then free_pdpt s first pdpt is
      else if first \<and> i \<ge> 1 \<and> i \<le> 3 then free_pdpt s first pdpt is
      else do {
        let pd = entry_addr s pdpt i;
        s \<leftarrow> free_pd s pd [0..<512];
        s \<leftarrow> amm_phys_free s pd 0;
        free_pdpt s first pdpt is
      })"

fun free_pml4 :: "phys_state \<Rightarrow> u64 \<Rightarrow> nat list \<Rightarrow> phys_state option" where
  "free_pml4 s pml4 [] = Some s"
| "free_pml4 s pml4 (i # is) =
     (if \<not> entry_present s pml4 i then free_pml4 s pml4 is
      else do {
        let pdpt = entry_addr s pml4 i;
        s \<leftarrow> free_pdpt s (i = 0) pdpt [0..<512];
        s \<leftarrow> amm_phys_free s pdpt 0;
        free_pml4 s pml4 is
      })"

definition amm_vmap_destroy :: "phys_state \<Rightarrow> vmap option \<Rightarrow> (vmap option \<times> phys_state) option" where
  "amm_vmap_destroy s mp =
     (case mp of
        None \<Rightarrow> Some (None, s)
      | Some m \<Rightarrow>
          if cr3 m = 0 then Some (Some m, s)
          else do {
            s \<leftarrow> free_pml4 s (cr3 m AND PTE_ADDR_MASK) [0..<256];
            s \<leftarrow> amm_phys_free s (cr3 m AND PTE_ADDR_MASK) 0;
            Some (Some (m\<lparr>regions := [], region_count := 0, cr3 := 0\<rparr>), s)
          })"

end
