(* ===== verification/PageTable_Map.thy ===== *)
theory PageTable_Map
  imports PageTable
begin

text \<open>
  Correctness of the page tables. The tables reachable from a root form a tree in physical
  memory: every reachable table is an allocated frame and is reached by one path of indices
  only. The walk with allocation extends the tree without changing what any address maps to,
  and map_page changes the entry of exactly one page.
\<close>

unbundle bit_operations_syntax

subsection \<open>Entries\<close>

lemma PTE_ADDR_MASK_eq: "PTE_ADDR_MASK = mask 52 AND NOT (mask 12)"
  by (simp add: PTE_ADDR_MASK_def mask_eq_exp_minus_1)

lemma bit_addr_mask: "bit PTE_ADDR_MASK n \<longleftrightarrow> 12 \<le> n \<and> n < 52"
  unfolding PTE_ADDR_MASK_eq by (auto simp: bit_simps)

lemma frame_bits:
  assumes "T \<le> mem_limit" and "block_ok T (p, 0)" and "bit p n"
  shows "12 \<le> n" and "n < 52"
proof -
  have d: "4096 dvd unat p" and b: "unat p < 2 ^ 52"
    using assms(1,2) by (auto simp: block_ok_def bsize_def mem_limit_def)
  have "unat (take_bit 12 p) = 0"
    using d by (simp add: take_bit_eq_mod unat_mod dvd_eq_mod_eq_0)
  then have "take_bit 12 p = 0" by (simp add: word_unat_eq_iff)
  then show "12 \<le> n" using assms(3) by (metis bit_take_bit_iff bit_0_eq bot_apply not_le_imp_less bot_bool_def)
  have "unat (take_bit 52 p) = unat p"
    using b by (simp add: take_bit_eq_mod unat_mod)
  then have "take_bit 52 p = p" by (simp add: word_unat_eq_iff)
  then show "n < 52" using assms(3) by (metis bit_take_bit_iff)
qed

lemma table_entry_addr:
  assumes "T \<le> mem_limit" and "block_ok T (p, 0)"
  shows "(p OR PTE_PRESENT OR PTE_WRITE OR PTE_USER) AND PTE_ADDR_MASK = p"
    and "(p OR PTE_PRESENT OR PTE_WRITE OR PTE_USER) AND PTE_PRESENT \<noteq> 0"
    and "p AND PTE_ADDR_MASK = p"
proof -
  have f: "PTE_PRESENT OR PTE_WRITE OR PTE_USER = mask 3"
    by (simp add: PTE_PRESENT_def PTE_WRITE_def PTE_USER_def mask_eq_exp_minus_1)
  then have e: "p OR PTE_PRESENT OR PTE_WRITE OR PTE_USER = p OR mask 3" by (simp add: or.assoc)
  show "(p OR PTE_PRESENT OR PTE_WRITE OR PTE_USER) AND PTE_ADDR_MASK = p"
    unfolding e using frame_bits[OF assms]
    by (intro bit_word_eqI) (auto simp: bit_simps bit_addr_mask)
  show "p AND PTE_ADDR_MASK = p"
    using frame_bits[OF assms] by (intro bit_word_eqI) (auto simp: bit_simps bit_addr_mask)
  have "bit ((p OR mask 3) AND PTE_PRESENT) 0" by (simp add: bit_simps PTE_PRESENT_def)
  then show "(p OR PTE_PRESENT OR PTE_WRITE OR PTE_USER) AND PTE_PRESENT \<noteq> 0"
    unfolding e by (metis bit_0_eq bot_apply bot_bool_def)
qed

lemma entry_pa_eq: "\<not> early_boot s \<Longrightarrow> entry_pa s t i = t + 8 * i"
  by (simp add: entry_pa_def kva_pa_def phys_to_virt_def)

lemma entry_in_frame:
  assumes "T \<le> mem_limit" and "block_ok T (t, 0)" and "i < 512"
  shows "unat (t + 8 * i) = unat t + 8 * unat i" and "unat (t + 8 * i) \<in> extent (t, 0)"
proof -
  have i: "unat i < 512" using assms(3) by (simp add: word_less_nat_alt)
  have "unat t + 4096 \<le> mem_limit" using assms(1,2) by (simp add: block_ok_def bsize_def)
  then have b: "unat t + 8 * unat i < 2 ^ 64" using i by (simp add: mem_limit_def)
  have "t + 8 * i = of_nat (unat t + 8 * unat i)" by simp
  then show u: "unat (t + 8 * i) = unat t + 8 * unat i"
    using b by (simp only: unat_of_nat) simp
  show "unat (t + 8 * i) \<in> extent (t, 0)" using i by (simp add: u extent_def bsize_def)
qed

lemma entry_inj:
  assumes "tiled T A" and "T \<le> mem_limit" and "(t, 0) \<in> A" "(u, 0) \<in> A" and "i < 512" "j < 512"
    and "t + 8 * i = u + 8 * j"
  shows "t = u \<and> i = j"
proof -
  note e = entry_in_frame[OF assms(2) tiled_ok[OF assms(1,3)] assms(5)]
  note f = entry_in_frame[OF assms(2) tiled_ok[OF assms(1,4)] assms(6)]
  have "(t, 0 :: nat) = (u, 0)"
    by (rule tiled_disjoint[OF assms(1,3,4) e(2)]) (use f(2) assms(7) in simp)
  then have "t = u" by simp
  then have "unat i = unat j" using e(1) f(1) assms(7) by simp
  with \<open>t = u\<close> show ?thesis by (simp add: word_unat_eq_iff)
qed

subsection \<open>The tree of tables\<close>

definition follow :: "(u64 \<Rightarrow> u64) \<Rightarrow> u64 \<Rightarrow> u64 \<Rightarrow> u64 option" where
  "follow m t i = (let e = m (t + 8 * i) in
     if e AND PTE_PRESENT = 0 then None else Some (e AND PTE_ADDR_MASK))"

fun walk :: "(u64 \<Rightarrow> u64) \<Rightarrow> u64 \<Rightarrow> u64 list \<Rightarrow> u64 option" where
  "walk m t [] = Some t"
| "walk m t (i # is) = Option.bind (follow m t i) (\<lambda>u. walk m u is)"

lemma walk_snoc: "walk m t (p @ [i]) = Option.bind (walk m t p) (\<lambda>u. follow m u i)"
  by (induction p arbitrary: t) (auto split: bind_splits)

definition is_path :: "u64 list \<Rightarrow> bool" where
  "is_path p \<longleftrightarrow> length p \<le> 3 \<and> (\<forall>i\<in>set p. i < 512)"

lemma is_path_snoc: "is_path (p @ [i]) \<longleftrightarrow> is_path p \<and> length p < 3 \<and> i < 512"
  by (auto simp: is_path_def)

definition pt_wf :: "block set \<Rightarrow> (u64 \<Rightarrow> u64) \<Rightarrow> u64 \<Rightarrow> bool" where
  "pt_wf A m root \<longleftrightarrow>
     (\<forall>p t. is_path p \<longrightarrow> walk m root p = Some t \<longrightarrow> (t, 0) \<in> A) \<and>
     (\<forall>p q t. is_path p \<longrightarrow> is_path q \<longrightarrow> walk m root p = Some t \<longrightarrow> walk m root q = Some t \<longrightarrow> p = q)"

lemma pt_wf_frame: "pt_wf A m root \<Longrightarrow> is_path p \<Longrightarrow> walk m root p = Some t \<Longrightarrow> (t, 0) \<in> A"
  by (simp add: pt_wf_def)

lemma pt_wf_path: "pt_wf A m root \<Longrightarrow> is_path p \<Longrightarrow> is_path q \<Longrightarrow> walk m root p = Some t \<Longrightarrow>
    walk m root q = Some t \<Longrightarrow> p = q"
  unfolding pt_wf_def by blast

text \<open>The leaf entry of a page, zero where no leaf table is reached.\<close>

definition leaf :: "(u64 \<Rightarrow> u64) \<Rightarrow> u64 \<Rightarrow> u64 list \<Rightarrow> u64 \<Rightarrow> u64" where
  "leaf m root q j = (case walk m root q of None \<Rightarrow> 0 | Some t \<Rightarrow> m (t + 8 * j))"

text \<open>Two memories map every page alike.\<close>

definition same_leaves :: "(u64 \<Rightarrow> u64) \<Rightarrow> (u64 \<Rightarrow> u64) \<Rightarrow> u64 \<Rightarrow> bool" where
  "same_leaves m m' root \<longleftrightarrow>
     (\<forall>q j. is_path q \<longrightarrow> length q = 3 \<longrightarrow> j < 512 \<longrightarrow> leaf m' root q j = leaf m root q j)"

lemma same_leaves_refl [simp]: "same_leaves m m root"
  by (simp add: same_leaves_def)

lemma same_leaves_trans: "same_leaves a b root \<Longrightarrow> same_leaves b c root \<Longrightarrow> same_leaves a c root"
  by (simp add: same_leaves_def)

text \<open>Linking a fresh zeroed table into an absent entry.\<close>

lemma walk_link:
  assumes t: "tiled T A" and T: "T \<le> mem_limit" and wf: "pt_wf A m root"
    and P: "is_path P" "length P < 3" "walk m root P = Some u" and i: "i < 512"
    and absent: "follow m u i = None"
    and linked: "follow m' u i = Some p" and zero: "\<And>j. j < 512 \<Longrightarrow> m' (p + 8 * j) = 0"
    and same: "\<And>x. unat x \<in> cover A \<Longrightarrow> x \<noteq> u + 8 * i \<Longrightarrow> m' x = m x"
    and q: "is_path q"
  shows "walk m' root q = (if q = P @ [i] then Some p else walk m root q)"
  using q
proof (induction q rule: rev_induct)
  case Nil
  then show ?case by simp
next
  case (snoc j q)
  then have q: "is_path q" "length q < 3" "j < 512" by (simp_all add: is_path_snoc)
  note IH = snoc.IH[OF q(1)]
  show ?case
  proof (cases "q = P @ [i]")
    case True
    have "walk m root q = None" unfolding True walk_snoc using P(3) absent by simp
    then have "walk m root (q @ [j]) = None" unfolding walk_snoc by simp
    moreover have "follow m' p j = None" using zero[OF q(3)] by (simp add: follow_def)
    ultimately show ?thesis using IH True unfolding walk_snoc by simp
  next
    case False
    then have w: "walk m' root q = walk m root q" using IH by simp
    show ?thesis
    proof (cases "walk m root q")
      case None
      then have "q \<noteq> P" using P(3) by auto
      then show ?thesis using None w by (simp add: walk_snoc)
    next
      case (Some v)
      have v: "(v, 0) \<in> A" and u: "(u, 0) \<in> A"
        using pt_wf_frame[OF wf q(1) Some] pt_wf_frame[OF wf P(1,3)] by simp_all
      show ?thesis
      proof (cases "v = u \<and> j = i")
        case True
        then have "q = P" using pt_wf_path[OF wf q(1) P(1) Some] P(3) by simp
        then show ?thesis using True w Some linked by (simp add: walk_snoc)
      next
        case other: False
        then have ne: "v + 8 * j \<noteq> u + 8 * i" using entry_inj[OF t T v u q(3) i] by blast
        have "unat (v + 8 * j) \<in> cover A"
          using entry_in_frame(2)[OF T tiled_ok[OF t v] q(3)] v unfolding cover_def by blast
        then have "follow m' v j = follow m v j" using same ne by (simp add: follow_def)
        moreover have "q @ [j] \<noteq> P @ [i]" using other P(3) Some by auto
        ultimately show ?thesis using w Some by (auto simp: walk_snoc)
      qed
    qed
  qed
qed

text \<open>Writing outside the entries of inner tables leaves all paths alone.\<close>

lemma walk_cong:
  assumes "\<And>p t i. is_path p \<Longrightarrow> length p < 3 \<Longrightarrow> walk m root p = Some t \<Longrightarrow> i < 512 \<Longrightarrow>
      m' (t + 8 * i) = m (t + 8 * i)"
    and "is_path q"
  shows "walk m' root q = walk m root q"
  using assms(2)
proof (induction q rule: rev_induct)
  case Nil
  then show ?case by simp
next
  case (snoc j q)
  then have q: "is_path q" "length q < 3" "j < 512" by (simp_all add: is_path_snoc)
  then show ?case
    using snoc.IH[OF q(1)] assms(1)[OF q(1,2) _ q(3)]
    by (cases "walk m root q") (simp_all add: walk_snoc follow_def)
qed

subsection \<open>The walk with allocation\<close>

lemma entry_get_eq: "\<not> early_boot s \<Longrightarrow> entry_get s t i = pmem s (t + 8 * i)"
  by (simp add: entry_get_def entry_pa_eq)

lemma buddy_ok_limits:
  assumes "buddy_ok T M s A"
  shows "T \<le> mem_limit" and "\<not> early_boot s" and "tiled T A"
  using assms buddy.ok_tiled[OF assms] by (auto simp: buddy_ok_def buddy_inv_def lists_ok_def)

text \<open>What one level of the walk does to a tree of tables.\<close>

lemma walk_level_spec:
  assumes ok: "buddy_ok T M s A" and wf: "pt_wf A (pmem s) root"
    and P: "is_path P" "length P < 3" "walk (pmem s) root P = Some u" and i: "i < 512"
  shows "\<exists>r s' A'. walk_level s u i = Some (r, s') \<and> buddy_ok T M s' A' \<and> A \<subseteq> A' \<and>
    pt_wf A' (pmem s') root \<and>
    (\<forall>v. r = Some v \<longrightarrow> walk (pmem s') root (P @ [i]) = Some v) \<and>
    same_leaves (pmem s) (pmem s') root"
proof (cases "follow (pmem s) u i")
  case (Some v)
  have e: "\<not> early_boot s" using ok by (rule buddy_ok_limits(2))
  have "walk_level s u i = Some (Some v, s)"
    using Some e by (auto simp: walk_level_def entry_get_eq follow_def Let_def split: if_splits)
  moreover have "walk (pmem s) root (P @ [i]) = Some v" using P(3) Some by (simp add: walk_snoc)
  ultimately show ?thesis using ok wf by (intro exI[of _ "Some v"] exI[of _ s] exI[of _ A]) simp
next
  case None
  note lim = buddy_ok_limits[OF ok]
  have absent: "entry_get s u i AND PTE_PRESENT = 0"
    using None lim(2) by (auto simp: entry_get_eq follow_def Let_def split: if_splits)
  obtain p s1 where a: "amm_phys_alloc s 0 = Some (p, s1)"
    "if p = 0 then s1 = s else (p, 0) \<notin> A \<and> buddy_ok T M s1 (insert (p, 0) A)"
    using buddy.al_law[OF ok] by blast
  show ?thesis
  proof (cases "p = 0")
    case True
    then have "walk_level s u i = Some (None, s)" using a absent by (simp add: walk_level_def)
    then show ?thesis using ok wf by (intro exI[of _ None] exI[of _ s] exI[of _ A]) simp
  next
    case False
    then have new: "(p, 0) \<notin> A" and ok1: "buddy_ok T M s1 (insert (p, 0) A)" using a(2) by simp_all
    note lim1 = buddy_ok_limits[OF ok1]
    have pok: "block_ok T (p, 0)" using lim1(3) by (rule tiled_ok) simp
    let ?A = "insert (p, 0) A"
    let ?e = "p OR PTE_PRESENT OR PTE_WRITE OR PTE_USER"
    define m where "m = (zero_mem (pmem s1) p PAGE_SIZE)(u + 8 * i := ?e)"
    define s3 where "s3 = with_mem s1 m"
    have u: "(u, 0) \<in> A" using wf P(1,3) by (rule pt_wf_frame)
    have ue: "unat (u + 8 * i) \<in> cover A"
      using entry_in_frame(2)[OF lim(1) tiled_ok[OF lim(3) u] i] u unfolding cover_def by blast
    have zin: "unat x \<in> extent (p, 0) \<longleftrightarrow> x - p < PAGE_SIZE" for x
    proof -
      have "unat p + 4096 \<le> 2 ^ 64" using pok lim(1) by (simp add: block_ok_def bsize_def mem_limit_def)
      then show ?thesis
        by (auto simp: extent_def bsize_def word_less_nat_alt unat_sub_if_size size_word.rep_eq)
    qed
    have old: "m x = pmem s x" if "unat x \<in> cover A" "x \<noteq> u + 8 * i" for x
    proof -
      have "unat x \<notin> extent (p, 0)"
        using frames.al_fresh_cell[OF ok a(1) False, of "unat x"] that(1) by blast
      then have "m x = pmem s1 x" using that(2) by (simp add: m_def zero_mem_def zin)
      then show ?thesis using frames.al_frame[OF ok a(1) that(1)] by simp
    qed
    have zero: "m (p + 8 * j) = 0" if "j < 512" for j
    proof -
      have x: "unat (p + 8 * j) \<in> extent (p, 0)" using lim(1) pok that by (rule entry_in_frame(2))
      then have "unat (p + 8 * j) \<notin> cover A" using frames.al_fresh_cell[OF ok a(1) False] by blast
      then have "p + 8 * j \<noteq> u + 8 * i" using ue by metis
      then show ?thesis using x by (simp add: m_def zero_mem_def zin)
    qed
    have link: "follow m u i = Some p"
      using table_entry_addr[OF lim(1) pok] by (simp add: follow_def m_def)
    have W: "walk m root q = (if q = P @ [i] then Some p else walk (pmem s) root q)" if "is_path q" for q
      using lim(3,1) wf P i None link zero old that by (rule walk_link)
    have wf3: "pt_wf ?A m root"
      unfolding pt_wf_def using W wf new
      by (auto simp: pt_wf_def split: if_splits)
    have ok3: "buddy_ok T M s3 ?A"
      unfolding s3_def
    proof (rule with_mem_ok[OF ok1])
      fix x :: u64
      assume "unat x \<notin> cover ?A"
      then have "unat x \<notin> extent (p, 0)" "x \<noteq> u + 8 * i" using ue by (auto simp: cover_insert)
      then show "m x = pmem s1 x" by (simp add: m_def zero_mem_def zin)
    qed
    have lf: "leaf m root q j = leaf (pmem s) root q j" if q: "is_path q" "length q = 3" and j: "j < 512" for q j
    proof (cases "walk (pmem s) root q")
      case None
      then show ?thesis using W[OF q(1)] zero[OF j] by (auto simp: leaf_def split: if_splits)
    next
      case (Some v)
      have v: "(v, 0) \<in> A" using wf q(1) Some by (rule pt_wf_frame)
      have "q \<noteq> P @ [i]" using Some None P(3) by (auto simp: walk_snoc)
      moreover have "v + 8 * j \<noteq> u + 8 * i"
      proof
        assume "v + 8 * j = u + 8 * i"
        then have "v = u" using entry_inj[OF lim(3,1) v u j i] by blast
        then have "q = P" using pt_wf_path[OF wf q(1) P(1) Some] P(3) by simp
        then show False using q(2) P(2) by simp
      qed
      moreover have "unat (v + 8 * j) \<in> cover A"
        using entry_in_frame(2)[OF lim(1) tiled_ok[OF lim(3) v] j] v unfolding cover_def by blast
      ultimately show ?thesis using W[OF q(1)] Some old by (simp add: leaf_def)
    qed
    have "entry_put (zero_page s1 p) u i ?e = s3"
      using lim1(2) by (simp add: entry_put_def zero_page_def entry_pa_def kva_pa_def phys_to_virt_def
          s3_def m_def with_mem_def)
    moreover have "entry_get s3 u i AND PTE_ADDR_MASK = p"
      using lim1(2) table_entry_addr(1)[OF lim(1) pok]
      by (simp add: entry_get_def entry_pa_def kva_pa_def phys_to_virt_def s3_def m_def with_mem_def)
    ultimately have "walk_level s u i = Some (Some p, s3)"
      using a(1) absent False by (simp add: walk_level_def Let_def)
    moreover have "walk m root (P @ [i]) = Some p" using W[of "P @ [i]"] P i by (simp add: is_path_snoc)
    moreover have "pmem s3 = m" by (simp add: s3_def with_mem_def)
    moreover have "same_leaves (pmem s) m root" using lf by (simp add: same_leaves_def)
    ultimately show ?thesis using ok3 wf3
      by (intro exI[of _ "Some p"] exI[of _ s3] exI[of _ ?A]) auto
  qed
qed

definition idx3 :: "u64 \<Rightarrow> u64 list" where
  "idx3 va = [PML4_IDX va, PDPT_IDX va, PD_IDX va]"

lemma idx_bound: "x AND 0x1FF < (512 :: u64)"
proof -
  have "x AND 0x1FF \<le> 0x1FF" by (rule word_and_le1)
  then show ?thesis by (rule order_le_less_trans) simp
qed

lemma idx_bounds: "PML4_IDX va < 512" "PDPT_IDX va < 512" "PD_IDX va < 512" "PT_IDX va < 512"
  unfolding PML4_IDX_def PDPT_IDX_def PD_IDX_def PT_IDX_def by (rule idx_bound)+

lemma idx3_path: "is_path (idx3 va)" "length (idx3 va) = 3"
  using idx_bounds by (auto simp: is_path_def idx3_def)

lemma pt_walk_alloc_spec:
  assumes ok: "buddy_ok T M s A" and wf: "pt_wf A (pmem s) root" and root: "root AND PTE_ADDR_MASK = root"
  shows "\<exists>r s' A'. pt_walk_alloc s root va = Some (r, s') \<and> buddy_ok T M s' A' \<and> A \<subseteq> A' \<and>
    pt_wf A' (pmem s') root \<and> (\<forall>t. r = Some t \<longrightarrow> walk (pmem s') root (idx3 va) = Some t) \<and>
    same_leaves (pmem s) (pmem s') root"
proof -
  let ?i = "PML4_IDX va" and ?j = "PDPT_IDX va" and ?k = "PD_IDX va"
  have p0: "is_path []" by (simp add: is_path_def)
  obtain r1 s1 A1 where 1: "walk_level s root ?i = Some (r1, s1)" "buddy_ok T M s1 A1" "A \<subseteq> A1"
    "pt_wf A1 (pmem s1) root" "\<forall>v. r1 = Some v \<longrightarrow> walk (pmem s1) root [?i] = Some v"
    "same_leaves (pmem s) (pmem s1) root"
    using walk_level_spec[OF ok wf p0, of root ?i] idx_bounds(1) by (simp del: walk.simps(2)) blast
  show ?thesis
  proof (cases r1)
    case None
    then show ?thesis using 1 root
      by (intro exI[of _ None] exI[of _ s1] exI[of _ A1]) (simp add: pt_walk_alloc_def)
  next
    case (Some pdpt)
    have w1: "walk (pmem s1) root [?i] = Some pdpt" and p1: "is_path [?i]"
      using 1(5) Some idx_bounds(1) by (simp_all add: is_path_def)
    obtain r2 s2 A2 where 2: "walk_level s1 pdpt ?j = Some (r2, s2)" "buddy_ok T M s2 A2" "A1 \<subseteq> A2"
      "pt_wf A2 (pmem s2) root" "\<forall>v. r2 = Some v \<longrightarrow> walk (pmem s2) root [?i, ?j] = Some v"
      "same_leaves (pmem s1) (pmem s2) root"
      using walk_level_spec[OF 1(2,4) p1 _ w1, of ?j] idx_bounds(2) by (simp del: walk.simps(2)) blast
    have sub2: "A \<subseteq> A2" using 1(3) 2(3) by blast
    have sl2: "same_leaves (pmem s) (pmem s2) root" using 1(6) 2(6) by (rule same_leaves_trans)
    show ?thesis
    proof (cases r2)
      case None
      then show ?thesis using 1(1) 2(1,2,4) sub2 sl2 Some root
        by (intro exI[of _ None] exI[of _ s2] exI[of _ A2]) (simp add: pt_walk_alloc_def)
    next
      case r2: (Some pd)
      have w2: "walk (pmem s2) root [?i, ?j] = Some pd" and p2: "is_path [?i, ?j]"
        using 2(5) r2 idx_bounds by (simp_all add: is_path_def)
      obtain r3 s3 A3 where 3: "walk_level s2 pd ?k = Some (r3, s3)" "buddy_ok T M s3 A3" "A2 \<subseteq> A3"
        "pt_wf A3 (pmem s3) root" "\<forall>v. r3 = Some v \<longrightarrow> walk (pmem s3) root [?i, ?j, ?k] = Some v"
        "same_leaves (pmem s2) (pmem s3) root"
        using walk_level_spec[OF 2(2,4) p2 _ w2, of ?k] idx_bounds(3) by (simp del: walk.simps(2)) blast
      have "same_leaves (pmem s) (pmem s3) root" using sl2 3(6) by (rule same_leaves_trans)
      moreover have "pt_walk_alloc s root va = Some (r3, s3)"
        using 1(1) 2(1) 3(1) Some r2 root by (cases r3) (simp_all add: pt_walk_alloc_def)
      moreover have "A \<subseteq> A3" using sub2 3(3) by blast
      ultimately show ?thesis using 3(2,4,5)
        by (intro exI[of _ r3] exI[of _ s3] exI[of _ A3]) (simp add: idx3_def del: walk.simps(2))
    qed
  qed
qed

text \<open>The entry map_page writes.\<close>

definition pte_for :: "u64 \<Rightarrow> int \<Rightarrow> u64" where
  "pte_for pa prot = (pa AND PTE_ADDR_MASK) OR pte_flags prot"

text \<open>Writing one leaf entry changes that leaf and no other.\<close>

lemma leaf_put:
  fixes v :: u64
  assumes ok: "buddy_ok T M s A" and wf: "pt_wf A (pmem s) root" and w: "walk (pmem s) root (idx3 va) = Some t"
  defines "s' \<equiv> entry_put s t (PT_IDX va) v"
  shows "buddy_ok T M s' A" and "pt_wf A (pmem s') root"
    and "is_path q \<Longrightarrow> length q = 3 \<Longrightarrow> j < 512 \<Longrightarrow> leaf (pmem s') root q j =
        (if q = idx3 va \<and> j = PT_IDX va then v else leaf (pmem s) root q j)"
proof -
  note lim = buddy_ok_limits[OF ok]
  let ?j = "PT_IDX va" and ?m1 = "pmem s"
  define m where "m = ?m1(t + 8 * ?j := v)"
  have s': "s' = with_mem s m" using lim(2) by (simp add: s'_def entry_put_def entry_pa_eq with_mem_def m_def)
  have pm: "pmem s' = m" by (simp add: s' with_mem_def)
  have t: "(t, 0) \<in> A" using wf idx3_path(1) w by (rule pt_wf_frame)
  have te: "unat (t + 8 * ?j) \<in> cover A"
    using entry_in_frame(2)[OF lim(1) tiled_ok[OF lim(3) t] idx_bounds(4)] t unfolding cover_def by blast
  have inner: "m (u + 8 * i) = ?m1 (u + 8 * i)"
    if "is_path p" "length p < 3" "walk ?m1 root p = Some u" "i < 512" for p u i
  proof -
    have u: "(u, 0) \<in> A" using wf that(1,3) by (rule pt_wf_frame)
    have "u + 8 * i \<noteq> t + 8 * ?j"
    proof
      assume "u + 8 * i = t + 8 * ?j"
      then have "u = t" using entry_inj[OF lim(3,1) u t that(4) idx_bounds(4)] by blast
      then have "p = idx3 va" using pt_wf_path[OF wf that(1) idx3_path(1) that(3)] w by simp
      then show False using that(2) idx3_path(2) by simp
    qed
    then show ?thesis by (simp add: m_def)
  qed
  have W: "walk m root q = walk ?m1 root q" if "is_path q" for q
    using inner that by (rule walk_cong)
  show "pt_wf A (pmem s') root" unfolding pm using wf W by (simp add: pt_wf_def)
  show "buddy_ok T M s' A" unfolding s'
    by (rule with_mem_ok[OF ok]) (use te in \<open>auto simp: m_def\<close>)
  show "leaf (pmem s') root q j = (if q = idx3 va \<and> j = ?j then v else leaf (pmem s) root q j)"
    if q: "is_path q" "length q = 3" and j: "j < 512" unfolding pm
  proof (cases "walk ?m1 root q")
    case None
    then have "q \<noteq> idx3 va" using w by auto
    then show "leaf m root q j = (if q = idx3 va \<and> j = ?j then v else leaf ?m1 root q j)"
      using None W[OF q(1)] by (simp add: leaf_def)
  next
    case s: (Some u)
    have u: "(u, 0) \<in> A" using wf q(1) s by (rule pt_wf_frame)
    have "u + 8 * j = t + 8 * ?j \<longleftrightarrow> q = idx3 va \<and> j = ?j"
    proof
      assume "u + 8 * j = t + 8 * ?j"
      then have "u = t" "j = ?j" using entry_inj[OF lim(3,1) u t j idx_bounds(4)] by blast+
      then show "q = idx3 va \<and> j = ?j"
        using pt_wf_path[OF wf q(1) idx3_path(1) s] w by simp
    qed (use w s in simp)
    then show "leaf m root q j = (if q = idx3 va \<and> j = ?j then v else leaf ?m1 root q j)"
      using s W[OF q(1)] by (auto simp: leaf_def m_def)
  qed
qed

lemma map_page_spec:
  assumes ok: "buddy_ok T M s A" and wf: "pt_wf A (pmem s) root" and root: "root AND PTE_ADDR_MASK = root"
  shows "\<exists>s' A'. map_page s root va pa prot = Some s' \<and> buddy_ok T M s' A' \<and> A \<subseteq> A' \<and>
    pt_wf A' (pmem s') root \<and>
    ((\<forall>q j. is_path q \<longrightarrow> length q = 3 \<longrightarrow> j < 512 \<longrightarrow> leaf (pmem s') root q j =
        (if q = idx3 va \<and> j = PT_IDX va then pte_for pa prot else leaf (pmem s) root q j)) \<or>
     same_leaves (pmem s) (pmem s') root \<and> fst (the (pt_walk_alloc s root va)) = None)"
proof -
  obtain r s1 A1 where 1: "pt_walk_alloc s root va = Some (r, s1)" "buddy_ok T M s1 A1" "A \<subseteq> A1"
    "pt_wf A1 (pmem s1) root" "\<forall>t. r = Some t \<longrightarrow> walk (pmem s1) root (idx3 va) = Some t"
    "same_leaves (pmem s) (pmem s1) root"
    using pt_walk_alloc_spec[OF ok wf root] by blast
  show ?thesis
  proof (cases r)
    case None
    then show ?thesis using 1 by (intro exI[of _ s1] exI[of _ A1]) (simp add: map_page_def)
  next
    case (Some t)
    let ?s = "entry_put s1 t (PT_IDX va) (pte_for pa prot)"
    have w: "walk (pmem s1) root (idx3 va) = Some t" using 1(5) Some by simp
    note put = leaf_put[OF 1(2,4) w, where v = "pte_for pa prot"]
    have "map_page s root va pa prot = Some ?s" using 1(1) Some by (simp add: map_page_def pte_for_def)
    moreover have "leaf (pmem ?s) root q j = (if q = idx3 va \<and> j = PT_IDX va then pte_for pa prot else leaf (pmem s) root q j)"
      if "is_path q" "length q = 3" "j < 512" for q j
      using put(3)[OF that] 1(6) that by (simp add: same_leaves_def)
    ultimately show ?thesis using put(1,2) 1(3) by blast
  qed
qed

lemma virt_to_kva_leaf:
  assumes "\<not> early_boot s" and "root AND PTE_ADDR_MASK = root"
  shows "amm_virt_to_kva s root va =
    (let e = leaf (pmem s) root (idx3 va) (PT_IDX va) in
     if e AND PTE_PRESENT = 0 then 0
     else PHYS_MAP_BASE + ((e AND PTE_ADDR_MASK) OR (va AND (PAGE_SIZE - 1))))"
  using assms
  by (simp add: amm_virt_to_kva_def leaf_def idx3_def follow_def entry_get_eq phys_to_virt_def Let_def)

subsection \<open>Pages\<close>

text \<open>Two addresses are on the same page when they agree on bits 12 to 47.\<close>

definition same_page :: "u64 \<Rightarrow> u64 \<Rightarrow> bool" where
  "same_page va va' \<longleftrightarrow> take_bit 36 (drop_bit 12 va) = take_bit 36 (drop_bit 12 va')"

lemma idx_take_bit:
  "PML4_IDX v = take_bit 9 (drop_bit 39 v)" "PDPT_IDX v = take_bit 9 (drop_bit 30 v)"
  "PD_IDX v = take_bit 9 (drop_bit 21 v)" "PT_IDX v = take_bit 9 (drop_bit 12 v)"
proof -
  have m: "(0x1FF :: u64) = mask 9" by (simp add: mask_eq_exp_minus_1)
  show "PML4_IDX v = take_bit 9 (drop_bit 39 v)" "PDPT_IDX v = take_bit 9 (drop_bit 30 v)"
    "PD_IDX v = take_bit 9 (drop_bit 21 v)" "PT_IDX v = take_bit 9 (drop_bit 12 v)"
    unfolding PML4_IDX_def PDPT_IDX_def PD_IDX_def PT_IDX_def m take_bit_eq_mask by simp_all
qed

lemma take_bit_9_eqD:
  assumes "take_bit 9 (drop_bit k v) = take_bit 9 (drop_bit k (w :: u64))" and "k \<le> n" "n < k + 9"
  shows "bit v n \<longleftrightarrow> bit w n"
proof -
  have "bit (take_bit 9 (drop_bit k v)) (n - k) \<longleftrightarrow> bit (take_bit 9 (drop_bit k w)) (n - k)"
    using assms(1) by simp
  moreover have "n - k < 9" using assms(2,3) by linarith
  ultimately show ?thesis using assms(2) by (simp add: bit_take_bit_iff bit_drop_bit_eq)
qed

lemma same_page_iff: "same_page v w \<longleftrightarrow> idx3 v = idx3 w \<and> PT_IDX v = PT_IDX w"
proof
  assume p: "same_page v w"
  have b: "bit v (12 + n) \<longleftrightarrow> bit w (12 + n)" if "n < 36" for n
  proof -
    have "bit (take_bit 36 (drop_bit 12 v)) n \<longleftrightarrow> bit (take_bit 36 (drop_bit 12 w)) n"
      using p by (simp add: same_page_def)
    then show ?thesis using that by (simp add: bit_take_bit_iff bit_drop_bit_eq)
  qed
  have "take_bit 9 (drop_bit k v) = take_bit 9 (drop_bit k w)" if "12 \<le> k" "k \<le> 39" for k
  proof (rule bit_word_eqI)
    fix n assume "n < LENGTH(64)"
    show "bit (take_bit 9 (drop_bit k v)) n \<longleftrightarrow> bit (take_bit 9 (drop_bit k w)) n"
      using b[of "k + n - 12"] that by (auto simp: bit_take_bit_iff bit_drop_bit_eq)
  qed
  then show "idx3 v = idx3 w \<and> PT_IDX v = PT_IDX w" by (simp add: idx3_def idx_take_bit)
next
  assume i: "idx3 v = idx3 w \<and> PT_IDX v = PT_IDX w"
  then have e: "take_bit 9 (drop_bit k v) = take_bit 9 (drop_bit k w)" if "k \<in> {12, 21, 30, 39}" for k
    using that by (auto simp: idx3_def idx_take_bit)
  have "bit v (12 + n) \<longleftrightarrow> bit w (12 + n)" if "n < 36" for n
  proof -
    have "n < 9 \<or> 9 \<le> n \<and> n < 18 \<or> 18 \<le> n \<and> n < 27 \<or> 27 \<le> n" by linarith
    then show ?thesis
      using that take_bit_9_eqD[OF e[of 12], of "12 + n"] take_bit_9_eqD[OF e[of 21], of "12 + n"]
        take_bit_9_eqD[OF e[of 30], of "12 + n"] take_bit_9_eqD[OF e[of 39], of "12 + n"]
      by auto
  qed
  then show "same_page v w" unfolding same_page_def
    by (intro bit_word_eqI) (auto simp: bit_take_bit_iff bit_drop_bit_eq)
qed

lemma pte_bits:
  "bit PTE_PRESENT n \<longleftrightarrow> n = 0" "bit PTE_WRITE n \<longleftrightarrow> n = 1" "bit PTE_USER n \<longleftrightarrow> n = 2"
  "bit PTE_NX n \<longleftrightarrow> n = 63"
proof -
  have p: "PTE_PRESENT = 2 ^ 0" "PTE_WRITE = 2 ^ 1" "PTE_USER = 2 ^ 2" "PTE_NX = 2 ^ 63"
    by (simp_all add: PTE_PRESENT_def PTE_USER_def PTE_WRITE_def PTE_NX_def)
  show "bit PTE_PRESENT n \<longleftrightarrow> n = 0" "bit PTE_WRITE n \<longleftrightarrow> n = 1" "bit PTE_USER n \<longleftrightarrow> n = 2"
    "bit PTE_NX n \<longleftrightarrow> n = 63"
    unfolding p bit_exp_iff by (auto simp: possible_bit_word)
qed

lemma pte_for_bits:
  "pte_for pa prot AND PTE_PRESENT \<noteq> 0" "pte_for pa prot AND PTE_ADDR_MASK = pa AND PTE_ADDR_MASK"
proof -
  have f: "bit (pte_flags prot) n \<Longrightarrow> n < 3 \<or> n = 63" and z: "bit (pte_flags prot) 0" for n
    unfolding pte_flags_def Let_def by (auto simp: bit_or_iff pte_bits split: if_splits)
  have "bit (pte_for pa prot AND PTE_PRESENT) 0"
    using z by (simp add: pte_for_def bit_and_iff bit_or_iff pte_bits)
  then show "pte_for pa prot AND PTE_PRESENT \<noteq> 0" by (metis bit_0_eq bot_apply bot_bool_def)
  show "pte_for pa prot AND PTE_ADDR_MASK = pa AND PTE_ADDR_MASK"
    unfolding pte_for_def
    by (intro bit_word_eqI) (auto simp: bit_and_iff bit_or_iff bit_addr_mask dest!: f)
qed

lemma pt_wf_root:
  assumes "buddy_ok T M s A" and "pt_wf A m root"
  shows "root AND PTE_ADDR_MASK = root"
proof -
  have "(root, 0) \<in> A" using pt_wf_frame[OF assms(2), of "[]"] by (simp add: is_path_def)
  then show ?thesis
    using table_entry_addr(3)[OF buddy_ok_limits(1)[OF assms(1)] tiled_ok[OF buddy_ok_limits(3)[OF assms(1)]]]
    by blast
qed

subsection \<open>Properties\<close>


text \<open>An empty PML4 at 0x2000 and four free frames from 0x4000.\<close>

definition pt_demo :: phys_state where
  "pt_demo = demo_phys\<lparr>free_lists := (replicate 19 0)[2 := PHYS_MAP_BASE + 0x4000], free_pages := 4,
     page_infos := (\<lambda>_. Some blank_info)(2 \<mapsto> blank_info\<lparr>pi_flags := PAGE_ALLOC\<rparr>,
       4 \<mapsto> blank_info\<lparr>pi_flags := PAGE_FREE, pi_order := 2\<rparr>)\<rparr>"

lemma pt_demo_ok: "buddy_ok 0x8000 ({0x2000..<0x3000} \<union> {0x4000..<0x8000}) pt_demo {(0x2000, 0)}"
proof -
  let ?L = "(\<lambda>_. [])(2 := [0x4000]) :: nat \<Rightarrow> u64 list"
  have F: "fblocks ?L = {(0x4000, 2)}" by (auto simp: fblocks_def split: if_splits)
  have c: "free_count ?L = 4"
    unfolding free_count_def by (simp add: sum.remove[of "{..18}" 2])
  have l: "lists_ok pt_demo ?L"
    unfolding lists_ok_def c
    by (auto simp: pt_demo_def demo_phys_def PHYS_MAP_BASE_def nth_list_update nth_replicate
        simp del: replicate_Suc)
  have i: "infos_ok 0x8000 pt_demo {(0x4000, 2)} {(0x2000, 0)} {(0x4000, 2), (0x2000, 0)}"
  proof -
    have pf: "pfn p = n \<longleftrightarrow> p = 4096 * n" if "4096 dvd unat p" "n = 2 \<or> n = 4" for p n
    proof -
      have "unat (4096 * n) = 4096 * unat n" "unat n < 5" using that(2) by auto
      then show ?thesis
        using that(1) by (auto simp: word_unat_eq_iff unat_pfn elim!: dvdE)
    qed
    show ?thesis unfolding infos_ok_def
    proof (intro conjI allI impI)
      fix p pi
      assume a: "4096 dvd unat p" "unat p \<notin> cover {(0x4000, 2), (0x2000, 0)}"
        "page_infos pt_demo (pfn p) = Some pi"
      then have "p \<noteq> 0x4000" "p \<noteq> 0x2000" by (auto simp: cover_def extent_def bsize_def)
      then have "pfn p \<noteq> 2" "pfn p \<noteq> 4" using pf[OF a(1), of 2] pf[OF a(1), of 4] by auto
      then show "pi_flags pi AND PAGE_FREE = 0" using a(3) by (auto simp: pt_demo_def blank_info_def)
    qed (auto simp: info_is_def pt_demo_def pfn_def blank_info_def PAGE_FREE_def PAGE_ALLOC_def)
  qed
  have "tiled 0x8000 {(0x4000, 2), (0x2000, 0)}"
    by (auto simp: tiled_def pairwise_def block_ok_def bsize_def extent_def disjnt_def)
  then have "buddy_inv 0x8000 ({0x2000..<0x3000} \<union> {0x4000..<0x8000}) pt_demo ?L {(0x2000, 0)} {}"
    using l i by (simp add: buddy_inv_def F mem_limit_def cover_def extent_def bsize_def insert_commute Un_commute)
  then show ?thesis by (auto simp: buddy_ok_def)
qed

lemma pt_demo_wf: "pt_wf {(0x2000, 0)} (pmem pt_demo) 0x2000"
proof -
  have "pmem pt_demo x = 0" for x by (simp add: pt_demo_def demo_phys_def)
  then have "walk (pmem pt_demo) 0x2000 p = (if p = [] then Some 0x2000 else None)" for p
    by (cases p) (simp_all add: follow_def)
  then show ?thesis by (auto simp: pt_wf_def split: if_splits)
qed


text \<open>
  C17: the walk and the translation do not look at the page-size bit of a directory entry. In an
  address space whose directory holds a present 2 MiB entry, as every address space does for
  64 MiB to 4 GiB, mapping a page there overwrites a word inside that 2 MiB page instead of
  splitting it: the word that holds the page-table entry afterwards is at the index of the page
  in the frame the entry points to.
\<close>

theorem map_page_writes_into_huge_page:
  assumes "\<not> early_boot s" and "root AND PTE_ADDR_MASK = root"
    and "entry_get s root (PML4_IDX va) = e_top" "e_top AND PTE_PRESENT \<noteq> 0"
    and "entry_get s (e_top AND PTE_ADDR_MASK) (PDPT_IDX va) = e_dir" "e_dir AND PTE_PRESENT \<noteq> 0"
    and "entry_get s (e_dir AND PTE_ADDR_MASK) (PD_IDX va) = e_pd" "e_pd AND PTE_PRESENT \<noteq> 0"
    and "e_pd AND push_bit 7 1 \<noteq> 0"
  shows "\<exists>s'. map_page s root va pa prot = Some s' \<and>
    pmem s' = (pmem s)((e_pd AND PTE_ADDR_MASK) + 8 * PT_IDX va := (pa AND PTE_ADDR_MASK) OR pte_flags prot)"
  using assms
  by (simp add: map_page_def pt_walk_alloc_def walk_level_def entry_put_def entry_pa_eq)

theorem map_page_writes_into_huge_page_witness:
  "\<exists>s'. map_page (pt_demo\<lparr>pmem := (\<lambda>_. 0)(0x2000 := 0x3007, 0x3000 := 0x4007, 0x4100 := 0x4000087)\<rparr>)
      0x2000 0x4000000 0x7000 3 = Some s' \<and> pmem s' 0x4000000 = 0x8000000000007007"
proof -
  let ?s = "pt_demo\<lparr>pmem := (\<lambda>_. 0)(0x2000 := 0x3007, 0x3000 := 0x4007, 0x4100 := 0x4000087)\<rparr>"
  have "\<exists>s'. map_page ?s 0x2000 0x4000000 0x7000 3 = Some s' \<and>
    pmem s' = (pmem ?s)((0x4000087 AND PTE_ADDR_MASK) + 8 * PT_IDX 0x4000000 :=
      (0x7000 AND PTE_ADDR_MASK) OR pte_flags 3)"
    by (rule map_page_writes_into_huge_page[where e_top = "0x3007" and e_dir = "0x4007"])
      (simp_all add: pt_demo_def demo_phys_def entry_get_eq PTE_ADDR_MASK_def PML4_IDX_def PDPT_IDX_def
        PD_IDX_def PTE_PRESENT_def)
  then show ?thesis
    by (auto simp: PTE_ADDR_MASK_def PT_IDX_def pte_flags_def Let_def PTE_PRESENT_def PTE_USER_def
        PTE_WRITE_def PTE_NX_def PROT_WRITE_def PROT_EXEC_def)
qed

end
