(* ===== verification/Spin_Lock.thy ===== *)
theory Spin_Lock
  imports Prelude
begin

text \<open>
  The spinlock that \<^verbatim>\<open>port.c\<close>, \<^verbatim>\<open>sched.c\<close>, \<^verbatim>\<open>vfs.c\<close> and \<^verbatim>\<open>mm.c\<close> each define. The operations of
  the model run to completion, so a lock that is already held when it is asked for is held by
  the same thread of control and is never released: the exchange loop spins forever, which is
  the outcome \<open>None\<close>.
\<close>

definition spin_lock :: "u32 \<Rightarrow> u32 option" where
  "spin_lock l = (if l \<noteq> 0 then None else Some 1)"

definition spin_unlock :: "u32 \<Rightarrow> u32" where
  "spin_unlock l = 0"

lemma spin_lock_free [simp]: "spin_lock 0 = Some 1"
  by (simp add: spin_lock_def)

lemma spin_lock_held: "l \<noteq> 0 \<Longrightarrow> spin_lock l = None"
  by (simp add: spin_lock_def)

lemma spin_unlock_free [simp]: "spin_unlock l = 0"
  by (simp add: spin_unlock_def)

end
