(* ===== verification/Slab.thy ===== *)
theory Slab
  imports Block_Alloc
begin

text \<open>
  The kernel heap of kernel/mm/mm.c: ten size classes of slabs with an allocation bitmap in
  the slab header, large requests passed to the buddy allocator, and kfree, which finds the
  header from the pointer. Headers are kept by the kernel address of their slab; each class
  has the list of its slabs, newest first; \<open>kh_raw\<close> gives the 32-bit word at offset 4 of a
  page that holds no header, which kfree reads when it guesses what a pointer is.
\<close>

unbundle bit_operations_syntax

subsection \<open>Model\<close>

record slab_hdr =
  sl_free_count :: u32
  sl_obj_size :: u32
  sl_capacity :: u32
  sl_bitmap :: "u8 list"

record kheap =
  kh_phys :: phys_state
  kh_heads :: "u64 list list"
  kh_slabs :: "u64 \<rightharpoonup> slab_hdr"
  kh_raw :: "u64 \<Rightarrow> u32"

definition slab_sizes :: "u32 list" where
  "slab_sizes = [8, 16, 32, 64, 128, 256, 512, 1024, 2048, 4096]"

definition SLAB_HDR_SZ :: u32 where "SLAB_HDR_SZ = 64"

definition slab_class :: "u64 \<Rightarrow> nat option" where
  "slab_class sz = first_idx (\<lambda>c. sz \<le> ucast c) slab_sizes"

definition slab_pages :: "nat \<Rightarrow> u32" where
  "slab_pages cls = (if slab_sizes ! cls \<ge> 2048 then 2 else 1)"

definition new_header :: "nat \<Rightarrow> slab_hdr" where
  "new_header cls =
     (let obj_sz = slab_sizes ! cls;
          cap = (slab_pages cls * 4096 - SLAB_HDR_SZ) div obj_sz
      in \<lparr>sl_free_count = cap, sl_obj_size = obj_sz,
          sl_capacity = (if cap > 288 then 288 else cap), sl_bitmap = replicate 36 0\<rparr>)"

definition slab_new :: "kheap \<Rightarrow> nat \<Rightarrow> (u64 option \<times> kheap) option" where
  "slab_new h cls =
     (case amm_phys_alloc (kh_phys h) (if slab_pages cls = 2 then 1 else 0) of
        None \<Rightarrow> None
      | Some (pa, ph) \<Rightarrow>
          let h = h\<lparr>kh_phys := ph\<rparr> in
          if pa = 0 then Some (None, h)
          else let s = phys_to_virt ph pa in
            Some (Some s, h\<lparr>kh_slabs := (kh_slabs h)(s \<mapsto> new_header cls)\<rparr>))"

definition bit_set :: "u8 list \<Rightarrow> nat \<Rightarrow> bool" where
  "bit_set bm i = ((bm ! (i div 8)) AND push_bit (i mod 8) 1 \<noteq> 0)"

definition set_slot :: "u8 list \<Rightarrow> nat \<Rightarrow> u8 list" where
  "set_slot bm i = bm[i div 8 := bm ! (i div 8) OR push_bit (i mod 8) 1]"

definition clear_slot :: "u8 list \<Rightarrow> nat \<Rightarrow> u8 list" where
  "clear_slot bm i = bm[i div 8 := bm ! (i div 8) AND NOT (push_bit (i mod 8) 1)]"

definition free_slot :: "slab_hdr \<Rightarrow> nat" where
  "free_slot s =
     (case first_idx (\<lambda>i. \<not> bit_set (sl_bitmap s) i) [0..<unat (sl_capacity s)] of
        Some i \<Rightarrow> i | None \<Rightarrow> 0)"

fun first_usable :: "(u64 \<rightharpoonup> slab_hdr) \<Rightarrow> u64 list \<Rightarrow> u64 option" where
  "first_usable hs [] = None"
| "first_usable hs (v # vs) =
     (case hs v of
        Some s \<Rightarrow> if sl_free_count s = 0 then first_usable hs vs else Some v
      | None \<Rightarrow> None)"

definition take_slot :: "kheap \<Rightarrow> nat \<Rightarrow> u64 \<Rightarrow> (u64 \<times> kheap) option" where
  "take_slot h cls v =
     (case kh_slabs h v of
        None \<Rightarrow> None
      | Some s \<Rightarrow>
          let slot = free_slot s;
              s' = s\<lparr>sl_bitmap := set_slot (sl_bitmap s) slot,
                     sl_free_count := sl_free_count s - 1\<rparr>
          in Some (v + ucast SLAB_HDR_SZ + of_nat slot * ucast (slab_sizes ! cls),
                   h\<lparr>kh_slabs := (kh_slabs h)(v \<mapsto> s')\<rparr>))"

text \<open>The least order whose block holds the request; the shift overflows beyond 63 bits.\<close>

partial_function (option) order_from :: "u64 \<Rightarrow> nat \<Rightarrow> nat option" where
  "order_from sz k = (if push_bit k PAGE_SIZE < sz then order_from sz (Suc k) else Some k)"

declare order_from.simps [code]

definition kmalloc :: "kheap \<Rightarrow> u64 \<Rightarrow> (u64 \<times> kheap) option" where
  "kmalloc h sz =
     (if sz = 0 then Some (0, h)
      else
        (case slab_class sz of
           None \<Rightarrow> do {
             order \<leftarrow> order_from sz 0;
             (pa, ph) \<leftarrow> amm_phys_alloc (kh_phys h) order;
             Some (if pa \<noteq> 0 then phys_to_virt ph pa else 0, h\<lparr>kh_phys := ph\<rparr>)
           }
         | Some cls \<Rightarrow>
             (case first_usable (kh_slabs h) (kh_heads h ! cls) of
                Some v \<Rightarrow> take_slot h cls v
              | None \<Rightarrow> do {
                  (sv, h) \<leftarrow> slab_new h cls;
                  (case sv of
                     None \<Rightarrow> Some (0, h)
                   | Some v \<Rightarrow>
                       take_slot (h\<lparr>kh_heads := (kh_heads h)[cls := v # kh_heads h ! cls]\<rparr>) cls v)
                })))"

definition obj_size_at :: "kheap \<Rightarrow> u64 \<Rightarrow> u32" where
  "obj_size_at h v = (case kh_slabs h v of Some s \<Rightarrow> sl_obj_size s | None \<Rightarrow> kh_raw h v)"

definition info_at :: "kheap \<Rightarrow> u64 \<Rightarrow> page_info option" where
  "info_at h v = page_infos (kh_phys h) (pfn (virt_to_phys v))"

definition big_free :: "kheap \<Rightarrow> u64 \<Rightarrow> page_info \<Rightarrow> kheap option" where
  "big_free h ptr pi =
     map_option (\<lambda>ph. h\<lparr>kh_phys := ph\<rparr>)
       (amm_phys_free (kh_phys h) (virt_to_phys ptr) (unat (pi_order pi)))"

definition put_slot :: "kheap \<Rightarrow> u64 \<Rightarrow> u64 \<Rightarrow> kheap option" where
  "put_slot h v ptr =
     (case kh_slabs h v of
        None \<Rightarrow> None
      | Some s \<Rightarrow>
          let slot = (ucast ((ptr - (v + ucast SLAB_HDR_SZ)) div ucast (sl_obj_size s)) :: u32) in
          if slot \<ge> sl_capacity s then Some h
          else if \<not> bit_set (sl_bitmap s) (unat slot) then Some h
          else Some (h\<lparr>kh_slabs := (kh_slabs h)(v \<mapsto>
                 s\<lparr>sl_bitmap := clear_slot (sl_bitmap s) (unat slot),
                   sl_free_count := sl_free_count s + 1\<rparr>)\<rparr>))"

text \<open>
  A page that passes the size test of kfree without holding a header would be used as one;
  that is the fault case of \<open>put_slot\<close>.
\<close>

definition kfree :: "kheap \<Rightarrow> u64 \<Rightarrow> kheap option" where
  "kfree h ptr =
     (if ptr = 0 then Some h
      else do {
        pi \<leftarrow> info_at h ptr;
        if ptr mod PAGE_SIZE = 0 \<and> obj_size_at h ptr \<ge> 8 \<and> obj_size_at h ptr \<le> 4096
        then big_free h ptr pi
        else do {
          let s0 = ptr AND NOT (PAGE_SIZE - 1);
          spi \<leftarrow> info_at h s0;
          let s = (if pi_order spi = 1 \<and> ptr mod (2 * PAGE_SIZE) \<ge> PAGE_SIZE
                   then s0 - PAGE_SIZE else s0);
          if obj_size_at h s < 8 \<or> obj_size_at h s > 4096 then big_free h ptr pi
          else put_slot h s ptr
        }
      })"

subsection \<open>Bitmaps\<close>

lemma bit_set_iff: "bit_set bm i = bit (bm ! (i div 8)) (i mod 8)"
  by (simp add: bit_set_def bit_iff_and_push_bit_not_eq_0)

lemma div8_mod8_eq: "i div 8 = j div 8 \<Longrightarrow> i mod 8 = j mod 8 \<longleftrightarrow> i = j" for i j :: nat
  by (metis mult_div_mod_eq)

lemma bit_set_set_slot:
  assumes "i < 8 * length bm" and "j < 8 * length bm"
  shows "bit_set (set_slot bm i) j \<longleftrightarrow> j = i \<or> bit_set bm j"
proof (cases "i div 8 = j div 8")
  case True
  have "i div 8 < length bm" using assms by (simp add: div_less_iff_less_mult mult.commute)
  then show ?thesis
    using True div8_mod8_eq[OF True] by (auto simp: bit_set_iff set_slot_def bit_or_iff bit_exp_iff possible_bit_word)
next
  case False
  then show ?thesis by (auto simp: bit_set_iff set_slot_def)
qed

lemma bit_set_clear_slot:
  assumes "i < 8 * length bm" and "j < 8 * length bm"
  shows "bit_set (clear_slot bm i) j \<longleftrightarrow> j \<noteq> i \<and> bit_set bm j"
proof (cases "i div 8 = j div 8")
  case True
  have "i div 8 < length bm" using assms by (simp add: div_less_iff_less_mult mult.commute)
  then show ?thesis
    using True div8_mod8_eq[OF True]
    by (auto simp: bit_set_iff clear_slot_def bit_and_iff bit_not_iff bit_exp_iff possible_bit_word)
next
  case False
  then show ?thesis by (auto simp: bit_set_iff clear_slot_def)
qed

subsection \<open>Slab headers\<close>

definition used :: "slab_hdr \<Rightarrow> nat set" where
  "used s = {i. i < unat (sl_capacity s) \<and> bit_set (sl_bitmap s) i}"

abbreviation obj_sz :: "nat \<Rightarrow> nat" where
  "obj_sz c \<equiv> unat (slab_sizes ! c)"

abbreviation cap :: "nat \<Rightarrow> nat" where
  "cap c \<equiv> unat (sl_capacity (new_header c))"

definition slab_order :: "nat \<Rightarrow> nat" where
  "slab_order c = (if slab_pages c = 2 then 1 else 0)"

definition hdr_ok :: "nat \<Rightarrow> slab_hdr \<Rightarrow> bool" where
  "hdr_ok c s \<longleftrightarrow> sl_obj_size s = slab_sizes ! c \<and> sl_capacity s = sl_capacity (new_header c) \<and>
     length (sl_bitmap s) = 36 \<and>
     (1 \<le> c \<longrightarrow> unat (sl_free_count s) + card (used s) = unat (sl_capacity s))"

lemma class_cases: "c < 10 \<Longrightarrow> c = 0 \<or> c = 1 \<or> c = 2 \<or> c = 3 \<or> c = 4 \<or> c = 5 \<or> c = 6 \<or> c = 7 \<or>
    c = 8 \<or> c = 9" for c :: nat
  by presburger

lemma class_facts:
  assumes "c < 10"
  shows "cap c \<le> 288" and "0 < cap c" and "8 \<le> obj_sz c" and "obj_sz c \<le> 4096"
    and "64 + cap c * obj_sz c \<le> bsize (slab_order c)"
    and "1 \<le> c \<Longrightarrow> sl_free_count (new_header c) = sl_capacity (new_header c)"
  using class_cases[OF assms]
  by (elim disjE; simp add: new_header_def slab_sizes_def slab_pages_def SLAB_HDR_SZ_def Let_def
      slab_order_def bsize_def)+

lemma new_header_unused: "c < 10 \<Longrightarrow> used (new_header c) = {}"
proof -
  assume c: "c < 10"
  have "bit_set (replicate 36 0) i = False" if "i < 288" for i
    using that by (simp add: bit_set_iff nth_replicate del: replicate_Suc)
  then show ?thesis
    using class_facts(1)[OF c] by (auto simp: used_def new_header_def Let_def)
qed

lemma new_header_ok: "c < 10 \<Longrightarrow> hdr_ok c (new_header c)"
  using class_facts(6)[of c] new_header_unused[of c]
  by (auto simp: hdr_ok_def) (simp_all add: new_header_def Let_def)

lemma finite_used [simp]: "finite (used s)"
  by (simp add: used_def)

lemma free_slot_spec:
  assumes ok: "hdr_ok c s" and c: "1 \<le> c" "c < 10" and f: "sl_free_count s \<noteq> 0"
  shows "free_slot s < cap c" and "free_slot s \<notin> used s"
proof -
  let ?n = "unat (sl_capacity s)"
  have "0 < unat (sl_free_count s)" using f by (simp add: unat_gt_0)
  then have lt: "card (used s) < ?n" using ok c(1) by (auto simp: hdr_ok_def)
  have "\<exists>i<?n. \<not> bit_set (sl_bitmap s) i"
  proof (rule ccontr)
    assume "\<not> ?thesis"
    then have "used s = {..<?n}" by (auto simp: used_def)
    then show False using lt by simp
  qed
  then obtain i where i: "i < ?n" "\<not> bit_set (sl_bitmap s) i" by blast
  obtain k where k: "first_idx (\<lambda>i. \<not> bit_set (sl_bitmap s) i) [0..<?n] = Some k"
    using i by (cases "first_idx (\<lambda>i. \<not> bit_set (sl_bitmap s) i) [0..<?n]")
      (auto simp: first_idx_None)
  then have "k < ?n" "\<not> bit_set (sl_bitmap s) k"
    using first_idx_bound[OF k] first_idx_holds[OF k] by auto
  then show "free_slot s < cap c" "free_slot s \<notin> used s"
    using k ok by (auto simp: free_slot_def hdr_ok_def used_def)
qed

lemma hdr_ok_take:
  assumes ok: "hdr_ok c s" and c: "1 \<le> c" "c < 10" and f: "sl_free_count s \<noteq> 0"
    and i: "i < cap c" "i \<notin> used s"
  defines "s' \<equiv> s\<lparr>sl_bitmap := set_slot (sl_bitmap s) i, sl_free_count := sl_free_count s - 1\<rparr>"
  shows "hdr_ok c s'" and "used s' = insert i (used s)"
proof -
  have n: "length (sl_bitmap s) = 36" and cp: "unat (sl_capacity s) = cap c" "cap c \<le> 288"
    using ok class_facts(1)[OF c(2)] by (auto simp: hdr_ok_def)
  show u: "used s' = insert i (used s)"
    using bit_set_set_slot[of i "sl_bitmap s"] n cp i by (auto simp: used_def s'_def)
  have "unat (sl_free_count s - 1) = unat (sl_free_count s) - 1" using f by (simp add: unat_minus_one)
  moreover have "0 < unat (sl_free_count s)" using f by (simp add: unat_gt_0)
  ultimately have "unat (sl_free_count s') + card (used s') = unat (sl_capacity s)"
    using ok c(1) i(2) class_facts(2)[OF c(2)] unfolding u by (simp add: hdr_ok_def s'_def)
  then show "hdr_ok c s'" using ok by (simp add: hdr_ok_def s'_def set_slot_def)
qed

lemma hdr_ok_put:
  assumes ok: "hdr_ok c s" and c: "1 \<le> c" "c < 10" and i: "i \<in> used s"
  defines "s' \<equiv> s\<lparr>sl_bitmap := clear_slot (sl_bitmap s) i, sl_free_count := sl_free_count s + 1\<rparr>"
  shows "hdr_ok c s'" and "used s' = used s - {i}"
proof -
  have n: "length (sl_bitmap s) = 36" and cp: "unat (sl_capacity s) = cap c" "cap c \<le> 288"
    using ok class_facts(1)[OF c(2)] by (auto simp: hdr_ok_def)
  have ic: "i < cap c" using i cp by (simp add: used_def)
  show u: "used s' = used s - {i}"
    using bit_set_clear_slot[of i "sl_bitmap s"] n cp ic by (auto simp: used_def s'_def)
  have sum: "unat (sl_free_count s) + card (used s) = cap c" using ok c(1) cp by (simp add: hdr_ok_def)
  have pos: "0 < card (used s)" using i by (auto simp: card_gt_0_iff)
  then have "unat (sl_free_count s + 1) = unat (sl_free_count s) + 1"
    using sum cp(2) by (subst unat_add_lem[THEN iffD1]) auto
  then have "unat (sl_free_count s') + card (used s') = unat (sl_capacity s)"
    using sum pos i cp(1) unfolding u by (simp add: s'_def card_Diff_singleton)
  then show "hdr_ok c s'" using ok by (simp add: hdr_ok_def s'_def clear_slot_def)
qed

end
