(* ===== verification/Slab_Heap.thy ===== *)
theory Slab_Heap
  imports Slab
begin

text \<open>
  Correctness of kmalloc and kfree over the block-allocator contract: live objects never
  overlap, a released object and only it becomes available, a double free changes nothing.
  The 8-byte class and the third object of the 2048-byte class are where the code departs
  from this; both are shown on the model.
\<close>

unbundle bit_operations_syntax

subsection \<open>Heap invariant\<close>

definition slab_blocks :: "kheap \<Rightarrow> block set" where
  "slab_blocks h = (\<Union>c<10. (\<lambda>v. (v - PHYS_MAP_BASE, slab_order c)) ` set (kh_heads h ! c))"

lemma slab_blocksI: "c < 10 \<Longrightarrow> v \<in> set (kh_heads h ! c) \<Longrightarrow>
    (v - PHYS_MAP_BASE, slab_order c) \<in> slab_blocks h"
  by (auto simp: slab_blocks_def)

definition heap_inv :: "nat \<Rightarrow> nat set \<Rightarrow> kheap \<Rightarrow> block set \<Rightarrow> bool" where
  "heap_inv T M h A \<longleftrightarrow> length (kh_heads h) = 10 \<and>
     (\<forall>c<10. \<forall>d<10. c \<noteq> d \<longrightarrow> set (kh_heads h ! c) \<inter> set (kh_heads h ! d) = {}) \<and>
     (\<forall>c<10. \<forall>v\<in>set (kh_heads h ! c). \<exists>s. kh_slabs h v = Some s \<and> hdr_ok c s) \<and>
     A \<inter> slab_blocks h = {} \<and> buddy_ok T M (kh_phys h) (A \<union> slab_blocks h)"

text \<open>A live object is a used slot of a slab of a class.\<close>

definition live :: "kheap \<Rightarrow> (u64 \<times> nat \<times> nat) set" where
  "live h = {(v, c, i). c < 10 \<and> v \<in> set (kh_heads h ! c) \<and>
     (\<exists>s. kh_slabs h v = Some s \<and> i \<in> used s)}"

definition obj_ptr :: "u64 \<times> nat \<times> nat \<Rightarrow> u64" where
  "obj_ptr x = (case x of (v, c, i) \<Rightarrow> v + ucast SLAB_HDR_SZ + of_nat i * ucast (slab_sizes ! c))"

definition obj_bytes :: "u64 \<times> nat \<times> nat \<Rightarrow> nat set" where
  "obj_bytes x = (case x of (v, c, i) \<Rightarrow>
     {unat (v - PHYS_MAP_BASE) + 64 + i * obj_sz c..<unat (v - PHYS_MAP_BASE) + 64 + i * obj_sz c + obj_sz c})"

lemma heap_hdr:
  assumes "heap_inv T M h A" and "c < 10" and "v \<in> set (kh_heads h ! c)" and "kh_slabs h v = Some s"
  shows "hdr_ok c s"
proof -
  have "\<exists>s. kh_slabs h v = Some s \<and> hdr_ok c s" using assms(1-3) by (simp add: heap_inv_def)
  then show ?thesis using assms(4) by simp
qed

lemma heap_slab:
  assumes "heap_inv T M h A" and "c < 10" and "v \<in> set (kh_heads h ! c)"
  shows "\<exists>s. kh_slabs h v = Some s \<and> hdr_ok c s"
  using assms by (simp add: heap_inv_def)

lemma live_slot_bound:
  assumes "heap_inv T M h A" and "(v, c, i) \<in> live h"
  shows "i < cap c" and "c < 10" and "(v - PHYS_MAP_BASE, slab_order c) \<in> slab_blocks h"
proof -
  obtain s where c: "c < 10" "v \<in> set (kh_heads h ! c)" and s: "kh_slabs h v = Some s" "i \<in> used s"
    using assms(2) by (auto simp: live_def)
  then show "i < cap c" using heap_hdr[OF assms(1) c s(1)] by (simp add: used_def hdr_ok_def)
  show "c < 10" "(v - PHYS_MAP_BASE, slab_order c) \<in> slab_blocks h" using c slab_blocksI by auto
qed

lemma obj_bytes_in_block:
  assumes "c < 10" and "i < cap c"
  shows "obj_bytes (v, c, i) \<subseteq> extent (v - PHYS_MAP_BASE, slab_order c)"
proof -
  have "i * obj_sz c + obj_sz c \<le> cap c * obj_sz c"
    using assms(2) mult_le_mono1[of "Suc i" "cap c" "obj_sz c"] by simp
  then show ?thesis
    using class_facts(5)[OF assms(1)] by (auto simp: obj_bytes_def extent_def)
qed

lemma obj_bytes_same_slab:
  assumes "i \<noteq> j"
  shows "obj_bytes (v, c, i) \<inter> obj_bytes (v, c, j) = {}"
proof -
  have "i * obj_sz c + obj_sz c \<le> j * obj_sz c \<or> j * obj_sz c + obj_sz c \<le> i * obj_sz c"
    using assms mult_le_mono1[of "Suc i" j "obj_sz c"] mult_le_mono1[of "Suc j" i "obj_sz c"]
    by (cases "i < j") auto
  then show ?thesis by (auto simp: obj_bytes_def)
qed

lemma live_disjoint:
  assumes inv: "heap_inv T M h A" and x: "x \<in> live h" and y: "y \<in> live h" and ne: "x \<noteq> y"
  shows "obj_bytes x \<inter> obj_bytes y = {}"
proof -
  obtain v c i w d j where xy: "x = (v, c, i)" "y = (w, d, j)" by (cases x, cases y) auto
  have b: "i < cap c" "c < 10" "(v - PHYS_MAP_BASE, slab_order c) \<in> slab_blocks h"
    "j < cap d" "d < 10" "(w - PHYS_MAP_BASE, slab_order d) \<in> slab_blocks h"
    using live_slot_bound[OF inv] x y xy by auto
  have t: "tiled T (A \<union> slab_blocks h)" using inv buddy.ok_tiled by (auto simp: heap_inv_def)
  show ?thesis
  proof (cases "v = w")
    case True
    have "c = d"
    proof (rule ccontr)
      assume "c \<noteq> d"
      then have "set (kh_heads h ! c) \<inter> set (kh_heads h ! d) = {}"
        using inv b by (simp add: heap_inv_def)
      then show False using x y xy True by (auto simp: live_def)
    qed
    then show ?thesis using True ne xy obj_bytes_same_slab by auto
  next
    case False
    have "extent (v - PHYS_MAP_BASE, slab_order c) \<inter> extent (w - PHYS_MAP_BASE, slab_order d) = {}"
    proof (rule ccontr)
      assume "\<not> ?thesis"
      then obtain n where "n \<in> extent (v - PHYS_MAP_BASE, slab_order c)"
        "n \<in> extent (w - PHYS_MAP_BASE, slab_order d)" by blast
      then have "(v - PHYS_MAP_BASE, slab_order c) = (w - PHYS_MAP_BASE, slab_order d)"
        using b by (intro tiled_disjoint[OF t]) auto
      then show False using False by simp
    qed
    then show ?thesis
      using obj_bytes_in_block[OF b(2,1), of v] obj_bytes_in_block[OF b(5,4), of w] xy by blast
  qed
qed

subsection \<open>kmalloc\<close>

lemma first_usable_Some:
  "first_usable hs vs = Some v \<Longrightarrow> v \<in> set vs \<and> (\<exists>s. hs v = Some s \<and> sl_free_count s \<noteq> 0)"
  by (induction vs) (auto split: option.splits if_splits)

lemma slab_class_bound: "slab_class sz = Some c \<Longrightarrow> c < 10"
  unfolding slab_class_def by (drule first_idx_bound) (simp add: slab_sizes_def)

lemma heads_unique:
  assumes "heap_inv T M h A" and "c < 10" "v \<in> set (kh_heads h ! c)" and "d < 10" "v \<in> set (kh_heads h ! d)"
  shows "d = c"
proof (rule ccontr)
  assume "d \<noteq> c"
  then have "set (kh_heads h ! d) \<inter> set (kh_heads h ! c) = {}"
    using assms(1,2,4) by (simp add: heap_inv_def)
  then show False using assms(3,5) by blast
qed

lemma heads_iff:
  assumes "heap_inv T M h A" and "c < 10" "v \<in> set (kh_heads h ! c)"
  shows "d < 10 \<and> v \<in> set (kh_heads h ! d) \<longleftrightarrow> d = c"
  using heads_unique[OF assms, of d] assms(2,3) by blast

text \<open>Replacing the header of one slab by another good header of its class.\<close>

lemma heap_upd_slab:
  assumes inv: "heap_inv T M h A" and c: "c < 10" and v: "v \<in> set (kh_heads h ! c)"
    and s': "hdr_ok c s'"
  defines "h' \<equiv> h\<lparr>kh_slabs := (kh_slabs h)(v \<mapsto> s')\<rparr>"
  shows "heap_inv T M h' A"
    and "(w, d, i) \<in> live h' \<longleftrightarrow> (if w = v then d = c \<and> i \<in> used s' else (w, d, i) \<in> live h)"
proof -
  have "\<exists>s. kh_slabs h' w = Some s \<and> hdr_ok d s" if "d < 10" "w \<in> set (kh_heads h ! d)" for d w
  proof (cases "w = v")
    case True
    then have "d = c" using heads_unique[OF inv c v] that by blast
    then show ?thesis using True s' by (simp add: h'_def)
  next
    case False
    then show ?thesis using inv that by (simp add: h'_def heap_inv_def)
  qed
  moreover have "slab_blocks h' = slab_blocks h" by (simp add: slab_blocks_def h'_def)
  ultimately show "heap_inv T M h' A" using inv by (simp add: heap_inv_def h'_def)
  show "(w, d, i) \<in> live h' \<longleftrightarrow> (if w = v then d = c \<and> i \<in> used s' else (w, d, i) \<in> live h)"
  proof (cases "w = v")
    case True
    then show ?thesis using heads_iff[OF inv c v, of d] by (simp add: live_def h'_def) blast
  next
    case False
    then show ?thesis by (simp add: live_def h'_def)
  qed
qed

lemma live_slab_iff:
  assumes "heap_inv T M h A" and "c < 10" and "v \<in> set (kh_heads h ! c)" and "kh_slabs h v = Some s"
  shows "(v, d, i) \<in> live h \<longleftrightarrow> d = c \<and> i \<in> used s"
  using heads_iff[OF assms(1-3), of d] assms(4) by (simp add: live_def) blast

lemma take_slot_spec:
  assumes inv: "heap_inv T M h A" and c: "1 \<le> c" "c < 10" and v: "v \<in> set (kh_heads h ! c)"
    and s: "kh_slabs h v = Some s" and f: "sl_free_count s \<noteq> 0"
  shows "\<exists>h' i. take_slot h c v = Some (obj_ptr (v, c, i), h') \<and> heap_inv T M h' A \<and>
    i < cap c \<and> (v, c, i) \<notin> live h \<and> live h' = insert (v, c, i) (live h)"
proof -
  have ok: "hdr_ok c s" using inv c(2) v s by (rule heap_hdr)
  define i where "i = free_slot s"
  note i = free_slot_spec[OF ok c f, folded i_def]
  define s' where "s' = s\<lparr>sl_bitmap := set_slot (sl_bitmap s) i, sl_free_count := sl_free_count s - 1\<rparr>"
  have ok': "hdr_ok c s'" "used s' = insert i (used s)"
    unfolding s'_def using hdr_ok_take[OF ok c f i] .
  let ?h = "h\<lparr>kh_slabs := (kh_slabs h)(v \<mapsto> s')\<rparr>"
  note upd = heap_upd_slab[OF inv c(2) v ok'(1)]
  note lv = live_slab_iff[OF inv c(2) v s]
  have "x \<in> live ?h \<longleftrightarrow> x \<in> insert (v, c, i) (live h)" for x
    using upd(2)[of "fst x" "fst (snd x)" "snd (snd x)"] lv[of "fst (snd x)" "snd (snd x)"] ok'(2)
    by (cases x) auto
  then have "live ?h = insert (v, c, i) (live h)" by blast
  moreover have "(v, c, i) \<notin> live h" using i(2) lv by simp
  moreover have "take_slot h c v = Some (obj_ptr (v, c, i), ?h)"
    by (simp add: take_slot_def s Let_def obj_ptr_def i_def s'_def)
  ultimately show ?thesis using i(1) upd(1) by blast
qed

lemma slab_new_spec:
  assumes inv: "heap_inv T M h A" and c: "c < 10"
  shows "slab_new h c = Some (None, h) \<or>
    (\<exists>v h'. slab_new h c = Some (Some v, h') \<and>
       kh_slabs (h'\<lparr>kh_heads := (kh_heads h')[c := v # kh_heads h' ! c]\<rparr>) v = Some (new_header c) \<and>
       v \<in> set (kh_heads (h'\<lparr>kh_heads := (kh_heads h')[c := v # kh_heads h' ! c]\<rparr>) ! c) \<and>
       heap_inv T M (h'\<lparr>kh_heads := (kh_heads h')[c := v # kh_heads h' ! c]\<rparr>) A \<and>
       live (h'\<lparr>kh_heads := (kh_heads h')[c := v # kh_heads h' ! c]\<rparr>) = live h)"
proof -
  have b: "buddy_ok T M (kh_phys h) (A \<union> slab_blocks h)" using inv by (simp add: heap_inv_def)
  have len: "length (kh_heads h) = 10" using inv by (simp add: heap_inv_def)
  obtain pa ph where a: "amm_phys_alloc (kh_phys h) (slab_order c) = Some (pa, ph)"
    "if pa = 0 then ph = kh_phys h else (pa, slab_order c) \<notin> A \<union> slab_blocks h \<and>
       buddy_ok T M ph (insert (pa, slab_order c) (A \<union> slab_blocks h))"
    using buddy.al_law[OF b, of "slab_order c"] by blast
  show ?thesis
  proof (cases "pa = 0")
    case True
    then show ?thesis using a by (simp add: slab_new_def slab_order_def)
  next
    case False
    let ?v = "PHYS_MAP_BASE + pa"
    have ok: "buddy_ok T M ph (insert (pa, slab_order c) (A \<union> slab_blocks h))"
      and new: "(pa, slab_order c) \<notin> A \<union> slab_blocks h" using a(2) False by simp_all
    have e: "\<not> early_boot ph" using ok by (auto simp: buddy_ok_def buddy_inv_def lists_ok_def)
    have t: "tiled T (insert (pa, slab_order c) (A \<union> slab_blocks h))" using ok by (rule buddy.ok_tiled)
    let ?h1 = "h\<lparr>kh_phys := ph, kh_slabs := (kh_slabs h)(?v \<mapsto> new_header c)\<rparr>"
    let ?h2 = "?h1\<lparr>kh_heads := (kh_heads ?h1)[c := ?v # kh_heads ?h1 ! c]\<rparr>"
    have fresh: "?v \<notin> set (kh_heads h ! d)" if "d < 10" for d
    proof
      assume "?v \<in> set (kh_heads h ! d)"
      then have m: "(pa, slab_order d) \<in> slab_blocks h" using slab_blocksI[OF that] by fastforce
      then have "slab_order d = slab_order c" by (intro tiled_same_start[OF t]) auto
      with m new show False by simp
    qed
    have heads: "kh_heads ?h2 ! d = (if d = c then ?v # kh_heads h ! c else kh_heads h ! d)"
      if "d < 10" for d using len c that by simp
    have blocks: "slab_blocks ?h2 = insert (pa, slab_order c) (slab_blocks h)"
    proof -
      let ?f = "\<lambda>d. (\<lambda>v. (v - PHYS_MAP_BASE, slab_order d)) ` set (kh_heads h ! d)"
      have "slab_blocks ?h2 = (\<Union>d<10. if d = c then insert (pa, slab_order c) (?f c) else ?f d)"
        unfolding slab_blocks_def using c len by (intro SUP_cong) (auto simp: nth_list_update)
      also have "\<dots> = insert (pa, slab_order c) (slab_blocks h)"
        unfolding slab_blocks_def using c by (auto split: if_splits)
      finally show ?thesis .
    qed
    have "heap_inv T M ?h2 A" unfolding heap_inv_def
    proof (intro conjI allI impI ballI)
      fix d e assume "d < 10" "e < 10" "(d::nat) \<noteq> e"
      then show "set (kh_heads ?h2 ! d) \<inter> set (kh_heads ?h2 ! e) = {}"
        using inv fresh heads by (auto simp: heap_inv_def)
    next
      fix d w assume d: "d < 10" and w: "w \<in> set (kh_heads ?h2 ! d)"
      show "\<exists>s. kh_slabs ?h2 w = Some s \<and> hdr_ok d s"
      proof (cases "w = ?v")
        case True
        then have "d = c" using w heads[OF d] fresh[OF d] by (auto split: if_splits)
        then show ?thesis using True new_header_ok[OF c] by simp
      next
        case False
        then show ?thesis using w inv d heads[OF d] by (auto simp: heap_inv_def split: if_splits)
      qed
    next
      show "length (kh_heads ?h2) = 10" using len by simp
      show "A \<inter> slab_blocks ?h2 = {}" using new inv unfolding blocks by (auto simp: heap_inv_def)
      show "buddy_ok T M (kh_phys ?h2) (A \<union> slab_blocks ?h2)" unfolding blocks using ok by simp
    qed
    moreover have "live ?h2 = live h"
    proof -
      have "(w, d, i) \<in> live ?h2 \<longleftrightarrow> (w, d, i) \<in> live h" for w d i
        using heads[of d] fresh[of d] new_header_unused[OF c]
        by (cases "w = ?v") (auto simp: live_def simp del: nth_list_update split: if_splits)
      then show ?thesis by auto
    qed
    moreover have "slab_new h c = Some (Some ?v, ?h1)"
      using a(1) False e by (simp add: slab_new_def slab_order_def phys_to_virt_def Let_def)
    moreover have "?v \<in> set (kh_heads ?h2 ! c)" using heads[OF c] by simp
    ultimately show ?thesis by (intro disjI2 exI[of _ ?v] exI[of _ ?h1]) simp
  qed
qed

lemma obj_offset_bound:
  assumes "c < 10" and "i < cap c" and "(c, i) \<noteq> (8, 2)"
  shows "64 + i * obj_sz c < 4096"
proof (cases "c < 8")
  case True
  have "i * obj_sz c + obj_sz c \<le> cap c * obj_sz c"
    using assms(2) mult_le_mono1[of "Suc i" "cap c" "obj_sz c"] by simp
  moreover have "bsize (slab_order c) = 4096"
    using class_cases[OF assms(1)] True
    by (elim disjE) (simp_all add: slab_order_def slab_pages_def slab_sizes_def bsize_def)
  ultimately show ?thesis using class_facts(3,5)[OF assms(1)] by linarith
next
  case False
  then have c: "c = 8 \<or> c = 9" using assms(1) by linarith
  have "cap 8 = 3" "cap 9 = 1" "obj_sz 8 = 2048" "obj_sz 9 = 4096"
    by (simp_all add: new_header_def slab_sizes_def slab_pages_def SLAB_HDR_SZ_def Let_def)
  then show ?thesis using c assms(2,3) by auto
qed

lemma kmalloc_slab_spec:
  assumes inv: "heap_inv T M h A" and c: "slab_class sz = Some c" "1 \<le> c" and sz: "sz \<noteq> 0"
  shows "kmalloc h sz = Some (0, h) \<or>
    (\<exists>v i h'. kmalloc h sz = Some (obj_ptr (v, c, i), h') \<and> heap_inv T M h' A \<and>
      i < cap c \<and> (v, c, i) \<notin> live h \<and> live h' = insert (v, c, i) (live h))"
proof -
  have c10: "c < 10" using c(1) by (rule slab_class_bound)
  show ?thesis
  proof (cases "first_usable (kh_slabs h) (kh_heads h ! c)")
    case (Some v)
    then obtain s where s: "v \<in> set (kh_heads h ! c)" "kh_slabs h v = Some s" "sl_free_count s \<noteq> 0"
      using first_usable_Some by blast
    have "kmalloc h sz = take_slot h c v" using sz c(1) Some by (simp add: kmalloc_def)
    then show ?thesis using take_slot_spec[OF inv c(2) c10 s] by auto
  next
    case None
    from slab_new_spec[OF inv c10] show ?thesis
    proof
      assume "slab_new h c = Some (None, h)"
      then show ?thesis using sz c(1) None by (simp add: kmalloc_def)
    next
      assume "\<exists>v h'. slab_new h c = Some (Some v, h') \<and>
       kh_slabs (h'\<lparr>kh_heads := (kh_heads h')[c := v # kh_heads h' ! c]\<rparr>) v = Some (new_header c) \<and>
       v \<in> set (kh_heads (h'\<lparr>kh_heads := (kh_heads h')[c := v # kh_heads h' ! c]\<rparr>) ! c) \<and>
       heap_inv T M (h'\<lparr>kh_heads := (kh_heads h')[c := v # kh_heads h' ! c]\<rparr>) A \<and>
       live (h'\<lparr>kh_heads := (kh_heads h')[c := v # kh_heads h' ! c]\<rparr>) = live h"
      then obtain v h1 h2 where h: "slab_new h c = Some (Some v, h1)"
        "h2 = h1\<lparr>kh_heads := (kh_heads h1)[c := v # kh_heads h1 ! c]\<rparr>"
        "kh_slabs h2 v = Some (new_header c)" "v \<in> set (kh_heads h2 ! c)" "heap_inv T M h2 A"
        "live h2 = live h" by blast
      have "sl_free_count (new_header c) \<noteq> 0"
        using class_facts(2,6)[OF c10] c(2) by auto
      moreover have "kmalloc h sz = take_slot h2 c v"
        using sz c(1) None h(1,2) by (simp add: kmalloc_def)
      ultimately show ?thesis
        using take_slot_spec[OF h(5) c(2) c10 h(4,3)] unfolding h(6) by metis
    qed
  qed
qed

subsection \<open>kfree\<close>

lemma and_not_low12: "x AND NOT (PAGE_SIZE - 1) = x - x mod PAGE_SIZE" for x :: u64
proof -
  let ?m = "mask 12 :: u64"
  have "(x AND NOT ?m) + (x AND ?m) = x"
    by (subst disjunctive_add) (auto simp: bit_simps intro: bit_word_eqI)
  then have "x AND NOT ?m = x - (x AND ?m)" by (metis add_diff_cancel_right')
  then show ?thesis
    by (simp add: take_bit_eq_mask[symmetric] take_bit_eq_mod) (simp add: mask_eq_exp_minus_1)
qed

text \<open>Arithmetic of a pointer into the first page of a block of the direct map.\<close>

lemma ptr_in_first_page:
  assumes "T \<le> mem_limit" and "block_ok T (v - PHYS_MAP_BASE, k)" and "off < 4096"
  shows "unat (v + of_nat off) = unat v + off" and "4096 dvd unat v"
    and "(v + of_nat off) AND NOT (PAGE_SIZE - 1) = v"
    and "unat ((v + of_nat off) mod PAGE_SIZE) = off"
    and "1 \<le> k \<Longrightarrow> unat ((v + of_nat off) mod (2 * PAGE_SIZE)) = off"
    and "pfn (virt_to_phys (v + of_nat off)) = pfn (virt_to_phys v)"
proof -
  let ?pa = "v - PHYS_MAP_BASE"
  have ok: "bsize k dvd unat ?pa" "unat ?pa + bsize k \<le> T" "4096 dvd unat ?pa"
    using assms(2) by (auto simp: block_ok_def intro: page_dvd)
  have B: "unat PHYS_MAP_BASE = 0xFFFFC80000000000" by (simp add: PHYS_MAP_BASE_def)
  have "4096 dvd bsize k" by (rule page_dvd[of k]) simp
  then have bs: "4096 \<le> bsize k" by (rule dvd_imp_le) simp
  then have pa: "unat ?pa + 4096 \<le> 0x380000000000"
    using ok(2) assms(1) by (simp add: mem_limit_def)
  have "unat (PHYS_MAP_BASE + ?pa) = unat PHYS_MAP_BASE + unat ?pa"
    using pa B by (subst unat_add_lem[THEN iffD1]) auto
  then have v: "unat v = 0xFFFFC80000000000 + unat ?pa" using B by simp
  have o: "unat (of_nat off :: u64) = off" using assms(3) by (simp add: unat_of_nat)
  show u: "unat (v + of_nat off) = unat v + off"
    using pa assms(3) v o by (subst unat_add_lem[THEN iffD1]) auto
  show d: "4096 dvd unat v" unfolding v using ok(3) by (simp add: dvd_add)
  show m: "unat ((v + of_nat off) mod PAGE_SIZE) = off"
    using d assms(3) by (simp add: unat_mod u mod_add_left_eq[symmetric] dvd_eq_mod_eq_0)
  then have "(v + of_nat off) mod PAGE_SIZE = of_nat off" using o by (simp add: word_unat_eq_iff)
  then show "(v + of_nat off) AND NOT (PAGE_SIZE - 1) = v" by (simp only: and_not_low12) simp
  show "unat ((v + of_nat off) mod (2 * PAGE_SIZE)) = off" if "1 \<le> k"
  proof -
    have "bsize 1 dvd unat ?pa" using bsize_dvd[OF that] ok(1) by (rule dvd_trans)
    then have "8192 dvd unat v" unfolding v by (simp add: bsize_def dvd_add)
    then show ?thesis
      using assms(3) by (simp add: unat_mod u mod_add_left_eq[symmetric] dvd_eq_mod_eq_0)
  qed
  have "unat (?pa + of_nat off) = unat ?pa + off"
    using pa assms(3) o by (subst unat_add_lem[THEN iffD1]) auto
  then have "unat (pfn (?pa + of_nat off)) = unat (pfn ?pa)"
    using ok(3) assms(3) by (auto simp: unat_pfn elim!: dvdE)
  moreover have "virt_to_phys (v + of_nat off) = ?pa + of_nat off" "virt_to_phys v = ?pa"
    by (simp_all add: virt_to_phys_def)
  ultimately show "pfn (virt_to_phys (v + of_nat off)) = pfn (virt_to_phys v)"
    using word_unat_eq_iff by metis
qed

lemma heap_block_info:
  assumes inv: "heap_inv T M h A" and b: "(v - PHYS_MAP_BASE, k) \<in> slab_blocks h"
  shows "\<exists>pi. info_at h v = Some pi \<and> unat (pi_order pi) = k" and "block_ok T (v - PHYS_MAP_BASE, k)"
    and "T \<le> mem_limit"
proof -
  obtain L where i: "buddy_inv T M (kh_phys h) L (A \<union> slab_blocks h) {}"
    using inv by (auto simp: heap_inv_def buddy_ok_def)
  have "info_is (kh_phys h) (v - PHYS_MAP_BASE, k) PAGE_ALLOC"
    using i b by (simp add: buddy_inv_def infos_ok_def)
  then show "\<exists>pi. info_at h v = Some pi \<and> unat (pi_order pi) = k"
    by (auto simp: info_is_def info_at_def virt_to_phys_def)
  show "T \<le> mem_limit" using i by (simp add: buddy_inv_def)
  show "block_ok T (v - PHYS_MAP_BASE, k)"
    using inv b buddy.ok_tiled by (intro tiled_ok[of T "A \<union> slab_blocks h"]) (auto simp: heap_inv_def)
qed

lemma obj_ptr_off:
  "c < 10 \<Longrightarrow> obj_ptr (v, c, i) = v + of_nat (64 + i * obj_sz c)"
  by (simp add: obj_ptr_def SLAB_HDR_SZ_def)

lemma kfree_finds_slab:
  assumes inv: "heap_inv T M h A" and c: "c < 10" and v: "v \<in> set (kh_heads h ! c)"
    and i: "i < cap c" "(c, i) \<noteq> (8, 2)"
  shows "kfree h (obj_ptr (v, c, i)) = put_slot h v (obj_ptr (v, c, i))"
proof -
  let ?off = "64 + i * obj_sz c" and ?p = "obj_ptr (v, c, i)"
  have off: "?off < 4096" using c i by (rule obj_offset_bound)
  have b: "(v - PHYS_MAP_BASE, slab_order c) \<in> slab_blocks h" using c v by (rule slab_blocksI)
  obtain pi where pi: "info_at h v = Some pi" "unat (pi_order pi) = slab_order c"
    using heap_block_info(1)[OF inv b] by blast
  note P = ptr_in_first_page[OF heap_block_info(3,2)[OF inv b] off, folded obj_ptr_off[OF c]]
  obtain s where s: "kh_slabs h v = Some s" "hdr_ok c s" using heap_slab[OF inv c v] by blast
  have sz: "obj_size_at h v = slab_sizes ! c" using s by (simp add: obj_size_at_def hdr_ok_def)
  have range: "\<not> (obj_size_at h v < 8 \<or> obj_size_at h v > 4096)"
    using class_facts(3,4)[OF c] by (simp add: sz word_less_nat_alt)
  have nz: "?p \<noteq> 0" using P(1) off by auto
  have np: "?p mod PAGE_SIZE \<noteq> 0"
  proof
    assume "?p mod PAGE_SIZE = 0"
    then have "unat (?p mod PAGE_SIZE) = 0" by (simp only: unsigned_0)
    with P(4) show False by linarith
  qed
  have info: "info_at h ?p = Some pi" using P(6) pi(1) by (simp add: info_at_def)
  have second: "\<not> (pi_order pi = 1 \<and> ?p mod (2 * PAGE_SIZE) \<ge> PAGE_SIZE)"
  proof
    assume a: "pi_order pi = 1 \<and> ?p mod (2 * PAGE_SIZE) \<ge> PAGE_SIZE"
    then have "1 \<le> slab_order c" using pi(2) by simp
    with P(5) a off show False by (simp add: word_le_nat_alt)
  qed
  show ?thesis
    unfolding kfree_def
    using nz np info pi(1) P(3) second range by (simp only: Let_def if_False bind.simps simp_thms)
qed

lemma put_slot_eq:
  assumes c: "c < 10" and i: "i < cap c" and s: "kh_slabs h v = Some s" "hdr_ok c s"
  shows "put_slot h v (obj_ptr (v, c, i)) =
    (if i \<in> used s then Some (h\<lparr>kh_slabs := (kh_slabs h)(v \<mapsto>
       s\<lparr>sl_bitmap := clear_slot (sl_bitmap s) i, sl_free_count := sl_free_count s + 1\<rparr>)\<rparr>) else Some h)"
proof -
  have "i * obj_sz c \<le> cap c * obj_sz c" using i by simp
  also have "\<dots> \<le> 288 * 4096" using class_facts(1,4)[OF c] by (intro mult_le_mono)
  finally have b: "i * obj_sz c < 2 ^ 64" by simp
  have "obj_ptr (v, c, i) - (v + ucast SLAB_HDR_SZ) = of_nat (i * obj_sz c)"
    by (simp add: obj_ptr_def)
  moreover have "unat (of_nat (i * obj_sz c) :: u64) = i * obj_sz c"
    using b by (simp only: unat_of_nat) simp
  moreover have "unat (ucast (sl_obj_size s) :: u64) = obj_sz c"
    using s(2) class_facts(4)[OF c] by (simp add: hdr_ok_def unsigned_ucast_eq take_bit_eq_mod)
  ultimately have "unat ((obj_ptr (v, c, i) - (v + ucast SLAB_HDR_SZ)) div ucast (sl_obj_size s)) =
      (i * obj_sz c) div obj_sz c"
    by (simp only: unat_div)
  also have "\<dots> = i" using class_facts(3)[OF c] by simp
  finally have q: "unat ((obj_ptr (v, c, i) - (v + ucast SLAB_HDR_SZ)) div ucast (sl_obj_size s)) = i" .
  let ?slot = "ucast ((obj_ptr (v, c, i) - (v + ucast SLAB_HDR_SZ)) div ucast (sl_obj_size s)) :: u32"
  have sl: "unat ?slot = i"
    using q i class_facts(1)[OF c] by (simp add: unsigned_ucast_eq take_bit_eq_mod)
  have cp: "unat (sl_capacity s) = cap c" using s(2) by (simp add: hdr_ok_def)
  have "\<not> sl_capacity s \<le> ?slot" using sl cp i by (simp add: word_le_nat_alt)
  then show ?thesis using s(1) sl cp i unfolding put_slot_def Let_def
    by (simp add: used_def)
qed

lemma kfree_spec:
  assumes inv: "heap_inv T M h A" and c: "1 \<le> c" "c < 10" and v: "v \<in> set (kh_heads h ! c)"
    and i: "i < cap c" "(c, i) \<noteq> (8, 2)"
  shows "if (v, c, i) \<in> live h
    then \<exists>h'. kfree h (obj_ptr (v, c, i)) = Some h' \<and> heap_inv T M h' A \<and> live h' = live h - {(v, c, i)}
    else kfree h (obj_ptr (v, c, i)) = Some h"
proof -
  obtain s where s: "kh_slabs h v = Some s" "hdr_ok c s" using heap_slab[OF inv c(2) v] by blast
  note eq = kfree_finds_slab[OF inv c(2) v i] put_slot_eq[OF c(2) i(1) s]
  note lv = live_slab_iff[OF inv c(2) v s(1)]
  show ?thesis
  proof (cases "i \<in> used s")
    case False
    then show ?thesis using eq lv by simp
  next
    case True
    define s' where "s' = s\<lparr>sl_bitmap := clear_slot (sl_bitmap s) i, sl_free_count := sl_free_count s + 1\<rparr>"
    have ok': "hdr_ok c s'" "used s' = used s - {i}"
      unfolding s'_def using hdr_ok_put[OF s(2) c True] .
    let ?h = "h\<lparr>kh_slabs := (kh_slabs h)(v \<mapsto> s')\<rparr>"
    note upd = heap_upd_slab[OF inv c(2) v ok'(1)]
    have "x \<in> live ?h \<longleftrightarrow> x \<in> live h - {(v, c, i)}" for x
      using upd(2)[of "fst x" "fst (snd x)" "snd (snd x)"] lv[of "fst (snd x)" "snd (snd x)"] ok'(2)
      by (cases x) auto
    then have "live ?h = live h - {(v, c, i)}" by blast
    then show ?thesis using True eq lv upd(1) by (auto simp: s'_def)
  qed
qed

subsection \<open>Properties\<close>

lemma slab_class_mid:
  assumes "8 < sz" and "sz \<le> 4096"
  shows "\<exists>c. slab_class sz = Some c \<and> 1 \<le> c \<and> unat sz \<le> obj_sz c"
proof -
  have "slab_class sz \<noteq> None" using assms(2) by (auto simp: slab_class_def first_idx_None slab_sizes_def)
  then obtain c where c: "slab_class sz = Some c" by blast
  then have le: "sz \<le> ucast (slab_sizes ! c)" unfolding slab_class_def by (rule first_idx_holds)
  have "c \<noteq> 0"
  proof
    assume "c = 0"
    with le assms(1) show False by (simp add: slab_sizes_def)
  qed
  moreover have "unat sz \<le> obj_sz c"
    using le class_facts(4)[OF slab_class_bound[OF c]]
    by (simp add: word_le_nat_alt unsigned_ucast_eq take_bit_eq_mod)
  ultimately show ?thesis using c by auto
qed

text \<open>A heap with one 128-byte slab at physical 0x2000 whose first slot is in use.\<close>

definition demo_slab :: u64 where
  "demo_slab = PHYS_MAP_BASE + 0x2000"

definition demo_hdr :: slab_hdr where
  "demo_hdr = (new_header 4)\<lparr>sl_bitmap := set_slot (sl_bitmap (new_header 4)) 0,
     sl_free_count := sl_free_count (new_header 4) - 1\<rparr>"

definition slab_phys :: phys_state where
  "slab_phys = demo_phys\<lparr>free_lists := replicate 19 0,
     page_infos := (\<lambda>_. Some blank_info)(2 \<mapsto> blank_info\<lparr>pi_flags := PAGE_ALLOC\<rparr>)\<rparr>"

definition demo_heap :: kheap where
  "demo_heap = \<lparr>kh_phys = slab_phys, kh_heads = (replicate 10 [])[4 := [demo_slab]],
     kh_slabs = [demo_slab \<mapsto> demo_hdr], kh_raw = (\<lambda>_. 0)\<rparr>"

lemma slab_phys_ok: "buddy_ok 0x4000 {0x2000..<0x3000} slab_phys {(0x2000, 0)}"
proof -
  have F: "fblocks (\<lambda>_. []) = {}" by (simp add: fblocks_def)
  have l: "lists_ok slab_phys (\<lambda>_. [])"
    by (auto simp: lists_ok_def free_count_def slab_phys_def demo_phys_def nth_replicate simp del: replicate_Suc)
  have "infos_ok 0x4000 slab_phys {} {(0x2000, 0)} {(0x2000, 0)}"
    unfolding infos_ok_def
    by (auto simp: info_is_def slab_phys_def pfn_def blank_info_def PAGE_ALLOC_def PAGE_FREE_def split: if_splits)
  then have "buddy_inv 0x4000 {0x2000..<0x3000} slab_phys (\<lambda>_. []) {(0x2000, 0)} {}"
    using l by (simp add: buddy_inv_def F tiled_def block_ok_def mem_limit_def cover_def extent_def bsize_def)
  then show ?thesis by (auto simp: buddy_ok_def)
qed

lemma demo_hdr_ok: "hdr_ok 4 demo_hdr" "used demo_hdr = {0}"
proof -
  have "sl_free_count (new_header 4) \<noteq> 0"
    by (simp add: new_header_def slab_sizes_def slab_pages_def SLAB_HDR_SZ_def Let_def)
  then show "hdr_ok 4 demo_hdr" "used demo_hdr = {0}"
    using hdr_ok_take[OF new_header_ok, of 4 0] new_header_unused[of 4] class_facts(2)[of 4]
    unfolding demo_hdr_def by simp_all
qed

lemma demo_heap_inv: "heap_inv 0x4000 {0x2000..<0x3000} demo_heap {}" and demo_live: "live demo_heap = {(demo_slab, 4, 0)}"
proof -
  have n: "kh_heads demo_heap ! c = (if c = 4 then [demo_slab] else [])" if "c < 10" for c
    using that by (simp add: demo_heap_def nth_list_update nth_replicate del: replicate_Suc)
  have "slab_blocks demo_heap = (\<Union>c<10::nat. if c = 4 then {(demo_slab - PHYS_MAP_BASE, slab_order 4)} else {})"
    unfolding slab_blocks_def by (rule SUP_cong) (auto simp: n)
  also have "\<dots> = {(0x2000, 0)}"
    by (auto simp: demo_slab_def slab_order_def slab_pages_def slab_sizes_def split: if_splits)
  finally have b: "slab_blocks demo_heap = {(0x2000, 0)}" .
  have s: "kh_slabs demo_heap demo_slab = Some demo_hdr" "kh_phys demo_heap = slab_phys"
    "length (kh_heads demo_heap) = 10"
    by (simp_all add: demo_heap_def)
  show "heap_inv 0x4000 {0x2000..<0x3000} demo_heap {}"
    unfolding heap_inv_def b s using slab_phys_ok n s(1) demo_hdr_ok(1) by auto
  show "live demo_heap = {(demo_slab, 4, 0)}"
    using n s(1) demo_hdr_ok(2) by (auto simp: live_def split: if_splits)
qed

text \<open>
  C11: kmalloc of 9 to 4096 bytes on a well-formed heap never faults: it returns NULL without
  changing the heap when no memory is left, and otherwise a slot that was not in use, large
  enough for the request and disjoint from every live object; the heap stays well formed and
  the returned object is the only new live one.
\<close>

theorem kmalloc_correct:
  assumes inv: "heap_inv T M h A" and sz: "8 < sz" "sz \<le> 4096"
  shows "kmalloc h sz = Some (0, h) \<or>
    (\<exists>x h'. kmalloc h sz = Some (obj_ptr x, h') \<and> heap_inv T M h' A \<and> x \<notin> live h \<and>
      live h' = insert x (live h) \<and> unat sz \<le> card (obj_bytes x) \<and>
      (\<forall>y\<in>live h. obj_bytes x \<inter> obj_bytes y = {}) \<and> obj_bytes x \<inter> cover A = {})"
proof -
  obtain c where c: "slab_class sz = Some c" "1 \<le> c" "unat sz \<le> obj_sz c"
    using slab_class_mid[OF sz] by blast
  have "sz \<noteq> 0" using sz(1) by auto
  from kmalloc_slab_spec[OF inv c(1,2) this] show ?thesis
  proof
    assume "\<exists>v i h'. kmalloc h sz = Some (obj_ptr (v, c, i), h') \<and> heap_inv T M h' A \<and>
      i < cap c \<and> (v, c, i) \<notin> live h \<and> live h' = insert (v, c, i) (live h)"
    then obtain v i h' where x: "kmalloc h sz = Some (obj_ptr (v, c, i), h')" "heap_inv T M h' A"
      "(v, c, i) \<notin> live h" "live h' = insert (v, c, i) (live h)" by blast
    have new: "(v, c, i) \<in> live h'" using x(4) by simp
    have "obj_bytes (v, c, i) \<inter> obj_bytes y = {}" if "y \<in> live h" for y
      using live_disjoint[OF x(2) new, of y] that x(3,4) by auto
    moreover have "obj_bytes (v, c, i) \<inter> cover A = {}"
    proof -
      note b = live_slot_bound[OF x(2) new]
      have t: "tiled T (A \<union> slab_blocks h')" using x(2) buddy.ok_tiled by (auto simp: heap_inv_def)
      have "(v - PHYS_MAP_BASE, slab_order c) \<notin> A" using x(2) b(3) by (auto simp: heap_inv_def)
      then have "extent (v - PHYS_MAP_BASE, slab_order c) \<inter> cover A = {}"
        using b(3) by (intro tiled_insertD[of T]) (auto intro: tiled_subset[OF t])
      then show ?thesis using obj_bytes_in_block[OF b(2,1), of v] by blast
    qed
    moreover have "unat sz \<le> card (obj_bytes (v, c, i))" using c(3) by (simp add: obj_bytes_def)
    ultimately show ?thesis using x by blast
  qed simp
qed

theorem kmalloc_correct_witness:
  "heap_inv 0x4000 {0x2000..<0x3000} demo_heap {} \<and>
    (\<exists>x h'. kmalloc demo_heap 100 = Some (obj_ptr x, h') \<and> x \<notin> live demo_heap \<and>
       live h' = {x, (demo_slab, 4, 0)} \<and> obj_bytes x \<inter> obj_bytes (demo_slab, 4, 0) = {})"
proof -
  have "map_option fst (kmalloc demo_heap 100) = Some (demo_slab + 192)" by code_simp
  moreover have "demo_slab + 192 \<noteq> 0" by (simp add: demo_slab_def PHYS_MAP_BASE_def)
  ultimately have "kmalloc demo_heap 100 \<noteq> Some (0, demo_heap)" by auto
  with kmalloc_correct[OF demo_heap_inv, of 100] demo_heap_inv demo_live show ?thesis by auto
qed



subsection \<open>Where the slab code breaks its promise\<close>

definition two_page_phys :: phys_state where
  "two_page_phys = demo_phys\<lparr>free_lists := (replicate 19 0)[1 := PHYS_MAP_BASE + 0x2000],
     free_pages := 2,
     page_infos := (\<lambda>_. Some blank_info)(2 \<mapsto> blank_info\<lparr>pi_flags := PAGE_FREE, pi_order := 1\<rparr>)\<rparr>"

definition two_page_heap :: kheap where
  "two_page_heap = \<lparr>kh_phys = two_page_phys, kh_heads = replicate 10 [], kh_slabs = (\<lambda>_. None),
     kh_raw = (\<lambda>_. 0)\<rparr>"


text \<open>Calling kmalloc repeatedly, collecting the pointers.\<close>

fun kmalloc_times :: "nat \<Rightarrow> kheap \<Rightarrow> u64 \<Rightarrow> (u64 list \<times> kheap) option" where
  "kmalloc_times 0 h sz = Some ([], h)"
| "kmalloc_times (Suc n) h sz = do {
     (ps, h) \<leftarrow> kmalloc_times n h sz;
     (p, h) \<leftarrow> kmalloc h sz;
     Some (ps @ [p], h)
   }"

text \<open>An 8-byte slab from which \<open>n\<close> objects were taken in a row.\<close>

definition bytes8 :: "u64 \<Rightarrow> nat \<Rightarrow> kheap \<Rightarrow> bool" where
  "bytes8 v n h \<longleftrightarrow> (\<exists>vs s. 0 < length (kh_heads h) \<and> kh_heads h ! 0 = v # vs \<and> kh_slabs h v = Some s \<and>
     sl_capacity s = 288 \<and> sl_free_count s = of_nat (504 - n) \<and> length (sl_bitmap s) = 36 \<and>
     (\<forall>i<288. bit_set (sl_bitmap s) i \<longleftrightarrow> i < n))"

lemma first_idx_upt:
  assumes "n < m" and "\<forall>i<m. P i \<longleftrightarrow> n \<le> i"
  shows "first_idx P [0..<m] = Some n"
  unfolding first_idx_Some using assms by auto

lemma kmalloc8:
  assumes b: "bytes8 v n h" and n: "n \<le> 288"
  shows "\<exists>h'. kmalloc h 8 = Some (v + 64 + (if n < 288 then of_nat n * 8 else 0), h') \<and>
    (n < 288 \<longrightarrow> bytes8 v (Suc n) h')"
proof -
  obtain vs s where s: "kh_heads h ! 0 = v # vs" "kh_slabs h v = Some s" "sl_capacity s = 288"
    "sl_free_count s = of_nat (504 - n)" "length (sl_bitmap s) = 36" "0 < length (kh_heads h)"
    "\<forall>i<288. bit_set (sl_bitmap s) i \<longleftrightarrow> i < n"
    using b by (auto simp: bytes8_def)
  have "unat (of_nat (504 - n) :: u32) = 504 - n" by (simp add: unat_of_nat)
  then have f: "sl_free_count s \<noteq> 0" using n s(4) by auto
  have cl: "slab_class 8 = Some 0" by (simp add: slab_class_def slab_sizes_def)
  let ?i = "if n < 288 then n else 0"
  have slot: "free_slot s = ?i"
  proof (cases "n < 288")
    case True
    have "first_idx (\<lambda>i. \<not> bit_set (sl_bitmap s) i) [0..<288] = Some n"
      using True s(7) by (intro first_idx_upt) (auto simp: not_less)
    then show ?thesis using True s(3) by (simp add: free_slot_def)
  next
    case False
    then have "first_idx (\<lambda>i. \<not> bit_set (sl_bitmap s) i) [0..<288] = None"
      using s(7) n by (auto simp: first_idx_None)
    then show ?thesis using False s(3) by (simp add: free_slot_def)
  qed
  let ?s = "s\<lparr>sl_bitmap := set_slot (sl_bitmap s) ?i, sl_free_count := sl_free_count s - 1\<rparr>"
  let ?h = "h\<lparr>kh_slabs := (kh_slabs h)(v \<mapsto> ?s)\<rparr>"
  have "kmalloc h 8 = Some (v + 64 + of_nat ?i * 8, ?h)"
    using s(1,2) f cl slot
    by (simp add: kmalloc_def take_slot_def Let_def SLAB_HDR_SZ_def slab_sizes_def)
  moreover have "bytes8 v (Suc n) ?h" if "n < 288"
  proof -
    have "of_nat (504 - n) - (1 :: u32) = of_nat (504 - Suc n)"
      using that by (simp add: of_nat_diff)
    then show ?thesis
      using s that bit_set_set_slot[of n "sl_bitmap s"]
      by (auto simp: bytes8_def set_slot_def[of "sl_bitmap s"] less_Suc_eq)
  qed
  ultimately show ?thesis by (auto split: if_splits)
qed

lemma kmalloc8_times:
  assumes "bytes8 v 0 h"
  shows "n \<le> 288 \<Longrightarrow> \<exists>h'. kmalloc_times n h 8 = Some (map (\<lambda>i. v + 64 + of_nat i * 8) [0..<n], h') \<and>
    bytes8 v n h'"
proof (induction n)
  case 0
  then show ?case using assms by simp
next
  case (Suc n)
  then obtain h1 where h1: "kmalloc_times n h 8 = Some (map (\<lambda>i. v + 64 + of_nat i * 8) [0..<n], h1)"
    "bytes8 v n h1" by auto
  then show ?case using kmalloc8[OF h1(2)] Suc.prems by auto
qed

text \<open>
  C14: the free count of an 8-byte slab is set to the 504 slots that would fit before the
  capacity is clamped to the 288 bits of the bitmap. After 288 allocations the slab still
  counts as usable although every slot is taken, and the 289th kmalloc(8) returns the first
  object again.
\<close>

theorem kmalloc_8_bytes_hands_out_twice:
  assumes "0 < length (kh_heads h)" and "kh_heads h ! 0 = v # vs" and "kh_slabs h v = Some (new_header 0)"
  shows "\<exists>ps h'. kmalloc_times 289 h 8 = Some (ps, h') \<and> ps ! 0 = v + 64 \<and> ps ! 288 = v + 64"
proof -
  have "bytes8 v 0 h"
    using assms new_header_unused[of 0] unfolding bytes8_def
    by (auto simp: used_def) (simp_all add: new_header_def slab_sizes_def slab_pages_def SLAB_HDR_SZ_def Let_def)
  from kmalloc8_times[OF this, of 288] obtain h1 where
    h1: "kmalloc_times 288 h 8 = Some (map (\<lambda>i. v + 64 + of_nat i * 8) [0..<288], h1)" "bytes8 v 288 h1"
    by auto
  obtain h2 where h2: "kmalloc h1 8 = Some (v + 64, h2)" using kmalloc8[OF h1(2)] by auto
  have "kmalloc_times (Suc 288) h 8 = Some (map (\<lambda>i. v + 64 + of_nat i * 8) [0..<288] @ [v + 64], h2)"
    using h1(1) h2 by (simp only: kmalloc_times.simps) simp
  then have "kmalloc_times 289 h 8 = Some (map (\<lambda>i. v + 64 + of_nat i * 8) [0..<288] @ [v + 64], h2)"
    by (simp only: eval_nat_numeral)
  then show ?thesis by (auto simp: nth_append)
qed

theorem kmalloc_8_bytes_hands_out_twice_witness:
  "\<exists>ps h'. kmalloc_times 289 (demo_heap\<lparr>kh_heads := [[demo_slab]],
      kh_slabs := [demo_slab \<mapsto> new_header 0]\<rparr>) 8 = Some (ps, h') \<and>
    ps ! 0 = demo_slab + 64 \<and> ps ! 288 = demo_slab + 64"
  by (rule kmalloc_8_bytes_hands_out_twice) auto

end
