(* ===== verification/Kernel_Heap.thy ===== *)
theory Kernel_Heap
  imports Slab_Heap
begin

text \<open>
  What the rest of the kernel relies on when it calls \<^verbatim>\<open>kmalloc\<close> and \<^verbatim>\<open>kfree\<close>: the locale
  \<open>kernel_heap\<close> promises that an allocation is a fresh pointer and that releasing an owned
  pointer succeeds and releases nothing else. The slab heap keeps this promise for requests
  of 9 to 1024 bytes; it is interpreted on the model's \<open>kmalloc\<close> and \<open>kfree\<close>.
\<close>

locale kernel_heap =
  fixes alloc :: "'h \<Rightarrow> u64 \<Rightarrow> (u64 \<times> 'h) option"
    and free :: "'h \<Rightarrow> u64 \<Rightarrow> 'h option"
    and inv :: "'h \<Rightarrow> bool"
    and owned :: "'h \<Rightarrow> u64 set"
  assumes alloc_cases: "inv h \<Longrightarrow> 8 < sz \<Longrightarrow> sz \<le> 1024 \<Longrightarrow>
      alloc h sz = Some (0, h) \<or>
      (\<exists>p h'. alloc h sz = Some (p, h') \<and> p \<noteq> 0 \<and> p \<notin> owned h \<and> inv h' \<and>
         owned h' = insert p (owned h))"
    and free_owned: "inv h \<Longrightarrow> p \<in> owned h \<Longrightarrow>
      \<exists>h'. free h p = Some h' \<and> inv h' \<and> owned h' = owned h - {p}"
begin

lemma alloc_total: "inv h \<Longrightarrow> 8 < sz \<Longrightarrow> sz \<le> 1024 \<Longrightarrow> \<exists>p h'. alloc h sz = Some (p, h') \<and> inv h'"
  using alloc_cases by blast

end

definition heap_ok :: "kheap \<Rightarrow> bool" where
  "heap_ok h \<longleftrightarrow> (\<exists>T M A. heap_inv T M h A)"

definition small :: "u64 \<times> nat \<times> nat \<Rightarrow> bool" where
  "small x = (case x of (v, c, i) \<Rightarrow> 1 \<le> c \<and> c < 8)"

definition heap_owned :: "kheap \<Rightarrow> u64 set" where
  "heap_owned h = obj_ptr ` {x \<in> live h. small x}"

lemma small_ptr:
  assumes inv: "heap_inv T M h A" and x: "(v, c, i) \<in> live h" "small (v, c, i)"
  shows "obj_ptr (v, c, i) AND NOT (PAGE_SIZE - 1) = v" and "obj_ptr (v, c, i) \<noteq> 0"
    and "unat (obj_ptr (v, c, i)) = unat v + (64 + i * obj_sz c)"
proof -
  note b = live_slot_bound[OF inv x(1)]
  have off: "64 + i * obj_sz c < 4096"
    using obj_offset_bound[OF b(2,1)] x(2) by (auto simp: small_def)
  note p = ptr_in_first_page[OF heap_block_info(3,2)[OF inv b(3)] off]
  show "obj_ptr (v, c, i) AND NOT (PAGE_SIZE - 1) = v"
    unfolding obj_ptr_off[OF b(2)] by (rule p(3))
  show u: "unat (obj_ptr (v, c, i)) = unat v + (64 + i * obj_sz c)"
    unfolding obj_ptr_off[OF b(2)] by (rule p(1))
  then show "obj_ptr (v, c, i) \<noteq> 0" by (metis add_is_0 unsigned_0 zero_neq_numeral)
qed

lemma obj_ptr_inj:
  assumes inv: "heap_inv T M h A"
  shows "inj_on obj_ptr {x \<in> live h. small x}"
proof (rule inj_onI)
  fix x y
  assume x: "x \<in> {x \<in> live h. small x}" and y: "y \<in> {x \<in> live h. small x}" and e: "obj_ptr x = obj_ptr y"
  obtain v c i where xe: "x = (v, c, i)" by (cases x)
  obtain w d j where ye: "y = (w, d, j)" by (cases y)
  have X: "(v, c, i) \<in> live h" "small (v, c, i)" and Y: "(w, d, j) \<in> live h" "small (w, d, j)"
    using x y xe ye by auto
  have vw: "w = v" using small_ptr(1)[OF inv X] small_ptr(1)[OF inv Y] e xe ye by simp
  have dc: "d = c" using heads_unique[OF inv, of c v d] X(1) Y(1) vw by (auto simp: live_def)
  have "i * obj_sz c = j * obj_sz c"
    using small_ptr(3)[OF inv X] small_ptr(3)[OF inv Y] e xe ye vw dc by auto
  moreover have "0 < obj_sz c"
    using class_cases[OF live_slot_bound(2)[OF inv X(1)]] by (auto simp: slab_sizes_def)
  ultimately show "x = y" using xe ye vw dc by simp
qed

lemma slab_class_small: "8 < sz \<Longrightarrow> sz \<le> 1024 \<Longrightarrow> \<exists>c. slab_class sz = Some c \<and> 1 \<le> c \<and> c < 8"
proof -
  assume s: "8 < sz" "sz \<le> 1024"
  then have "sz \<le> 4096" by (rule_tac order.trans[of _ 1024]) auto
  then obtain c where c: "slab_class sz = Some c" "1 \<le> c" using slab_class_mid s by blast
  have "c < 8"
  proof (rule ccontr)
    assume "\<not> c < 8"
    then have "\<not> sz \<le> ucast (slab_sizes ! 7)"
      using c(1) unfolding slab_class_def first_idx_Some by auto
    then show False using s(2) by (simp add: slab_sizes_def)
  qed
  with c show ?thesis by blast
qed

interpretation slab: kernel_heap kmalloc kfree heap_ok heap_owned
proof (unfold_locales, goal_cases)
  case (1 h sz)
  then obtain T M A where inv: "heap_inv T M h A" by (auto simp: heap_ok_def)
  obtain c where c: "slab_class sz = Some c" "1 \<le> c" "c < 8"
    using slab_class_small 1(2,3) by blast
  have "sz \<noteq> 0" using 1(2) by auto
  from kmalloc_slab_spec[OF inv c(1,2) this] show ?case
  proof
    assume "\<exists>v i h'. kmalloc h sz = Some (obj_ptr (v, c, i), h') \<and> heap_inv T M h' A \<and>
      i < cap c \<and> (v, c, i) \<notin> live h \<and> live h' = insert (v, c, i) (live h)"
    then obtain v i h' where k: "kmalloc h sz = Some (obj_ptr (v, c, i), h')" "heap_inv T M h' A"
      "(v, c, i) \<notin> live h" "live h' = insert (v, c, i) (live h)" by blast
    have s: "small (v, c, i)" using c by (simp add: small_def)
    have o: "{x \<in> live h'. small x} = insert (v, c, i) {x \<in> live h. small x}"
      using k(4) s by auto
    have n: "(v, c, i) \<notin> {x \<in> live h. small x}" using k(3) by simp
    have "obj_ptr (v, c, i) \<notin> heap_owned h"
      using obj_ptr_inj[OF k(2)] n unfolding o heap_owned_def by (simp only: inj_on_insert) blast
    moreover have "heap_owned h' = insert (obj_ptr (v, c, i)) (heap_owned h)"
      unfolding heap_owned_def o by simp
    moreover have "obj_ptr (v, c, i) \<noteq> 0" using small_ptr(2)[OF k(2) _ s] k(4) by simp
    ultimately show ?case using k(1,2) unfolding heap_ok_def by blast
  qed simp
next
  case (2 h p)
  then obtain T M A v c i where inv: "heap_inv T M h A" and x: "(v, c, i) \<in> live h" "small (v, c, i)"
    and p: "p = obj_ptr (v, c, i)" by (auto simp: heap_ok_def heap_owned_def)
  note b = live_slot_bound[OF inv x(1)]
  have c: "1 \<le> c" "(c, i) \<noteq> (8, 2)" and v: "v \<in> set (kh_heads h ! c)"
    using x by (auto simp: small_def live_def)
  obtain h' where h': "kfree h p = Some h'" "heap_inv T M h' A" "live h' = live h - {(v, c, i)}"
    using kfree_spec[OF inv c(1) b(2) v b(1) c(2)] x(1) p by auto
  have "{y \<in> live h'. small y} = {y \<in> live h. small y} - {(v, c, i)}" using h'(3) by auto
  moreover have "obj_ptr ` ({y \<in> live h. small y} - {(v, c, i)}) =
      obj_ptr ` {y \<in> live h. small y} - obj_ptr ` {(v, c, i)}"
    using x by (intro inj_on_image_set_diff[OF obj_ptr_inj[OF inv]]) auto
  ultimately have "heap_owned h' = heap_owned h - {p}" unfolding heap_owned_def p by simp
  then show ?case using h' unfolding heap_ok_def by blast
qed

end
