(* ===== verification/Port.thy ===== *)
theory Port
  imports Ringbuf Bytes Spin_Lock Kernel_Heap
begin

text \<open>
  Message ports, \<^verbatim>\<open>kernel/ipc/port.c\<close>: a table of named ports, each with a ring of 64 slots of
  64 bytes. A message of at most 56 bytes travels inside its slot; a longer one is copied to a
  buffer of the kernel heap and the slot carries the pointer.

  The state joins the three components the port code uses: the rings, the kernel heap and,
  as \<open>kbufs\<close>, the bytes that \<^verbatim>\<open>port_send\<close> stored in the heap buffers it owns. Calls of
  \<^verbatim>\<open>sched_wake\<close> are recorded in \<open>wakeups\<close>.
\<close>

subsection \<open>The port table\<close>

definition PORT_NAME_LEN :: nat where "PORT_NAME_LEN = 64"
definition PORT_MSG_MAX :: u64 where "PORT_MSG_MAX = 4096"
definition PORT_QUEUE_DEPTH :: u32 where "PORT_QUEUE_DEPTH = 64"
definition PORT_CREATE :: int where "PORT_CREATE = 1"
definition PORT_OPEN :: int where "PORT_OPEN = 2"
definition PORT_SLOT_SIZE :: u32 where "PORT_SLOT_SIZE = 64"
definition PORT_INLINE_MAX :: u64 where "PORT_INLINE_MAX = 56"
definition MAX_PORTS :: nat where "MAX_PORTS = 1024"

record port_slot =
  slot_type :: u32
  slot_len :: u32
  slot_payload :: "u8 list"

record port_obj =
  port_name :: "u8 list"
  port_id :: u32
  owner_pid :: u32
  port_lock :: u32
  refcount :: u32
  port_ring :: ringbuf
  waiter :: "nat option"

record ports =
  port_table :: "port_obj list"
  g_port_lock :: u32
  port_heap :: kheap
  kbufs :: "u64 \<rightharpoonup> u8 list"
  wakeups :: "nat list"

definition zero_ring :: ringbuf where
  "zero_ring = \<lparr>rb_magic = 0, rb_version = 0, slot_size = 0, slot_count = 0, rb_pad = 0,
     write_idx = 0, read_idx = 0, rb_reserved = replicate 24 0, ring_data = replicate 4096 0\<rparr>"

definition zero_port :: port_obj where
  "zero_port = \<lparr>port_name = replicate PORT_NAME_LEN 0, port_id = 0, owner_pid = 0, port_lock = 0,
     refcount = 0, port_ring = zero_ring, waiter = None\<rparr>"

definition port_subsystem_init :: "ports \<Rightarrow> ports" where
  "port_subsystem_init st = st\<lparr>port_table := replicate MAX_PORTS zero_port, g_port_lock := 0\<rparr>"

text \<open>The inner option is the NULL of the code, the outer one a fault of \<open>strncmp\<close>.\<close>

fun find_name_from :: "nat \<Rightarrow> port_obj list \<Rightarrow> u8 list \<Rightarrow> nat option option" where
  "find_name_from i [] name = Some None"
| "find_name_from i (p # ps) name =
     (if port_id p = 0 then find_name_from (Suc i) ps name
      else do {
        c \<leftarrow> strncmp (port_name p) name PORT_NAME_LEN;
        if c = 0 then Some (Some i) else find_name_from (Suc i) ps name
      })"

definition port_find_by_name :: "ports \<Rightarrow> u8 list \<Rightarrow> nat option option" where
  "port_find_by_name st name = find_name_from 0 (port_table st) name"

definition port_find_by_id :: "ports \<Rightarrow> u32 \<Rightarrow> nat option" where
  "port_find_by_id st i =
     (if i = 0 \<or> unat i > MAX_PORTS then None
      else if port_id (port_table st ! (unat i - 1)) = i then Some (unat i - 1) else None)"

definition upd_port :: "nat \<Rightarrow> (port_obj \<Rightarrow> port_obj) \<Rightarrow> ports \<Rightarrow> ports" where
  "upd_port i f st = st\<lparr>port_table := (port_table st)[i := f (port_table st ! i)]\<rparr>"

definition port_open :: "ports \<Rightarrow> u8 list option \<Rightarrow> int \<Rightarrow> u32 \<Rightarrow> (u32 \<times> ports) option" where
  "port_open st name flags caller_pid =
     (case name of
        None \<Rightarrow> Some (0, st)
      | Some name \<Rightarrow>
          if name = [] then None
          else if hd name = 0 then Some (0, st)
          else do {
            g \<leftarrow> spin_lock (g_port_lock st);
            let st = st\<lparr>g_port_lock := g\<rparr>;
            found \<leftarrow> port_find_by_name st name;
            (case found of
               Some i \<Rightarrow>
                 if flags AND PORT_OPEN = 0 then Some (0, st\<lparr>g_port_lock := spin_unlock g\<rparr>)
                 else do {
                   l \<leftarrow> spin_lock (port_lock (port_table st ! i));
                   let st = upd_port i (\<lambda>p. p\<lparr>refcount := refcount p + 1, port_lock := spin_unlock l\<rparr>) st;
                   Some (port_id (port_table st ! i), st\<lparr>g_port_lock := spin_unlock g\<rparr>)
                 }
             | None \<Rightarrow>
                 if flags AND PORT_CREATE = 0 then Some (0, st\<lparr>g_port_lock := spin_unlock g\<rparr>)
                 else
                   (case first_idx (\<lambda>p. port_id p = 0) (port_table st) of
                      None \<Rightarrow> Some (0, st\<lparr>g_port_lock := spin_unlock g\<rparr>)
                    | Some i \<Rightarrow> do {
                        nm \<leftarrow> strncpy (port_name zero_port) name (PORT_NAME_LEN - 1);
                        let slot_id = of_nat i + 1;
                        (_, rb) \<leftarrow> ringbuf_init (Some (port_ring zero_port)) PORT_SLOT_SIZE PORT_QUEUE_DEPTH;
                        rb \<leftarrow> rb;
                        let st = upd_port i (\<lambda>_. zero_port\<lparr>port_name := nm, port_id := slot_id,
                          owner_pid := caller_pid, refcount := 1, waiter := None, port_ring := rb\<rparr>) st;
                        Some (slot_id, st\<lparr>g_port_lock := spin_unlock g\<rparr>)
                      }))
          })"

definition sched_wake_call :: "nat option \<Rightarrow> ports \<Rightarrow> ports" where
  "sched_wake_call w st = (case w of None \<Rightarrow> st | Some p \<Rightarrow> st\<lparr>wakeups := wakeups st @ [p]\<rparr>)"

definition port_close :: "ports \<Rightarrow> u32 \<Rightarrow> ports option" where
  "port_close st ident =
     (case port_find_by_id st ident of
        None \<Rightarrow> Some st
      | Some i \<Rightarrow> do {
          l \<leftarrow> spin_lock (port_lock (port_table st ! i));
          let st = upd_port i (\<lambda>p. if refcount p > 0 then p\<lparr>refcount := refcount p - 1\<rparr> else p) st;
          let destroy = (refcount (port_table st ! i) = 0);
          let st = upd_port i (\<lambda>p. p\<lparr>port_lock := spin_unlock l\<rparr>) st;
          Some (if destroy
                then upd_port i (\<lambda>p. p\<lparr>port_id := 0\<rparr>) (sched_wake_call (waiter (port_table st ! i)) st)
                else st)
        })"

subsection \<open>Sending\<close>

definition slot_bytes :: "port_slot \<Rightarrow> u8 list" where
  "slot_bytes s = le_bytes 4 (slot_type s) @ le_bytes 4 (slot_len s) @ slot_payload s"

definition msg_type :: "u8 list \<Rightarrow> u32 option" where
  "msg_type msg = map_option le_word (buf_read msg 0 4)"

text \<open>
  Building the slot. \<open>len - 8\<close> is unsigned: a length below the size of the header wraps and
  the code copies 56 bytes. The inner option is the failure of \<open>kmalloc\<close>.
\<close>

definition inline_slot :: "u8 list \<Rightarrow> u64 \<Rightarrow> port_slot option" where
  "inline_slot msg len = do {
     let n = (if len - 8 < PORT_INLINE_MAX then len - 8 else PORT_INLINE_MAX);
     body \<leftarrow> memcpy (replicate 56 0) (drop 8 msg) (unat n);
     ty \<leftarrow> msg_type msg;
     Some \<lparr>slot_type = ty, slot_len = ucast len, slot_payload = body\<rparr> }"

definition outline_slot :: "ports \<Rightarrow> u8 list \<Rightarrow> u64 \<Rightarrow> (port_slot option \<times> ports) option" where
  "outline_slot st msg len = do {
     (buf, h) \<leftarrow> kmalloc (port_heap st) len;
     let st = st\<lparr>port_heap := h\<rparr>;
     if buf = 0 then Some (None, st)
     else do {
       b \<leftarrow> memcpy (replicate (unat len) 0) msg (unat len);
       let st = st\<lparr>kbufs := (kbufs st)(buf \<mapsto> b)\<rparr>;
       body \<leftarrow> memcpy (replicate 56 0) (le_bytes 8 buf) 8;
       ty \<leftarrow> msg_type msg;
       Some (Some \<lparr>slot_type = ty, slot_len = ucast len, slot_payload = body\<rparr>, st)
     } }"

text \<open>
  The bounded retry on a full queue; \<open>pause\<close> is what other processors do to the ring between
  two attempts.
\<close>

fun push_retry :: "(ringbuf \<Rightarrow> ringbuf) \<Rightarrow> nat \<Rightarrow> ringbuf \<Rightarrow> u8 list \<Rightarrow> (bool \<times> ringbuf) option" where
  "push_retry pause 0 rb slot = Some (False, rb)"
| "push_retry pause (Suc tries) rb slot = do {
     (rc, rb) \<leftarrow> ringbuf_push rb slot PORT_SLOT_SIZE;
     if rc = 0 then Some (True, rb) else push_retry pause tries (pause rb) slot }"

definition port_send :: "(ringbuf \<Rightarrow> ringbuf) \<Rightarrow> ports \<Rightarrow> u32 \<Rightarrow> u8 list \<Rightarrow> u64 \<Rightarrow> (int \<times> ports) option" where
  "port_send pause st ident msg len =
     (if len = 0 \<or> len > PORT_MSG_MAX then Some (-1, st)
      else
        (case port_find_by_id st ident of
           None \<Rightarrow> Some (-1, st)
         | Some i \<Rightarrow> do {
             (slot, st) \<leftarrow> (if len \<le> PORT_INLINE_MAX
                            then map_option (\<lambda>s. (Some s, st)) (inline_slot msg len)
                            else outline_slot st msg len);
             (case slot of
                None \<Rightarrow> Some (-1, st)
              | Some slot \<Rightarrow> do {
                  (sent, rb) \<leftarrow> push_retry pause 1000 (port_ring (port_table st ! i)) (slot_bytes slot);
                  let st = upd_port i (\<lambda>p. p\<lparr>port_ring := rb\<rparr>) st;
                  if \<not> sent then Some (-1, st)
                  else Some (0, upd_port i (\<lambda>p. p\<lparr>waiter := None\<rparr>)
                                  (sched_wake_call (waiter (port_table st ! i)) st))
                })
           }))"

subsection \<open>Receiving\<close>

text \<open>
  \<^verbatim>\<open>port_recv\<close> either returns or goes to sleep. \<open>Blocked\<close> is the point inside the loop where the
  caller, registered as waiter and in state \<open>PROC_WAIT\<close>, has called \<^verbatim>\<open>sched_yield\<close>; when it is
  woken it continues with \<open>recv_loop\<close> on the port it had found.
\<close>

datatype recv_result = Returned int "u8 list option" "u64 option" | Blocked

definition deliver :: "ports \<Rightarrow> u8 list \<Rightarrow> u8 list \<Rightarrow> u64 \<Rightarrow> (recv_result \<times> ports) option" where
  "deliver st slot buf bcap =
     (let ty = (le_word (take 4 slot) :: u32);
          payload_len = (ucast (le_word (take 4 (drop 4 slot)) :: u32) :: u64);
          payload = drop 8 slot in
      if payload_len \<le> PORT_INLINE_MAX then do {
        buf \<leftarrow> buf_write buf 0 (le_bytes 4 ty @ le_bytes 4 (ucast payload_len :: u32));
        let copy = (if payload_len < bcap - 8 then payload_len else bcap - 8);
        body \<leftarrow> memcpy (drop 8 buf) payload (unat copy);
        Some (Returned 0 (Some (take 8 buf @ body)) (Some (8 + copy)), st)
      } else do {
        let ptr = le_word (take 8 payload);
        kbuf \<leftarrow> kbufs st ptr;
        let copy = (if payload_len < bcap then payload_len else bcap);
        buf \<leftarrow> memcpy buf kbuf (unat copy);
        h \<leftarrow> kfree (port_heap st) ptr;
        Some (Returned 0 (Some buf) (Some copy),
              st\<lparr>port_heap := h, kbufs := (kbufs st)(ptr := None)\<rparr>)
      })"

definition recv_loop :: "ports \<Rightarrow> nat \<Rightarrow> nat \<Rightarrow> u8 list \<Rightarrow> u64 \<Rightarrow> (recv_result \<times> ports) option" where
  "recv_loop st cur i buf bcap = do {
     (rc, slot, rb) \<leftarrow> ringbuf_pop (port_ring (port_table st ! i)) (replicate 64 0) PORT_SLOT_SIZE;
     let st = upd_port i (\<lambda>p. p\<lparr>port_ring := rb\<rparr>) st;
     if rc \<noteq> 0 then Some (Blocked, upd_port i (\<lambda>p. p\<lparr>waiter := Some cur\<rparr>) st)
     else deliver st slot buf bcap }"

definition port_recv ::
  "ports \<Rightarrow> nat \<Rightarrow> u32 \<Rightarrow> u8 list option \<Rightarrow> u64 \<Rightarrow> u64 option \<Rightarrow> (recv_result \<times> ports) option" where
  "port_recv st cur ident buf bcap len_out =
     (case (buf, len_out) of
        (Some b, Some _) \<Rightarrow>
          if bcap < 64 then Some (Returned (-1) buf len_out, st)
          else
            (case port_find_by_id st ident of
               None \<Rightarrow> Some (Returned (-1) buf len_out, st)
             | Some i \<Rightarrow> recv_loop st cur i b bcap)
      | _ \<Rightarrow> Some (Returned (-1) buf len_out, st))"

end
