(* ===== verification/Port_Queue.thy ===== *)
theory Port_Queue
  imports Port
begin

text \<open>
  Ports as queues of messages. \<open>ports_ok\<close> is the invariant of the port table together with the
  kernel heap: every open port has a well-formed ring, and the heap buffers that the queued
  slots point to are owned, pairwise distinct and hold a message of the length in the slot.
  Sending appends one message to one queue, receiving takes the oldest one, and no operation
  disturbs another port.
\<close>

subsection \<open>The message in a slot\<close>

definition slot_len_of :: "u8 list \<Rightarrow> nat" where
  "slot_len_of s = unat (le_word (take 4 (drop 4 s)) :: u32)"

definition slot_ptr :: "u8 list \<Rightarrow> u64" where
  "slot_ptr s = le_word (take 8 (drop 8 s))"

definition slot_msg :: "(u64 \<rightharpoonup> u8 list) \<Rightarrow> u8 list \<Rightarrow> u8 list" where
  "slot_msg kb s =
     (if slot_len_of s \<le> 56 then take 8 s @ take (slot_len_of s) (drop 8 s) else the (kb (slot_ptr s)))"

definition port_slots :: "port_obj \<Rightarrow> u8 list list" where
  "port_slots p = (if port_id p = 0 then [] else ring_slots (port_ring p))"

definition port_queue :: "ports \<Rightarrow> nat \<Rightarrow> u8 list list" where
  "port_queue st i = map (slot_msg (kbufs st)) (port_slots (port_table st ! i))"

definition slot_ptrs :: "u8 list list \<Rightarrow> u64 list" where
  "slot_ptrs ss = map slot_ptr (filter (\<lambda>s. 56 < slot_len_of s) ss)"

abbreviation port_ptrs :: "ports \<Rightarrow> nat \<Rightarrow> u64 list" where
  "port_ptrs st i \<equiv> slot_ptrs (port_slots (port_table st ! i))"

definition slots_backed :: "(u64 \<rightharpoonup> u8 list) \<Rightarrow> u8 list list \<Rightarrow> bool" where
  "slots_backed kb ss \<longleftrightarrow> (\<forall>s\<in>set ss. 56 < slot_len_of s \<longrightarrow>
     (\<exists>b. kb (slot_ptr s) = Some b \<and> length b = slot_len_of s))"

lemma slot_ptrs_simps [simp]:
  "slot_ptrs [] = []"
  "slot_ptrs (s # ss) = (if 56 < slot_len_of s then slot_ptr s # slot_ptrs ss else slot_ptrs ss)"
  "slot_ptrs (ss @ ts) = slot_ptrs ss @ slot_ptrs ts"
  by (simp_all add: slot_ptrs_def)

lemma slots_backed_simps [simp]:
  "slots_backed kb []"
  "slots_backed kb (s # ss) \<longleftrightarrow>
     (56 < slot_len_of s \<longrightarrow> (\<exists>b. kb (slot_ptr s) = Some b \<and> length b = slot_len_of s)) \<and> slots_backed kb ss"
  "slots_backed kb (ss @ ts) \<longleftrightarrow> slots_backed kb ss \<and> slots_backed kb ts"
  by (auto simp: slots_backed_def)

lemma slots_backed_cong:
  "(\<And>p. p \<in> set (slot_ptrs ss) \<Longrightarrow> kb' p = kb p) \<Longrightarrow> slots_backed kb' ss = slots_backed kb ss"
  by (induction ss) auto

lemma slot_msg_cong:
  "(\<And>p. p \<in> set (slot_ptrs ss) \<Longrightarrow> kb' p = kb p) \<Longrightarrow> map (slot_msg kb') ss = map (slot_msg kb) ss"
  by (induction ss) (auto simp: slot_msg_def)

subsection \<open>The invariant\<close>

definition port_ok :: "nat \<Rightarrow> port_obj \<Rightarrow> bool" where
  "port_ok i p \<longleftrightarrow> port_lock p = 0 \<and>
     (port_id p \<noteq> 0 \<longrightarrow> port_id p = of_nat i + 1 \<and> length (port_name p) = PORT_NAME_LEN \<and>
        terminated (port_name p) \<and> ring_wf (port_ring p) \<and> slot_size (port_ring p) = PORT_SLOT_SIZE \<and>
        slot_count (port_ring p) = PORT_QUEUE_DEPTH)"

definition ports_ok :: "ports \<Rightarrow> bool" where
  "ports_ok st \<longleftrightarrow> length (port_table st) = MAX_PORTS \<and> g_port_lock st = 0 \<and>
     heap_ok (port_heap st) \<and>
     (\<forall>i<MAX_PORTS. port_ok i (port_table st ! i) \<and> distinct (port_ptrs st i) \<and>
        set (port_ptrs st i) \<subseteq> heap_owned (port_heap st) \<and>
        slots_backed (kbufs st) (port_slots (port_table st ! i))) \<and>
     (\<forall>i<MAX_PORTS. \<forall>j<MAX_PORTS. i \<noteq> j \<longrightarrow> set (port_ptrs st i) \<inter> set (port_ptrs st j) = {})"

lemma ports_okD:
  assumes "ports_ok st"
  shows "length (port_table st) = MAX_PORTS" "g_port_lock st = 0" "heap_ok (port_heap st)"
    and "i < MAX_PORTS \<Longrightarrow> port_ok i (port_table st ! i)"
    and "i < MAX_PORTS \<Longrightarrow> distinct (port_ptrs st i)"
    and "i < MAX_PORTS \<Longrightarrow> set (port_ptrs st i) \<subseteq> heap_owned (port_heap st)"
    and "i < MAX_PORTS \<Longrightarrow> slots_backed (kbufs st) (port_slots (port_table st ! i))"
    and "i < MAX_PORTS \<Longrightarrow> j < MAX_PORTS \<Longrightarrow> i \<noteq> j \<Longrightarrow> set (port_ptrs st i) \<inter> set (port_ptrs st j) = {}"
  using assms by (auto simp: ports_ok_def)

text \<open>
  Replacing one port, and the heap with it, keeps the invariant and the other queues, provided
  that the buffers of the other ports are left alone.
\<close>

lemma ports_ok_update:
  assumes ok: "ports_ok st" and i: "i < MAX_PORTS"
    and tab: "port_table st' = (port_table st)[i := p]" and gl: "g_port_lock st' = 0"
    and p: "port_ok i p" "distinct (slot_ptrs (port_slots p))"
      "set (slot_ptrs (port_slots p)) \<subseteq> heap_owned (port_heap st')" "slots_backed (kbufs st') (port_slots p)"
    and h: "heap_ok (port_heap st')"
    and own: "\<And>j q. j < MAX_PORTS \<Longrightarrow> j \<noteq> i \<Longrightarrow> q \<in> set (port_ptrs st j) \<Longrightarrow>
      q \<in> heap_owned (port_heap st') \<and> kbufs st' q = kbufs st q \<and> q \<notin> set (slot_ptrs (port_slots p))"
  shows "ports_ok st'" and "\<And>j. j < MAX_PORTS \<Longrightarrow> j \<noteq> i \<Longrightarrow> port_queue st' j = port_queue st j"
proof -
  note D = ports_okD[OF ok]
  have t: "port_table st' ! j = (if j = i then p else port_table st ! j)" if "j < MAX_PORTS" for j
    using that D(1) by (simp add: tab nth_list_update)
  have 1: "port_ok j (port_table st' ! j) \<and> distinct (port_ptrs st' j) \<and>
        set (port_ptrs st' j) \<subseteq> heap_owned (port_heap st') \<and>
        slots_backed (kbufs st') (port_slots (port_table st' ! j))" if j: "j < MAX_PORTS" for j
  proof (cases "j = i")
    case True
    then show ?thesis using p by (simp add: t[OF i])
  next
    case False
    have "slots_backed (kbufs st') (port_slots (port_table st ! j))"
      using D(7)[OF j] own[OF j False] by (subst slots_backed_cong[of _ _ "kbufs st"]) simp_all
    moreover have "set (port_ptrs st j) \<subseteq> heap_owned (port_heap st')" using own[OF j False] by blast
    ultimately show ?thesis using D(4-5)[OF j] False by (simp add: t[OF j])
  qed
  have 2: "set (port_ptrs st' j) \<inter> set (port_ptrs st' k) = {}"
    if "j < MAX_PORTS" "k < MAX_PORTS" "j \<noteq> k" for j k
  proof -
    consider "j = i" "k \<noteq> i" | "k = i" "j \<noteq> i" | "j \<noteq> i" "k \<noteq> i" using \<open>j \<noteq> k\<close> by blast
    then show ?thesis
    proof cases
      case 1
      have "set (slot_ptrs (port_slots p)) \<inter> set (port_ptrs st k) = {}"
        using own[OF that(2) 1(2)] by blast
      then show ?thesis using 1 t[OF that(1)] t[OF that(2)] by simp
    next
      case 2
      have "set (port_ptrs st j) \<inter> set (slot_ptrs (port_slots p)) = {}"
        using own[OF that(1) 2(2)] by blast
      then show ?thesis using 2 t[OF that(1)] t[OF that(2)] by simp
    next
      case 3
      then show ?thesis using D(8)[OF that] by (simp add: t that)
    qed
  qed
  have "length (port_table st') = MAX_PORTS" using D(1) by (simp add: tab)
  then show "ports_ok st'" unfolding ports_ok_def using 1 2 h gl by blast
  show "port_queue st' j = port_queue st j" if j: "j < MAX_PORTS" "j \<noteq> i" for j
  proof -
    have "map (slot_msg (kbufs st')) (port_slots (port_table st ! j)) =
        map (slot_msg (kbufs st)) (port_slots (port_table st ! j))"
      by (rule slot_msg_cong) (use own[OF j] in simp)
    then show ?thesis unfolding port_queue_def t[OF j(1)] if_not_P[OF j(2)] .
  qed
qed

lemma port_find_by_id_Some:
  assumes "ports_ok st" and "port_find_by_id st ident = Some i"
  shows "i < MAX_PORTS" "port_id (port_table st ! i) = ident" "ident \<noteq> 0" "unat ident = Suc i"
proof -
  have a: "ident \<noteq> 0" "unat ident \<le> MAX_PORTS" "port_id (port_table st ! (unat ident - 1)) = ident"
    "i = unat ident - 1"
    using assms(2) by (auto simp: port_find_by_id_def split: if_splits)
  show "port_id (port_table st ! i) = ident" unfolding a(4) by (rule a(3))
  show "ident \<noteq> 0" by (rule a(1))
  have "0 < unat ident" using a(1) unat_gt_0 by blast
  then show "i < MAX_PORTS" "unat ident = Suc i" using a(2,4) by linarith+
qed

lemma ring_slots_length:
  "ring_wf rb \<Longrightarrow> slot_size rb = PORT_SLOT_SIZE \<Longrightarrow> s \<in> set (ring_slots rb) \<Longrightarrow> length s = 64"
proof -
  assume a: "ring_wf rb" "slot_size rb = PORT_SLOT_SIZE" and "s \<in> set (ring_slots rb)"
  then obtain j where "s = ring_slot rb j" unfolding ring_slots_def by auto
  then show ?thesis using length_ring_slot[OF a(1), of j] a(2) by (simp add: PORT_SLOT_SIZE_def)
qed

subsection \<open>Building a slot\<close>

text \<open>What a receiver gets of a message: short messages lose their length field and gain eight zero bytes.\<close>

definition delivered :: "u8 list \<Rightarrow> nat \<Rightarrow> u8 list" where
  "delivered msg len =
     (if len \<le> 56 then take 4 msg @ le_bytes 4 (of_nat len :: u32) @ drop 8 (take len msg) @ replicate 8 0
      else take len msg)"

lemma msg_type_eq: "4 \<le> length msg \<Longrightarrow> msg_type msg = Some (le_word (take 4 msg))"
  by (simp add: msg_type_def buf_read_def)

lemma le_bytes_take_4: "4 \<le> length m \<Longrightarrow> le_bytes 4 (le_word (take 4 m) :: u32) = take 4 m"
  using le_bytes_le_word[of "take 4 m", where 'a = 32] by (simp add: min_absorb2)

lemma slot_bytes_parts:
  fixes ty n :: u32
  assumes "length pl = 56"
  defines "s \<equiv> slot_bytes \<lparr>slot_type = ty, slot_len = n, slot_payload = pl\<rparr>"
  shows "length s = 64" "slot_len_of s = unat n" "take 8 s = le_bytes 4 ty @ le_bytes 4 n" "drop 8 s = pl"
  using assms by (simp_all add: slot_bytes_def slot_len_of_def)

lemma inline_slot_ok:
  assumes len: "8 \<le> len" "len \<le> PORT_INLINE_MAX" and msg: "unat len \<le> length msg"
  shows "\<exists>s. inline_slot msg len = Some s \<and> length (slot_bytes s) = 64 \<and>
    slot_len_of (slot_bytes s) = unat len \<and> slot_msg kb (slot_bytes s) = delivered msg (unat len)"
proof -
  let ?n = "unat len"
  have n: "8 \<le> ?n" "?n \<le> 56" using len by (simp_all add: word_le_nat_alt PORT_INLINE_MAX_def)
  have d: "unat (len - 8) = ?n - 8" using len(1) by (simp add: unat_sub)
  have lt: "len - 8 < PORT_INLINE_MAX" using n d by (simp add: word_less_nat_alt PORT_INLINE_MAX_def)
  define pl where "pl = take (?n - 8) (drop 8 msg) @ replicate (56 - (?n - 8)) 0"
  have pl: "length pl = 56" "take ?n pl = take (?n - 8) (drop 8 msg) @ replicate 8 0"
    using n msg by (simp_all add: pl_def min_absorb1 min_absorb2)
  have un: "unat (ucast len :: u32) = ?n" using n by (simp add: unsigned_ucast_eq take_bit_nat_eq_self)
  have ue: "ucast len = (of_nat ?n :: u32)" by (rule word_unat_eq_iff[THEN iffD2])
    (use n un in \<open>simp add: unsigned_of_nat take_bit_nat_eq_self\<close>)
  define s where "s = \<lparr>slot_type = le_word (take 4 msg), slot_len = ucast len, slot_payload = pl\<rparr>"
  note p = slot_bytes_parts[OF pl(1), of "le_word (take 4 msg)" "ucast len", folded s_def]
  have "inline_slot msg len = Some s"
    using n msg lt by (simp add: inline_slot_def d memcpy_eq msg_type_eq s_def pl_def)
  moreover have "slot_msg kb (slot_bytes s) = delivered msg ?n"
    using n msg p(3,4) pl(2) un
    by (simp add: slot_msg_def p(2) delivered_def le_bytes_take_4 ue drop_take flip: ue)
  ultimately show ?thesis using p(1,2) un by auto
qed

lemma outline_slot_ok:
  assumes ok: "ports_ok st" and len: "PORT_INLINE_MAX < len" "len \<le> 1024" and msg: "unat len \<le> length msg"
  shows "outline_slot st msg len = Some (None, st) \<or>
    (\<exists>s q h. outline_slot st msg len =
         Some (Some s, st\<lparr>port_heap := h, kbufs := (kbufs st)(q \<mapsto> take (unat len) msg)\<rparr>) \<and>
       length (slot_bytes s) = 64 \<and> slot_len_of (slot_bytes s) = unat len \<and> slot_ptr (slot_bytes s) = q \<and>
       q \<notin> heap_owned (port_heap st) \<and> heap_ok h \<and> heap_owned h = insert q (heap_owned (port_heap st)))"
proof -
  let ?n = "unat len"
  have n: "56 < ?n" "?n \<le> 1024" using len by (simp_all add: word_le_nat_alt word_less_nat_alt PORT_INLINE_MAX_def)
  have sz: "8 < len" using n(1) by (simp add: word_less_nat_alt)
  have un: "unat (ucast len :: u32) = ?n" using n by (simp add: unsigned_ucast_eq take_bit_nat_eq_self)
  from slab.alloc_cases[OF ports_okD(3)[OF ok] sz len(2)] show ?thesis
  proof
    assume "kmalloc (port_heap st) len = Some (0, port_heap st)"
    then have "outline_slot st msg len = Some (None, st)" by (simp add: outline_slot_def)
    then show ?thesis ..
  next
    assume "\<exists>q h. kmalloc (port_heap st) len = Some (q, h) \<and> q \<noteq> 0 \<and> q \<notin> heap_owned (port_heap st) \<and>
      heap_ok h \<and> heap_owned h = insert q (heap_owned (port_heap st))"
    then obtain q h where k: "kmalloc (port_heap st) len = Some (q, h)" "q \<noteq> 0"
      "q \<notin> heap_owned (port_heap st)" "heap_ok h" "heap_owned h = insert q (heap_owned (port_heap st))"
      by blast
    define pl where "pl = le_bytes 8 q @ replicate 48 0"
    have pl: "length pl = 56" "take 8 pl = le_bytes 8 q" by (simp_all add: pl_def)
    define s where "s = \<lparr>slot_type = le_word (take 4 msg), slot_len = ucast len, slot_payload = pl\<rparr>"
    note p = slot_bytes_parts[OF pl(1), of "le_word (take 4 msg)" "ucast len", folded s_def]
    have "outline_slot st msg len =
        Some (Some s, st\<lparr>port_heap := h, kbufs := (kbufs st)(q \<mapsto> take ?n msg)\<rparr>)"
      using k(1,2) n msg by (simp add: outline_slot_def memcpy_eq msg_type_eq s_def pl_def)
    moreover have "slot_ptr (slot_bytes s) = q" by (simp add: slot_ptr_def p(4) pl(2))
    ultimately show ?thesis using p(1,2) un k(3-5) by auto
  qed
qed

subsection \<open>Pushing a slot\<close>

lemma push_retry_room:
  assumes "ring_wf rb" "slot_size rb = PORT_SLOT_SIZE" "length (ring_slots rb) < unat (slot_count rb)"
    and "length s = 64" "0 < tries"
  shows "\<exists>rb'. push_retry pause tries rb s = Some (True, rb') \<and> ring_wf rb' \<and>
    slot_size rb' = slot_size rb \<and> slot_count rb' = slot_count rb \<and> ring_slots rb' = ring_slots rb @ [s]"
proof -
  have "PORT_SLOT_SIZE \<le> slot_size rb" "unat PORT_SLOT_SIZE \<le> length s"
    using assms(2,4) by (simp_all add: PORT_SLOT_SIZE_def)
  from ring.push_room[OF assms(1,3) this] obtain rb' where r: "ringbuf_push rb s PORT_SLOT_SIZE = Some (0, rb')" "ring_wf rb'"
    "slot_size rb' = slot_size rb" "slot_count rb' = slot_count rb" "ring_slots rb' = ring_slots rb @ [s]"
    using assms(2,4) by (auto simp: PORT_SLOT_SIZE_def word_unat_eq_iff)
  obtain k where "tries = Suc k" using assms(5) by (cases tries) auto
  then show ?thesis using r by auto
qed

text \<open>On a full queue that nobody drains every attempt fails and the ring is left alone.\<close>

lemma push_retry_full:
  assumes "ring_wf rb" and "length (ring_slots rb) = unat (slot_count rb)"
  shows "push_retry id tries rb s = Some (False, rb)"
  by (induction tries) (use ring.push_full[OF assms] in simp_all)

text \<open>A consumer that makes room during one of the pauses is enough for the send to go through.\<close>

lemma push_retry_drained:
  assumes "\<And>j. j \<le> k \<Longrightarrow> ring_wf ((pause ^^ j) rb)"
    and "\<And>j. j < k \<Longrightarrow> length (ring_slots ((pause ^^ j) rb)) = unat (slot_count ((pause ^^ j) rb))"
    and "length (ring_slots ((pause ^^ k) rb)) < unat (slot_count ((pause ^^ k) rb))"
    and "slot_size ((pause ^^ k) rb) = PORT_SLOT_SIZE" and "length s = 64" and "k < tries"
  shows "\<exists>rb'. push_retry pause tries rb s = Some (True, rb') \<and> ring_wf rb' \<and>
    ring_slots rb' = ring_slots ((pause ^^ k) rb) @ [s]"
  using assms
proof (induction k arbitrary: rb tries)
  case 0
  then show ?case using push_retry_room[of rb s tries pause] by auto
next
  case (Suc k)
  obtain t where t: "tries = Suc t" using Suc.prems(6) by (cases tries) auto
  have "ringbuf_push rb s PORT_SLOT_SIZE = Some (-1, rb)"
    using ring.push_full[of rb] Suc.prems(1)[of 0] Suc.prems(2)[of 0] by simp
  moreover have "\<exists>rb'. push_retry pause t (pause rb) s = Some (True, rb') \<and> ring_wf rb' \<and>
    ring_slots rb' = ring_slots ((pause ^^ k) (pause rb)) @ [s]"
  proof (rule Suc.IH)
    show "ring_wf ((pause ^^ j) (pause rb))" if "j \<le> k" for j
      using Suc.prems(1)[of "Suc j"] that by (simp add: funpow_swap1)
    show "length (ring_slots ((pause ^^ j) (pause rb))) = unat (slot_count ((pause ^^ j) (pause rb)))" if "j < k" for j
      using Suc.prems(2)[of "Suc j"] that by (simp add: funpow_swap1)
  qed (use Suc.prems t in \<open>simp_all add: funpow_swap1\<close>)
  ultimately show ?case using t by (simp add: funpow_swap1)
qed

subsection \<open>Sending and receiving\<close>

lemma open_port:
  assumes "ports_ok st" and "port_find_by_id st ident = Some i"
  defines "p \<equiv> port_table st ! i"
  shows "port_id p \<noteq> 0" "ring_wf (port_ring p)" "slot_size (port_ring p) = PORT_SLOT_SIZE"
    "slot_count (port_ring p) = PORT_QUEUE_DEPTH" "port_slots p = ring_slots (port_ring p)"
    "\<And>s. s \<in> set (ring_slots (port_ring p)) \<Longrightarrow> length s = 64" "port_ok i p"
proof -
  note f = port_find_by_id_Some[OF assms(1,2)]
  show id: "port_id p \<noteq> 0" using f(2,3) by (simp add: p_def)
  show ok: "port_ok i p" unfolding p_def by (rule ports_okD(4)[OF assms(1) f(1)])
  show "ring_wf (port_ring p)" "slot_size (port_ring p) = PORT_SLOT_SIZE"
    "slot_count (port_ring p) = PORT_QUEUE_DEPTH" using ok id by (simp_all add: port_ok_def)
  then show "length s = 64" if "s \<in> set (ring_slots (port_ring p))" for s
    using ring_slots_length that by blast
  show "port_slots p = ring_slots (port_ring p)" using id by (simp add: port_slots_def)
qed

text \<open>The port after a slot was appended to or removed from its ring.\<close>

lemma port_ok_ring:
  assumes "port_ok i p" and "port_id p \<noteq> 0" and "ring_wf rb" "slot_size rb = PORT_SLOT_SIZE"
    and "slot_count rb = PORT_QUEUE_DEPTH"
  shows "port_ok i (p\<lparr>port_ring := rb, waiter := w\<rparr>)"
    and "port_slots (p\<lparr>port_ring := rb, waiter := w\<rparr>) = ring_slots rb"
  using assms by (simp_all add: port_ok_def port_slots_def)

lemma sched_wake_call_simps [simp]:
  "port_table (sched_wake_call w st) = port_table st" "g_port_lock (sched_wake_call w st) = g_port_lock st"
  "port_heap (sched_wake_call w st) = port_heap st" "kbufs (sched_wake_call w st) = kbufs st"
  by (simp_all add: sched_wake_call_def split: option.splits)

lemma upd_port_simps [simp]:
  "g_port_lock (upd_port i f st) = g_port_lock st" "port_heap (upd_port i f st) = port_heap st"
  "kbufs (upd_port i f st) = kbufs st"
  "port_table (upd_port i f st) = (port_table st)[i := f (port_table st ! i)]"
  by (simp_all add: upd_port_def)

lemma port_push_ok:
  assumes ok: "ports_ok st" and f: "port_find_by_id st ident = Some i"
    and s: "length s = 64" and room: "length (port_slots (port_table st ! i)) < 64"
    and rb: "push_retry pause 1000 (port_ring (port_table st ! i)) s = Some (True, rb)"
    and ptr: "56 < slot_len_of s \<Longrightarrow> slot_ptr s \<notin> heap_owned (port_heap st) \<and>
      kb' = (kbufs st)(slot_ptr s \<mapsto> m) \<and> length m = slot_len_of s \<and>
      heap_owned h' = insert (slot_ptr s) (heap_owned (port_heap st))"
    and inl: "slot_len_of s \<le> 56 \<Longrightarrow> h' = port_heap st \<and> kb' = kbufs st"
    and h: "heap_ok h'"
    and st': "port_table st' = (port_table st)[i := (port_table st ! i)\<lparr>port_ring := rb, waiter := w\<rparr>]"
      "g_port_lock st' = 0" "port_heap st' = h'" "kbufs st' = kb'"
  shows "ports_ok st'" "port_queue st' i = port_queue st i @ [slot_msg kb' s]"
    "\<And>j. j < MAX_PORTS \<Longrightarrow> j \<noteq> i \<Longrightarrow> port_queue st' j = port_queue st j"
proof -
  note p = open_port[OF ok f] and i = port_find_by_id_Some(1)[OF ok f] and D = ports_okD[OF ok]
  have c: "unat (slot_count (port_ring (port_table st ! i))) = 64" using p(4) by (simp add: PORT_QUEUE_DEPTH_def)
  obtain rb' where "push_retry pause 1000 (port_ring (port_table st ! i)) s = Some (True, rb')" "ring_wf rb'"
    "slot_size rb' = PORT_SLOT_SIZE" "slot_count rb' = PORT_QUEUE_DEPTH"
    "ring_slots rb' = ring_slots (port_ring (port_table st ! i)) @ [s]"
    using push_retry_room[OF p(2,3) _ s, of 1000 pause] room c p(3-5) by auto
  then have r: "ring_wf rb" "slot_size rb = PORT_SLOT_SIZE" "slot_count rb = PORT_QUEUE_DEPTH"
    "ring_slots rb = port_slots (port_table st ! i) @ [s]" using rb p(5) by auto
  let ?p = "(port_table st ! i)\<lparr>port_ring := rb, waiter := w\<rparr>"
  have sl: "port_slots ?p = port_slots (port_table st ! i) @ [s]"
    using port_ok_ring(2)[OF p(7,1) r(1-3)] r(4) by simp
  have own: "heap_owned (port_heap st) \<subseteq> heap_owned h'" using ptr inl by (cases "56 < slot_len_of s") auto
  have kb: "kb' q = kbufs st q" if "q \<in> heap_owned (port_heap st)" for q
    using ptr inl that by (cases "56 < slot_len_of s") auto
  have other: "slot_ptr s \<notin> heap_owned (port_heap st)" if "56 < slot_len_of s" using ptr that by blast
  have ptrs: "distinct (slot_ptrs (port_slots ?p))"
    unfolding sl using D(5,6)[OF i] other by auto
  have sub: "set (slot_ptrs (port_slots ?p)) \<subseteq> heap_owned h'"
    unfolding sl using D(6)[OF i] own ptr by auto
  have old: "slots_backed kb' (port_slots (port_table st ! i))"
    using D(7)[OF i] kb D(6)[OF i] by (subst slots_backed_cong[of _ _ "kbufs st"]) auto
  then have bk: "slots_backed kb' (port_slots ?p)"
    unfolding sl using ptr by auto
  have others: "q \<in> heap_owned (port_heap st') \<and> kbufs st' q = kbufs st q \<and> q \<notin> set (slot_ptrs (port_slots ?p))"
    if j: "j < MAX_PORTS" "j \<noteq> i" "q \<in> set (port_ptrs st j)" for j q
  proof -
    have q: "q \<in> heap_owned (port_heap st)" using D(6)[OF j(1)] j(3) by blast
    moreover have "q \<notin> set (port_ptrs st i)" using D(8)[OF j(1) i j(2)] j(3) by blast
    ultimately show ?thesis unfolding st' sl using own kb other by auto
  qed
  have pk: "port_ok i ?p" by (rule port_ok_ring(1)[OF p(7,1) r(1-3)])
  note up = ports_ok_update[OF ok i st'(1,2) pk ptrs]
  show "ports_ok st'" by (rule up(1)) (use sub bk h others in \<open>simp_all add: st'(3,4)\<close>)
  show "port_queue st' j = port_queue st j" if "j < MAX_PORTS" "j \<noteq> i" for j
    by (rule up(2)) (use sub bk h others that in \<open>simp_all add: st'(3,4)\<close>)
  have "map (slot_msg kb') (port_slots (port_table st ! i)) = map (slot_msg (kbufs st)) (port_slots (port_table st ! i))"
    by (rule slot_msg_cong) (use kb D(6)[OF i] in blast)
  then show "port_queue st' i = port_queue st i @ [slot_msg kb' s]"
    using i D(1) by (simp add: port_queue_def st' sl)
qed

lemma port_send_step:
  assumes ok: "ports_ok st" and f: "port_find_by_id st ident = Some i"
    and len: "8 \<le> len" "len \<le> 1024" and msg: "unat len \<le> length msg"
  shows "\<exists>slot st1. (if len \<le> PORT_INLINE_MAX then map_option (\<lambda>s. (Some s, st)) (inline_slot msg len)
       else outline_slot st msg len) = Some (slot, st1) \<and>
     (case slot of None \<Rightarrow> PORT_INLINE_MAX < len \<and> st1 = st
      | Some s \<Rightarrow> length (slot_bytes s) = 64 \<and> slot_len_of (slot_bytes s) = unat len \<and>
          slot_msg (kbufs st1) (slot_bytes s) = delivered msg (unat len) \<and>
          port_table st1 = port_table st \<and> g_port_lock st1 = g_port_lock st \<and> wakeups st1 = wakeups st \<and>
          heap_ok (port_heap st1) \<and>
          (if unat len \<le> 56 then port_heap st1 = port_heap st \<and> kbufs st1 = kbufs st
           else slot_ptr (slot_bytes s) \<notin> heap_owned (port_heap st) \<and>
             kbufs st1 = (kbufs st)(slot_ptr (slot_bytes s) \<mapsto> take (unat len) msg) \<and>
             heap_owned (port_heap st1) = insert (slot_ptr (slot_bytes s)) (heap_owned (port_heap st))))"
proof (cases "len \<le> PORT_INLINE_MAX")
  case True
  then have n: "unat len \<le> 56" by (simp add: word_le_nat_alt PORT_INLINE_MAX_def)
  obtain s where s: "inline_slot msg len = Some s" "length (slot_bytes s) = 64"
    "slot_len_of (slot_bytes s) = unat len" "slot_msg (kbufs st) (slot_bytes s) = delivered msg (unat len)"
    using inline_slot_ok[OF len(1) True msg, of "kbufs st"] by blast
  show ?thesis by (rule exI[of _ "Some s"], rule exI[of _ st]) (use True s n ports_okD(3)[OF ok] in simp)
next
  case False
  then have c: "PORT_INLINE_MAX < len" by simp
  then have n: "\<not> unat len \<le> 56" by (simp add: word_less_nat_alt PORT_INLINE_MAX_def)
  from outline_slot_ok[OF ok c len(2) msg] show ?thesis
  proof
    assume "outline_slot st msg len = Some (None, st)"
    then show ?thesis using False c by auto
  next
    assume "\<exists>s q h. outline_slot st msg len =
         Some (Some s, st\<lparr>port_heap := h, kbufs := (kbufs st)(q \<mapsto> take (unat len) msg)\<rparr>) \<and>
       length (slot_bytes s) = 64 \<and> slot_len_of (slot_bytes s) = unat len \<and> slot_ptr (slot_bytes s) = q \<and>
       q \<notin> heap_owned (port_heap st) \<and> heap_ok h \<and> heap_owned h = insert q (heap_owned (port_heap st))"
    then obtain s q h where s: "outline_slot st msg len =
         Some (Some s, st\<lparr>port_heap := h, kbufs := (kbufs st)(q \<mapsto> take (unat len) msg)\<rparr>)"
       "length (slot_bytes s) = 64" "slot_len_of (slot_bytes s) = unat len" "slot_ptr (slot_bytes s) = q"
       "q \<notin> heap_owned (port_heap st)" "heap_ok h" "heap_owned h = insert q (heap_owned (port_heap st))"
      by blast
    show ?thesis
      by (rule exI[of _ "Some s"],
          rule exI[of _ "st\<lparr>port_heap := h, kbufs := (kbufs st)(q \<mapsto> take (unat len) msg)\<rparr>"])
        (use False s n in \<open>simp add: slot_msg_def delivered_def\<close>)
  qed
qed


lemma take_8_word:
  assumes "8 \<le> length (x :: u8 list)"
  shows "le_bytes 4 (le_word (take 4 x) :: u32) @ le_bytes 4 (le_word (take 4 (drop 4 x)) :: u32) = take 8 x"
proof -
  have "take 8 x = take 4 x @ take 4 (drop 4 x)" by (metis numeral_Bit0 take_add)
  then show ?thesis using assms by (simp add: le_bytes_take_4)
qed

lemma deliver_inline:
  assumes x: "length x = 64" and n: "slot_len_of x \<le> 56" and c: "64 \<le> bcap" "unat bcap \<le> length buf"
  shows "deliver st x buf bcap = Some (Returned 0 (Some (slot_msg kb x @ drop (length (slot_msg kb x)) buf))
    (Some (of_nat (length (slot_msg kb x)))), st)" and "length (slot_msg kb x) \<le> unat bcap"
proof -
  let ?l = "le_word (take 4 (drop 4 x)) :: u32" and ?n = "slot_len_of x"
  define pl where "pl = (ucast ?l :: u64)"
  have un: "unat pl = ?n" by (simp add: slot_len_of_def pl_def)
  have m: "slot_msg kb x = take 8 x @ take ?n (drop 8 x)" using n by (simp add: slot_msg_def)
  have lm: "length (slot_msg kb x) = 8 + ?n" using x n unfolding m by simp
  have cap: "64 \<le> unat bcap" using c(1) by (simp add: word_le_nat_alt)
  then show "length (slot_msg kb x) \<le> unat bcap" using lm n by simp
  have d: "unat (bcap - 8) = unat bcap - 8" using cap by (subst unat_sub) (simp_all add: word_le_nat_alt)
  have uu: "ucast pl = ?l"
    by (rule word_unat_eq_iff[THEN iffD2])
      (use un n in \<open>simp add: slot_len_of_def unsigned_ucast_eq take_bit_nat_eq_self\<close>)
  have le: "pl \<le> PORT_INLINE_MAX" using un n by (simp add: word_le_nat_alt PORT_INLINE_MAX_def)
  have cp: "(if pl < bcap - 8 then pl else bcap - 8) = pl"
    using un n d cap by (auto simp: word_less_nat_alt word_unat_eq_iff)
  have w: "buf_write buf 0 (le_bytes 4 (le_word (take 4 x) :: u32) @ le_bytes 4 ?l) =
      Some (take 8 x @ drop 8 buf)"
    using c(2) cap x unfolding take_8_word[of x, simplified x, simplified] by (simp add: buf_write_def x)
  have "memcpy (drop 8 buf) (drop 8 x) ?n = Some (take ?n (drop 8 x) @ drop ?n (drop 8 buf))"
    using x n c(2) cap by (intro memcpy_eq) simp_all
  then have "deliver st x buf bcap =
      Some (Returned 0 (Some (take 8 x @ take ?n (drop 8 x) @ drop ?n (drop 8 buf))) (Some (8 + pl)), st)"
    unfolding deliver_def Let_def pl_def[symmetric] using le w un x by (simp add: uu cp)
  moreover have "8 + pl = of_nat (length (slot_msg kb x))" using un lm by (simp flip: un)
  ultimately show "deliver st x buf bcap = Some (Returned 0 (Some (slot_msg kb x @ drop (length (slot_msg kb x)) buf))
    (Some (of_nat (length (slot_msg kb x)))), st)"
    by (simp add: lm) (simp add: m add.commute)
qed

lemma deliver_outline:
  assumes n: "56 < slot_len_of x" and b: "kbufs st (slot_ptr x) = Some b" "length b = slot_len_of x"
    and c: "64 \<le> bcap" "unat bcap \<le> length buf" and h: "kfree (port_heap st) (slot_ptr x) = Some h"
  shows "deliver st x buf bcap =
    Some (Returned 0 (Some (take (unat bcap) b @ drop (length (take (unat bcap) b)) buf))
            (Some (of_nat (length (take (unat bcap) b)))),
          st\<lparr>port_heap := h, kbufs := (kbufs st)(slot_ptr x := None)\<rparr>)"
proof -
  let ?l = "le_word (take 4 (drop 4 x)) :: u32"
  define pl where "pl = (ucast ?l :: u64)"
  define cp where "cp = (if pl < bcap then pl else bcap)"
  have un: "unat pl = length b" using b(2) by (simp add: slot_len_of_def pl_def)
  have gt: "\<not> pl \<le> PORT_INLINE_MAX" using un n b(2) by (simp add: word_le_nat_alt PORT_INLINE_MAX_def)
  have cu: "unat cp = length (take (unat bcap) b)" using un by (auto simp: cp_def word_less_nat_alt)
  have "memcpy buf b (unat cp) = Some (take (unat bcap) b @ drop (length (take (unat bcap) b)) buf)"
    using c(2) by (subst memcpy_eq) (simp_all add: cu min_def)
  moreover have "cp = of_nat (length (take (unat bcap) b))" unfolding cu[symmetric] by simp
  ultimately show ?thesis
    unfolding deliver_def Let_def pl_def[symmetric] cp_def[symmetric] using gt b(1) h
    by (simp add: slot_ptr_def)
qed


end
