(* ===== verification/Port_Table.thy ===== *)
theory Port_Table
  imports Port_Queue
begin

text \<open>
  Opening and closing ports: lookup by name, creation in the first free entry of the table,
  reference counting and destruction, and what a blocked receiver sees when its port is closed.
\<close>

subsection \<open>Lookup by name\<close>

definition has_name :: "u8 list \<Rightarrow> port_obj \<Rightarrow> bool" where
  "has_name nm p \<longleftrightarrow> port_id p \<noteq> 0 \<and> cstr (port_name p) = cstr nm"

lemma strncmp_name:
  assumes "terminated a" "length a = 64" "terminated b"
  shows "\<exists>r. strncmp a b PORT_NAME_LEN = Some r \<and> (r = 0 \<longleftrightarrow> cstr a = cstr b)"
proof -
  obtain r where r: "strncmp a b 64 = Some r" "r = 0 \<longleftrightarrow> take 64 (cstr a) = take 64 (cstr b)"
    using strncmp_terminated[OF assms(1,3), of 64] by blast
  have la: "length (cstr a) < 64" using terminated_length[OF assms(1)] assms(2) by simp
  have "take 64 (cstr a) = take 64 (cstr b) \<longleftrightarrow> cstr a = cstr b"
  proof
    assume e: "take 64 (cstr a) = take 64 (cstr b)"
    then have "length (take 64 (cstr b)) < 64" using la arg_cong[OF e, of length] by simp
    then have "take 64 (cstr b) = cstr b" by simp
    then show "cstr a = cstr b" using e la by simp
  qed simp
  then show ?thesis using r by (auto simp: PORT_NAME_LEN_def)
qed

lemma find_name_from_eq:
  assumes "terminated nm"
    and "\<And>p. p \<in> set ps \<Longrightarrow> port_id p \<noteq> 0 \<Longrightarrow> terminated (port_name p) \<and> length (port_name p) = 64"
  shows "find_name_from k ps nm = Some (map_option ((+) k) (first_idx (has_name nm) ps))"
  using assms(2)
proof (induction ps arbitrary: k)
  case (Cons p ps)
  have IH: "find_name_from (Suc k) ps nm = Some (map_option ((+) (Suc k)) (first_idx (has_name nm) ps))"
    using Cons by simp
  show ?case
  proof (cases "port_id p = 0")
    case True
    then show ?thesis using IH by (cases "first_idx (has_name nm) ps") (simp_all add: has_name_def[of _ p])
  next
    case False
    then have "terminated (port_name p)" "length (port_name p) = 64" using Cons.prems by auto
    then obtain r where "strncmp (port_name p) nm PORT_NAME_LEN = Some r" "r = 0 \<longleftrightarrow> cstr (port_name p) = cstr nm"
      using strncmp_name assms(1) by blast
    then show ?thesis
      using IH False by (cases "first_idx (has_name nm) ps") (simp_all add: has_name_def[of _ p])
  qed
qed simp

lemma port_find_by_name_eq:
  assumes ok: "ports_ok st" and nm: "terminated nm"
  shows "port_find_by_name st nm = Some (first_idx (has_name nm) (port_table st))"
proof -
  have "find_name_from 0 (port_table st) nm =
      Some (map_option ((+) 0) (first_idx (has_name nm) (port_table st)))"
  proof (rule find_name_from_eq[OF nm])
    fix p
    assume p: "p \<in> set (port_table st)" "port_id p \<noteq> 0"
    then obtain i where "i < MAX_PORTS" "p = port_table st ! i"
      using ports_okD(1)[OF ok] by (auto simp: in_set_conv_nth)
    then show "terminated (port_name p) \<and> length (port_name p) = 64"
      using ports_okD(4)[OF ok] p(2) by (auto simp: port_ok_def PORT_NAME_LEN_def)
  qed
  then show ?thesis
    by (cases "first_idx (has_name nm) (port_table st)") (simp_all add: port_find_by_name_def)
qed

subsection \<open>A fresh port\<close>

lemma fresh_ring:
  obtains rb where "ringbuf_init (Some (port_ring zero_port)) PORT_SLOT_SIZE PORT_QUEUE_DEPTH = Some (0, Some rb)"
    and "ring_wf rb" "ring_slots rb = []" "slot_size rb = PORT_SLOT_SIZE" "slot_count rb = PORT_QUEUE_DEPTH"
proof -
  have "is_pow2 PORT_SLOT_SIZE" "8 \<le> PORT_SLOT_SIZE" "is_pow2 PORT_QUEUE_DEPTH" "2 \<le> PORT_QUEUE_DEPTH"
    "unat PORT_SLOT_SIZE * unat PORT_QUEUE_DEPTH \<le> length (ring_data (port_ring zero_port))"
    "length (rb_reserved (port_ring zero_port)) = 24"
    by (simp_all add: is_pow2_def PORT_SLOT_SIZE_def PORT_QUEUE_DEPTH_def zero_port_def zero_ring_def)
  from ringbuf_init_ok[OF this] that show thesis by blast
qed

lemma cstr_zeros: "cstr (replicate n 0 @ [0]) = []"
  by (cases n) simp_all

lemma strncpy_name:
  assumes "terminated nm"
  shows "\<exists>d. strncpy (port_name zero_port) nm (PORT_NAME_LEN - 1) = Some d \<and> length d = 64 \<and> terminated d \<and>
    cstr d = take 63 (cstr nm)"
proof -
  let ?d = "take 63 (cstr nm) @ replicate (63 - length (cstr nm)) 0 @ [0 :: u8]"
  have "strncpy (port_name zero_port) nm (PORT_NAME_LEN - 1) = Some ?d"
    using assms by (subst strncpy_eq) (simp_all add: zero_port_def PORT_NAME_LEN_def)
  moreover have "0 \<notin> set (take 63 (cstr nm))" using cstr_nonzero by (meson in_set_takeD)
  then have "cstr ?d = take 63 (cstr nm)"
    by (subst cstr_append_nonzero) (simp_all add: cstr_zeros)
  ultimately show ?thesis by (simp add: min_def)
qed

definition fresh_port :: "u8 list \<Rightarrow> nat \<Rightarrow> u32 \<Rightarrow> port_obj \<Rightarrow> bool" where
  "fresh_port nm i pid p \<longleftrightarrow> port_id p = of_nat i + 1 \<and> owner_pid p = pid \<and> refcount p = 1 \<and>
     waiter p = None \<and> cstr (port_name p) = take 63 (cstr nm)"

lemma index_id: "i < MAX_PORTS \<Longrightarrow> unat (of_nat i + 1 :: u32) = Suc i \<and> (of_nat i + 1 :: u32) \<noteq> 0"
proof -
  assume i: "i < MAX_PORTS"
  have "of_nat i + 1 = (of_nat (Suc i) :: u32)" by simp
  then have "unat (of_nat i + 1 :: u32) = Suc i"
    using i by (simp only: unsigned_of_nat) (simp add: take_bit_nat_eq_self MAX_PORTS_def)
  then show ?thesis by (metis nat.distinct(1) unsigned_0)
qed

lemma unlocked: "port_lock p = 0 \<Longrightarrow> p\<lparr>refcount := r, port_lock := 0\<rparr> = p\<lparr>refcount := r\<rparr>"
  by (cases p) simp

lemma unlocked_table: "g_port_lock st = 0 \<Longrightarrow> st\<lparr>port_table := t, g_port_lock := 0\<rparr> = st\<lparr>port_table := t\<rparr>"
  by (cases st) simp

text \<open>
  C20: opening a port by name never faults and keeps the port table well formed. A port of that
  name is found exactly when some open port has it: then the call fails unless attaching was
  asked for, and otherwise only raises that port's reference count. If there is none, the call
  fails unless creation was asked for and an entry is free; otherwise the first free entry
  becomes a port with an empty queue, owned by the caller, that the returned handle denotes.
  No other queue changes. The name is cut to 63 bytes, so a longer one is not found again.
\<close>

theorem port_open_correct:
  assumes ok: "ports_ok st" and nm: "terminated nm" "cstr nm \<noteq> []"
  shows "\<exists>rc st'. port_open st (Some nm) flags pid = Some (rc, st') \<and> ports_ok st' \<and>
    (case first_idx (has_name nm) (port_table st) of
       Some i \<Rightarrow>
         if flags AND PORT_OPEN = 0 then rc = 0 \<and> st' = st
         else rc = of_nat i + 1 \<and> (\<forall>j<MAX_PORTS. port_queue st' j = port_queue st j) \<and>
           port_table st' = (port_table st)[i := (port_table st ! i)\<lparr>refcount := refcount (port_table st ! i) + 1\<rparr>]
     | None \<Rightarrow>
         (case first_idx (\<lambda>p. port_id p = 0) (port_table st) of
            Some i \<Rightarrow>
              if flags AND PORT_CREATE = 0 then rc = 0 \<and> st' = st
              else port_find_by_id st' rc = Some i \<and> fresh_port nm i pid (port_table st' ! i) \<and>
                port_queue st' i = [] \<and> (\<forall>j<MAX_PORTS. j \<noteq> i \<longrightarrow> port_table st' ! j = port_table st ! j \<and>
                  port_queue st' j = port_queue st j)
          | None \<Rightarrow> rc = 0 \<and> st' = st))"
proof -
  note D = ports_okD[OF ok]
  let ?g = "st\<lparr>g_port_lock := 1\<rparr>"
  have st0: "?g\<lparr>g_port_lock := 0\<rparr> = st" "st\<lparr>g_port_lock := 0\<rparr> = st" using D(2) by simp_all
  have ne: "nm \<noteq> []" "hd nm \<noteq> 0" using nm by (cases nm; force)+
  have pf: "port_find_by_name ?g nm = Some (first_idx (has_name nm) (port_table st))"
    using port_find_by_name_eq[OF ok nm(1)] by (simp add: port_find_by_name_def)
  note start = port_open_def D(2) pf ne
  show ?thesis
  proof (cases "first_idx (has_name nm) (port_table st)")
    case (Some i)
    have i: "i < MAX_PORTS" using first_idx_bound[OF Some] D(1) by simp
    have id: "port_id (port_table st ! i) \<noteq> 0"
      using first_idx_holds[OF Some] by (simp add: has_name_def)
    then have pid: "port_id (port_table st ! i) = of_nat i + 1" and lk: "port_lock (port_table st ! i) = 0"
      using D(4)[OF i] by (simp_all add: port_ok_def)
    let ?p = "(port_table st ! i)\<lparr>refcount := refcount (port_table st ! i) + 1\<rparr>"
    let ?st = "st\<lparr>port_table := (port_table st)[i := ?p]\<rparr>"
    have same: "port_slots ?p = port_slots (port_table st ! i)" by (simp add: port_slots_def)
    have pk: "port_ok i ?p" using D(4)[OF i] by (simp add: port_ok_def)
    have tab: "port_table ?st = (port_table st)[i := ?p]" by simp
    note up = ports_ok_update[OF ok i tab _ pk]
    have o: "q \<in> heap_owned (port_heap ?st) \<and> kbufs ?st q = kbufs st q \<and> q \<notin> set (slot_ptrs (port_slots ?p))"
      if "j < MAX_PORTS" "j \<noteq> i" "q \<in> set (port_ptrs st j)" for j q
      using D(6)[OF that(1)] D(8)[OF that(1) i that(2)] that(3) unfolding same by auto
    have ok': "ports_ok ?st" by (rule up(1)) (use D(2,3) D(5-7)[OF i] o in \<open>simp_all add: same\<close>)
    have qj: "port_queue ?st j = port_queue st j" if "j < MAX_PORTS" for j
      using that i D(1) by (cases "j = i") (simp_all add: port_queue_def same)
    have "port_open st (Some nm) flags pid =
        (if flags AND PORT_OPEN = 0 then Some (0, st) else Some (of_nat i + 1, ?st))"
      using Some i D(1) pid st0 by (simp add: start lk unlocked[OF lk] unlocked_table[OF D(2)] upd_port_def)
    then show ?thesis using Some ok ok' qj by auto
  next
    case None
    show ?thesis
    proof (cases "first_idx (\<lambda>p. port_id p = 0) (port_table st)")
      case full: None
      then have "port_open st (Some nm) flags pid = Some (0, st)"
        using None st0 by (simp add: start Let_def)
      then show ?thesis using None full ok by auto
    next
      case (Some i)
      have i: "i < MAX_PORTS" using first_idx_bound[OF Some] D(1) by simp
      have z: "port_id (port_table st ! i) = 0" using first_idx_holds[OF Some] .
      obtain rb where rb: "ringbuf_init (Some (port_ring zero_port)) PORT_SLOT_SIZE PORT_QUEUE_DEPTH = Some (0, Some rb)"
        "ring_wf rb" "ring_slots rb = []" "slot_size rb = PORT_SLOT_SIZE" "slot_count rb = PORT_QUEUE_DEPTH"
        by (rule fresh_ring)
      obtain d where d: "strncpy (port_name zero_port) nm (PORT_NAME_LEN - 1) = Some d" "length d = 64"
        "terminated d" "cstr d = take 63 (cstr nm)" using strncpy_name[OF nm(1)] by blast
      let ?p = "zero_port\<lparr>port_name := d, port_id := of_nat i + 1, owner_pid := pid, refcount := 1,
        waiter := None, port_ring := rb\<rparr>"
      let ?st = "st\<lparr>port_table := (port_table st)[i := ?p]\<rparr>"
      have fp: "fresh_port nm i pid ?p" using d(4) by (simp add: fresh_port_def)
      have sl: "port_slots ?p = []" using rb(3) by (simp add: port_slots_def)
      have pk: "port_ok i ?p"
        using rb d(2,3) by (simp add: port_ok_def PORT_NAME_LEN_def zero_port_def)
      have tab: "port_table ?st = (port_table st)[i := ?p]" by simp
      note up = ports_ok_update[OF ok i tab _ pk]
      have o: "q \<in> heap_owned (port_heap ?st) \<and> kbufs ?st q = kbufs st q \<and> q \<notin> set (slot_ptrs (port_slots ?p))"
        if "j < MAX_PORTS" "j \<noteq> i" "q \<in> set (port_ptrs st j)" for j q
        using D(6)[OF that(1)] that(3) unfolding sl by auto
      have ok': "ports_ok ?st" by (rule up(1)) (use D(2,3) o in \<open>simp_all add: sl\<close>)
      have qj: "port_queue ?st j = port_queue st j" if "j < MAX_PORTS" "j \<noteq> i" for j
        using that by (simp add: port_queue_def)
      have fi: "port_find_by_id ?st (of_nat i + 1) = Some i"
        using index_id[OF i] i D(1) by (simp add: port_find_by_id_def)
      have "port_open st (Some nm) flags pid =
          (if flags AND PORT_CREATE = 0 then Some (0, st) else Some (of_nat i + 1, ?st))"
        using None Some d(1) rb(1) st0 by (simp add: start unlocked_table[OF D(2)] upd_port_def Let_def)
      then show ?thesis using None Some ok ok' qj fi fp sl i D(1) by (auto simp: port_queue_def)
    qed
  qed
qed

subsection \<open>Closing\<close>

definition closed_port :: "port_obj \<Rightarrow> port_obj" where
  "closed_port p =
     (let r = (if refcount p > 0 then refcount p - 1 else refcount p)
      in if refcount p \<le> 1 then p\<lparr>refcount := r, port_id := 0\<rparr> else p\<lparr>refcount := r\<rparr>)"

lemma closed_port_simps [simp]:
  "port_lock (closed_port p) = port_lock p" "port_name (closed_port p) = port_name p"
  "port_ring (closed_port p) = port_ring p" "waiter (closed_port p) = waiter p"
  "port_id (closed_port p) = (if refcount p \<le> 1 then 0 else port_id p)"
  "refcount (closed_port p) = (if refcount p > 0 then refcount p - 1 else refcount p)"
  by (simp_all add: closed_port_def Let_def)

lemma unlocked_closed: "port_lock p = 0 \<Longrightarrow> p\<lparr>port_lock := 0\<rparr> = p"
  "port_lock p = 0 \<Longrightarrow> p\<lparr>refcount := r, port_lock := 0, port_id := x\<rparr> = p\<lparr>refcount := r, port_id := x\<rparr>"
  "port_lock p = 0 \<Longrightarrow> refcount p = 0 \<Longrightarrow> p\<lparr>refcount := 0, port_id := x\<rparr> = p\<lparr>port_id := x\<rparr>"
  by (cases p; simp)+

lemma port_close_eq:
  assumes f: "port_find_by_id st ident = Some i" and i: "i < length (port_table st)"
    and lk: "port_lock (port_table st ! i) = 0"
  defines "P \<equiv> port_table st ! i"
  shows "port_close st ident = Some
    (if refcount P \<le> 1 then sched_wake_call (waiter P) (st\<lparr>port_table := (port_table st)[i := closed_port P]\<rparr>)
     else st\<lparr>port_table := (port_table st)[i := closed_port P]\<rparr>)"
proof -
  have lk': "port_lock P = 0" using lk P_def by simp
  note eqs = unlocked[OF lk'] unlocked_closed[OF lk'] closed_port_def
  have "unat (refcount P) = 0 \<or> unat (refcount P) = 1 \<or> 1 < unat (refcount P)" by linarith
  then consider "refcount P = 0" | "refcount P = 1" | "\<not> refcount P \<le> 1"
    by (auto simp: word_le_nat_alt word_unat_eq_iff)
  then show ?thesis
  proof cases
    case 1
    then show ?thesis
      unfolding port_close_def f upd_port_def using i lk'
      by (simp add: Let_def sched_wake_call_def eqs flip: P_def split: option.splits)
  next
    case 2
    then show ?thesis
      unfolding port_close_def f upd_port_def using i lk'
      by (simp add: Let_def sched_wake_call_def eqs flip: P_def split: option.splits)
  next
    case 3
    then have "0 < refcount P" "refcount P - 1 \<noteq> 0" by (auto simp: word_le_nat_alt word_less_nat_alt)
    then show ?thesis
      unfolding port_close_def f upd_port_def using 3 i lk'
      by (simp add: Let_def eqs flip: P_def)
  qed
qed

text \<open>
  C21: closing an open port drops one reference. While references remain nothing else changes.
  With the last one the port disappears: its handle is no longer found, its queue is gone, a
  waiting process is woken, and every other port and queue is as before.
\<close>

theorem port_close_correct:
  assumes ok: "ports_ok st" and f: "port_find_by_id st ident = Some i"
  shows "\<exists>st'. port_close st ident = Some st' \<and> ports_ok st' \<and>
    (\<forall>j<MAX_PORTS. j \<noteq> i \<longrightarrow> port_table st' ! j = port_table st ! j \<and> port_queue st' j = port_queue st j) \<and>
    (if refcount (port_table st ! i) \<le> 1
     then port_find_by_id st' ident = None \<and> port_queue st' i = [] \<and>
       wakeups st' = wakeups st @ (case waiter (port_table st ! i) of None \<Rightarrow> [] | Some p \<Rightarrow> [p])
     else port_find_by_id st' ident = Some i \<and> port_queue st' i = port_queue st i \<and>
       refcount (port_table st' ! i) = refcount (port_table st ! i) - 1 \<and> wakeups st' = wakeups st)"
proof -
  note p = open_port[OF ok f] and F = port_find_by_id_Some[OF ok f] and D = ports_okD[OF ok]
  let ?P = "port_table st ! i" and ?last = "refcount (port_table st ! i) \<le> 1"
  have lk: "port_lock ?P = 0" using p(7) by (simp add: port_ok_def)
  define Q where "Q = closed_port ?P"
  define st' where "st' = (if ?last then sched_wake_call (waiter ?P) (st\<lparr>port_table := (port_table st)[i := Q]\<rparr>)
    else st\<lparr>port_table := (port_table st)[i := Q]\<rparr>)"
  have cl: "port_close st ident = Some st'"
    using port_close_eq[OF f _ lk] F(1) D(1) by (simp add: Q_def st'_def)
  have tab: "port_table st' = (port_table st)[i := Q]" by (simp add: st'_def)
  have st'_simps: "g_port_lock st' = g_port_lock st" "port_heap st' = port_heap st" "kbufs st' = kbufs st"
    by (simp_all add: st'_def)
  have sl: "port_slots Q = (if ?last then [] else port_slots ?P)" by (simp add: Q_def port_slots_def)
  have pk: "port_ok i Q" using p(7) by (simp add: Q_def port_ok_def)
  have o: "q \<in> heap_owned (port_heap st') \<and> kbufs st' q = kbufs st q \<and> q \<notin> set (slot_ptrs (port_slots Q))"
    if "j < MAX_PORTS" "j \<noteq> i" "q \<in> set (port_ptrs st j)" for j q
    using D(6)[OF that(1)] D(8)[OF that(1) F(1) that(2)] that(3) unfolding sl by (auto simp: st'_simps)
  note up = ports_ok_update[OF ok F(1) tab _ pk]
  have ok': "ports_ok st'"
    by (rule up(1)) (use D(2,3) D(5-7)[OF F(1)] o in \<open>simp_all add: sl st'_simps\<close>)
  have qj: "port_queue st' j = port_queue st j" if "j < MAX_PORTS" "j \<noteq> i" for j
    using that by (simp add: port_queue_def tab st'_simps)
  have ti: "port_table st' ! i = Q" using F(1) D(1) by (simp add: tab)
  have fd: "port_find_by_id st' ident = (if ?last then None else Some i)"
    using F p(1) by (simp add: port_find_by_id_def ti Q_def)
  have wk: "wakeups st' = wakeups st @ (if ?last then (case waiter ?P of None \<Rightarrow> [] | Some p \<Rightarrow> [p]) else [])"
    by (simp add: st'_def sched_wake_call_def split: option.splits)
  have pq: "port_queue st' i = (if ?last then [] else port_queue st i)"
    by (simp add: port_queue_def ti sl st'_simps)
  have rc: "refcount (port_table st' ! i) = refcount ?P - 1" if "\<not> ?last"
  proof -
    have "0 < refcount ?P" using that by (auto simp: word_less_nat_alt word_le_nat_alt)
    then show ?thesis using that by (simp add: ti Q_def)
  qed
  show ?thesis using cl ok' qj fd wk pq rc tab by auto
qed

text \<open>
  C0: the comment in \<^verbatim>\<open>port_close\<close> says that a blocked receiver is woken with an error. The
  receiver that is woken continues its loop on the port it had found: the queue of the
  destroyed port is still empty, so it registers itself again and blocks, and the call does
  not return.
\<close>

theorem port_close_receiver_blocks_again:
  assumes ok: "ports_ok st" and f: "port_find_by_id st ident = Some i"
    and e: "port_queue st i = []" and last: "refcount (port_table st ! i) \<le> 1"
  shows "\<exists>st' st''. port_close st ident = Some st' \<and> port_find_by_id st' ident = None \<and>
    recv_loop st' cur i buf bcap = Some (Blocked, st'')"
proof -
  note p = open_port[OF ok f] and F = port_find_by_id_Some[OF ok f] and D = ports_okD[OF ok]
  have lk: "port_lock (port_table st ! i) = 0" using p(7) by (simp add: port_ok_def)
  have rs: "ring_slots (port_ring (port_table st ! i)) = []" using e p(5) by (simp add: port_queue_def)
  let ?st = "sched_wake_call (waiter (port_table st ! i))
    (st\<lparr>port_table := (port_table st)[i := closed_port (port_table st ! i)]\<rparr>)"
  define st' where "st' = ?st"
  have "port_close st ident = Some st'"
    using port_close_eq[OF f _ lk] F(1) D(1) last by (simp add: st'_def)
  moreover have ti: "port_table st' ! i = closed_port (port_table st ! i)"
    using F(1) D(1) by (simp add: st'_def)
  moreover have "port_find_by_id st' ident = None"
    using F last by (simp add: port_find_by_id_def ti)
  ultimately have st': "port_close st ident = Some st'" "port_find_by_id st' ident = None"
    "port_ring (port_table st' ! i) = port_ring (port_table st ! i)" by simp_all
  have "ringbuf_pop (port_ring (port_table st' ! i)) (replicate 64 0) PORT_SLOT_SIZE =
      Some (-1, replicate 64 0, port_ring (port_table st ! i))"
    using ring.pop_none[OF p(2) rs] st'(3) by simp
  then have "\<exists>st''. recv_loop st' cur i buf bcap = Some (Blocked, st'')" by (simp add: recv_loop_def)
  then show ?thesis using st' by blast
qed

subsection \<open>A concrete port\<close>

lemma ports_ok_init: "heap_ok (port_heap st) \<Longrightarrow> ports_ok (port_subsystem_init st)"
  by (simp add: ports_ok_def port_subsystem_init_def port_slots_def port_ok_def zero_port_def)

definition no_ports :: ports where
  "no_ports = port_subsystem_init
     \<lparr>port_table = [], g_port_lock = 0, port_heap = demo_heap, kbufs = (\<lambda>_. None), wakeups = []\<rparr>"

definition demo_name :: "u8 list" where
  "demo_name = [108, 111, 103, 0]"

text \<open>The table after one port was created in it, and the same port with one message.\<close>

definition demo_port :: port_obj where
  "demo_port = zero_port\<lparr>port_name := demo_name @ replicate 60 0, port_id := 1, owner_pid := 7,
     refcount := 1, port_ring := zero_ring\<lparr>rb_magic := RINGBUF_MAGIC, rb_version := RINGBUF_VERSION,
       slot_size := PORT_SLOT_SIZE, slot_count := PORT_QUEUE_DEPTH\<rparr>\<rparr>"

definition one_port :: ports where
  "one_port = no_ports\<lparr>port_table := (port_table no_ports)[0 := demo_port]\<rparr>"

lemma no_ports_ok: "ports_ok no_ports"
proof -
  have "heap_ok demo_heap" using demo_heap_inv by (auto simp: heap_ok_def)
  then show ?thesis unfolding no_ports_def by (intro ports_ok_init) simp
qed

lemma demo_ring: "ring_wf (port_ring demo_port)" "ring_slots (port_ring demo_port) = []"
  by (simp_all add: demo_port_def zero_ring_def ring_wf_def ringbuf_valid_def PORT_SLOT_SIZE_def
      PORT_QUEUE_DEPTH_def is_pow2_def ring_count_def ring_slots_def)

lemma one_port_ok: "ports_ok one_port" "port_find_by_id one_port 1 = Some 0" "port_queue one_port 0 = []"
    "port_table one_port ! 0 = demo_port"
proof -
  have t: "port_table one_port = (port_table no_ports)[0 := demo_port]" by (simp add: one_port_def)
  have s: "port_slots demo_port = []" using demo_ring(2) by (simp add: port_slots_def)
  have k: "port_ok 0 demo_port"
    unfolding port_ok_def using demo_ring(1)
    by (simp add: demo_port_def zero_port_def PORT_NAME_LEN_def demo_name_def)
  have l: "length (port_table no_ports) = MAX_PORTS" "0 < MAX_PORTS"
    using ports_okD(1)[OF no_ports_ok] by (simp_all add: MAX_PORTS_def)
  show "ports_ok one_port"
    by (rule ports_ok_update(1)[OF no_ports_ok l(2) t _ k])
      (use ports_okD(2,3,6)[OF no_ports_ok] in \<open>auto simp: one_port_def s\<close>)
  show i: "port_table one_port ! 0 = demo_port" using l by (simp add: t)
  show "port_find_by_id one_port 1 = Some 0"
    unfolding port_find_by_id_def using i by (simp add: MAX_PORTS_def demo_port_def)
  show "port_queue one_port 0 = []" by (simp add: port_queue_def i s)
qed


theorem port_open_correct_witness:
  "\<exists>st'. port_open one_port (Some demo_name) PORT_OPEN 9 = Some (1, st') \<and>
     refcount (port_table st' ! 0) = 2 \<and> ports_ok st'"
proof -
  have "has_name demo_name demo_port"
    by (simp add: has_name_def demo_port_def demo_name_def)
  then have "first_idx (has_name demo_name) (port_table one_port) = Some 0"
    using ports_okD(1)[OF one_port_ok(1)] one_port_ok(4) by (simp add: first_idx_Some MAX_PORTS_def)
  moreover have "PORT_OPEN AND PORT_OPEN \<noteq> 0" by (simp add: PORT_OPEN_def)
  moreover have "refcount demo_port = 1" by (simp add: demo_port_def)
  moreover have "terminated demo_name" "cstr demo_name \<noteq> []" by (simp_all add: demo_name_def)
  ultimately show ?thesis
    using port_open_correct[OF one_port_ok(1), of demo_name PORT_OPEN 9] one_port_ok(4)
      ports_okD(1)[OF one_port_ok(1)] by (auto simp: MAX_PORTS_def)
qed

theorem port_close_correct_witness:
  "\<exists>st'. port_close one_port 1 = Some st' \<and> port_find_by_id st' 1 = None \<and> ports_ok st'"
proof -
  have "refcount (port_table one_port ! 0) \<le> 1" by (simp add: one_port_ok(4) demo_port_def)
  then show ?thesis using port_close_correct[OF one_port_ok(1,2)] by auto
qed

theorem port_close_receiver_blocks_again_witness:
  "\<exists>st' st''. port_close one_port 1 = Some st' \<and> port_find_by_id st' 1 = None \<and>
     recv_loop st' 3 0 (replicate 64 0) 64 = Some (Blocked, st'')"
  by (rule port_close_receiver_blocks_again[OF one_port_ok(1-3)])
    (simp add: one_port_ok(4) demo_port_def)


end
