(* ===== verification/Security.thy ===== *)
theory Security
  imports KString Spin_Lock
begin

text \<open>
  The security module, \<^verbatim>\<open>kernel/security/security.c\<close>: entropy pool, audit ring, authentication
  rate limiter, the write-xor-execute check and the boot-time initialisation.

  What the processor and the timer deliver is an argument of the operation that reads it: the
  time stamp counter, the registers \<^verbatim>\<open>cpuid\<close> fills, the outcomes of \<^verbatim>\<open>rdrand\<close> and the tick count
  of the timer.
\<close>

definition str :: "string \<Rightarrow> u8 list" where
  "str s = map of_char s @ [0]"

subsection \<open>State\<close>

definition POOL_WORDS :: nat where "POOL_WORDS = 32"
definition AUDIT_RING_SIZE :: u32 where "AUDIT_RING_SIZE = 64"
definition AUDIT_DETAIL_LEN :: nat where "AUDIT_DETAIL_LEN = 48"
definition RATELIMIT_MAX_USERS :: nat where "RATELIMIT_MAX_USERS = 32"
definition RATELIMIT_WINDOW_NS :: u64 where "RATELIMIT_WINDOW_NS = 60 * 1000000000"
definition RATELIMIT_LOCKOUT_NS :: u64 where "RATELIMIT_LOCKOUT_NS = 30 * 1000000000"
definition RATELIMIT_THRESHOLD :: u32 where "RATELIMIT_THRESHOLD = 5"

definition AUDIT_LOGIN_OK :: u8 where "AUDIT_LOGIN_OK = 1"
definition AUDIT_LOGIN_FAIL :: u8 where "AUDIT_LOGIN_FAIL = 2"
definition AUDIT_SYSCALL_DENY :: u8 where "AUDIT_SYSCALL_DENY = 4"
definition AUDIT_EXEC :: u8 where "AUDIT_EXEC = 5"

record audit_entry =
  timestamp_ns :: u64
  ae_pid :: u32
  ae_uid :: u32
  event :: u8
  detail :: "u8 list"

record ratelimit_entry =
  rl_uid :: u32
  fail_count :: u32
  first_fail_ns :: u64
  lockout_until_ns :: u64

record security =
  g_pool :: "u64 list"
  g_pool_idx :: u32
  g_pool_lock :: u32
  g_audit_ring :: "audit_entry list"
  g_audit_head :: u32
  g_audit_lock :: u32
  g_rl_table :: "ratelimit_entry list"
  g_rl_lock :: u32
  stack_chk_guard :: u64

definition zero_rl :: ratelimit_entry where
  "zero_rl = \<lparr>rl_uid = 0, fail_count = 0, first_fail_ns = 0, lockout_until_ns = 0\<rparr>"

definition zero_audit :: audit_entry where
  "zero_audit = \<lparr>timestamp_ns = 0, ae_pid = 0, ae_uid = 0, event = 0, detail = replicate AUDIT_DETAIL_LEN 0\<rparr>"

subsection \<open>Processor\<close>

definition sec_rdtsc :: "u32 \<Rightarrow> u32 \<Rightarrow> u64" where
  "sec_rdtsc hi lo = push_bit 32 (ucast hi) OR ucast lo"

text \<open>\<open>ecx\<close> is what leaf 1 of \<^verbatim>\<open>cpuid\<close> reports; \<open>draws\<close> are the outcomes of successive \<^verbatim>\<open>rdrand\<close>s.\<close>

fun rdrand_loop :: "nat \<Rightarrow> (bool \<times> u64) list \<Rightarrow> u64 option" where
  "rdrand_loop 0 draws = None"
| "rdrand_loop (Suc i) [] = None"
| "rdrand_loop (Suc i) ((ok, val) # draws) = (if ok then Some val else rdrand_loop i draws)"

definition sec_rdrand64 :: "u32 \<Rightarrow> (bool \<times> u64) list \<Rightarrow> u64 option" where
  "sec_rdrand64 ecx draws = (if ecx AND push_bit 30 1 = 0 then None else rdrand_loop 10 draws)"

subsection \<open>Entropy pool\<close>

definition ROTL64 :: "u64 \<Rightarrow> nat \<Rightarrow> u64" where
  "ROTL64 x n = push_bit n x OR drop_bit (64 - n) x"

definition quarter :: "u64 \<times> u64 \<times> u64 \<times> u64 \<Rightarrow> u64 \<times> u64 \<times> u64 \<times> u64" where
  "quarter = (\<lambda>(a, b, c, d).
     let a = a + b; d = d XOR a; d = ROTL64 d 32;
         c = c + d; b = b XOR c; b = ROTL64 b 24;
         a = a + b; d = d XOR a; d = ROTL64 d 16;
         c = c + d; b = b XOR c; b = ROTL64 b 63
     in (a, b, c, d))"

text \<open>The round on four words of the pool, given by their indices.\<close>

definition pool_quarter_round :: "nat \<Rightarrow> nat \<Rightarrow> nat \<Rightarrow> nat \<Rightarrow> u64 list \<Rightarrow> u64 list" where
  "pool_quarter_round i j k l p =
     (let (a, b, c, d) = quarter (p ! i, p ! j, p ! k, p ! l)
      in p[i := a, j := b, k := c, l := d])"

fun pool_mix_from :: "nat list \<Rightarrow> u64 list \<Rightarrow> u64 list" where
  "pool_mix_from [] p = p"
| "pool_mix_from (i # is) p =
     pool_mix_from is (pool_quarter_round (16 + i) (20 + i) (24 + i) (28 + i)
                        (pool_quarter_round (0 + i) (4 + i) (8 + i) (12 + i) p))"

definition pool_mix :: "u64 list \<Rightarrow> u64 list" where
  "pool_mix p = pool_mix_from [0, 1, 2, 3] p"

definition xor_pool :: "nat \<Rightarrow> u64 \<Rightarrow> u64 list \<Rightarrow> u64 list" where
  "xor_pool i v p = p[i := p ! i XOR v]"

definition entropy_mix :: "u64 \<Rightarrow> security \<Rightarrow> security option" where
  "entropy_mix seed s = do {
     l \<leftarrow> spin_lock (g_pool_lock s);
     let p = xor_pool (unat (g_pool_idx s) mod POOL_WORDS) seed (g_pool s);
     Some (s\<lparr>g_pool := pool_mix p, g_pool_idx := g_pool_idx s + 1, g_pool_lock := spin_unlock l\<rparr>) }"

definition entropy_get64 :: "u64 \<Rightarrow> security \<Rightarrow> (u64 \<times> security) option" where
  "entropy_get64 tsc s = do {
     l \<leftarrow> spin_lock (g_pool_lock s);
     let p = pool_mix (xor_pool (unat (g_pool_idx s) mod POOL_WORDS) tsc (g_pool s));
     let result = p ! 0 XOR p ! (POOL_WORDS div 2);
     Some (result, s\<lparr>g_pool := p[0 := p ! 0 + p ! 1], g_pool_idx := g_pool_idx s + 1,
                     g_pool_lock := spin_unlock l\<rparr>) }"

subsection \<open>Audit log\<close>

definition audit_log :: "u64 \<Rightarrow> u32 \<Rightarrow> u32 \<Rightarrow> u8 \<Rightarrow> u8 list option \<Rightarrow> security \<Rightarrow> security option" where
  "audit_log ticks pid uid ev det s = do {
     l \<leftarrow> spin_lock (g_audit_lock s);
     let i = unat (g_audit_head s mod AUDIT_RING_SIZE);
     d \<leftarrow> memset (detail (g_audit_ring s ! i)) 0 AUDIT_DETAIL_LEN;
     d \<leftarrow> (case det of
            None \<Rightarrow> Some d
          | Some t \<Rightarrow> do {
              len \<leftarrow> strlen t;
              let len = (if len \<ge> AUDIT_DETAIL_LEN then AUDIT_DETAIL_LEN - 1 else len);
              memcpy d t len });
     Some (s\<lparr>g_audit_ring := (g_audit_ring s)[i := \<lparr>timestamp_ns = ticks * 10000000, ae_pid = pid,
               ae_uid = uid, event = ev, detail = d\<rparr>],
             g_audit_head := g_audit_head s + 1, g_audit_lock := spin_unlock l\<rparr>) }"

text \<open>What \<^verbatim>\<open>audit_dump\<close> writes to the serial console, call by call.\<close>

datatype serial_call = serial_puts "u8 list" | put_u64 u64

definition dump_entry :: "audit_entry \<Rightarrow> serial_call list" where
  "dump_entry e =
     [serial_puts (str ''[AUDIT] ts=''), put_u64 (timestamp_ns e), serial_puts (str '' pid=''),
      put_u64 (ucast (ae_pid e)), serial_puts (str '' uid=''), put_u64 (ucast (ae_uid e)),
      serial_puts (str '' ev=''), put_u64 (ucast (event e)), serial_puts (str '' ''),
      serial_puts (detail e), serial_puts (str [CHR 0x0A])]"

definition audit_entries :: "security \<Rightarrow> audit_entry list" where
  "audit_entries s =
     (let count = (if g_audit_head s < AUDIT_RING_SIZE then g_audit_head s else AUDIT_RING_SIZE);
          start = (if g_audit_head s \<ge> AUDIT_RING_SIZE then g_audit_head s mod AUDIT_RING_SIZE else 0)
      in map (\<lambda>i. g_audit_ring s ! unat ((start + of_nat i) mod AUDIT_RING_SIZE)) [0..<unat count])"

definition audit_dump :: "security \<Rightarrow> (serial_call list \<times> security) option" where
  "audit_dump s = do {
     l \<leftarrow> spin_lock (g_audit_lock s);
     let out = concat (map dump_entry (audit_entries s));
     Some (out, s\<lparr>g_audit_lock := spin_unlock l\<rparr>) }"

subsection \<open>Rate limiter\<close>

definition rl_find :: "ratelimit_entry list \<Rightarrow> u32 \<Rightarrow> nat option" where
  "rl_find t uid = first_idx (\<lambda>e. rl_uid e = uid \<and> fail_count e > 0) t"

fun oldest_from :: "nat \<Rightarrow> ratelimit_entry list \<Rightarrow> u64 \<Rightarrow> nat \<Rightarrow> nat" where
  "oldest_from i [] ts idx = idx"
| "oldest_from i (e # es) ts idx =
     (if first_fail_ns e < ts then oldest_from (Suc i) es (first_fail_ns e) i
      else oldest_from (Suc i) es ts idx)"

definition rl_alloc :: "ratelimit_entry list \<Rightarrow> u32 \<Rightarrow> nat \<times> ratelimit_entry list" where
  "rl_alloc t uid =
     (case first_idx (\<lambda>e. fail_count e = 0) t of
        Some i \<Rightarrow> (i, t[i := (t ! i)\<lparr>rl_uid := uid\<rparr>])
      | None \<Rightarrow>
          let i = oldest_from 0 t (-1) 0 in (i, t[i := zero_rl\<lparr>rl_uid := uid\<rparr>]))"

definition auth_fail :: "u64 \<Rightarrow> u32 \<Rightarrow> security \<Rightarrow> (int \<times> security) option" where
  "auth_fail ticks uid s = do {
     let now_ns = ticks * 10000000;
     l \<leftarrow> spin_lock (g_rl_lock s);
     let (i, t) = (case rl_find (g_rl_table s) uid of
                     Some i \<Rightarrow> (i, g_rl_table s) | None \<Rightarrow> rl_alloc (g_rl_table s) uid);
     let e = t ! i;
     if lockout_until_ns e > now_ns then do {
       s \<leftarrow> audit_log ticks 0 uid AUDIT_LOGIN_FAIL (Some (str ''login attempt during lockout''))
             (s\<lparr>g_rl_table := t, g_rl_lock := spin_unlock l\<rparr>);
       Some (1, s)
     } else do {
       let e = (if now_ns - first_fail_ns e > RATELIMIT_WINDOW_NS
                then e\<lparr>fail_count := 0, first_fail_ns := now_ns\<rparr> else e);
       let e = (if fail_count e = 0 then e\<lparr>first_fail_ns := now_ns\<rparr> else e);
       let e = e\<lparr>fail_count := fail_count e + 1\<rparr>;
       if fail_count e \<ge> RATELIMIT_THRESHOLD then do {
         let t = t[i := e\<lparr>lockout_until_ns := now_ns + RATELIMIT_LOCKOUT_NS\<rparr>];
         s \<leftarrow> audit_log ticks 0 uid AUDIT_LOGIN_FAIL
               (Some (str ''account locked after repeated failures'')) (s\<lparr>g_rl_table := t, g_rl_lock := l\<rparr>);
         Some (1, s\<lparr>g_rl_lock := spin_unlock l\<rparr>)
       } else do {
         s \<leftarrow> audit_log ticks 0 uid AUDIT_LOGIN_FAIL (Some (str ''bad password''))
               (s\<lparr>g_rl_table := t[i := e], g_rl_lock := l\<rparr>);
         Some (0, s\<lparr>g_rl_lock := spin_unlock l\<rparr>)
       }
     } }"

definition auth_success :: "u64 \<Rightarrow> u32 \<Rightarrow> security \<Rightarrow> security option" where
  "auth_success ticks uid s = do {
     l \<leftarrow> spin_lock (g_rl_lock s);
     let t = (case rl_find (g_rl_table s) uid of
                Some i \<Rightarrow> (g_rl_table s)[i := zero_rl] | None \<Rightarrow> g_rl_table s);
     audit_log ticks 0 uid AUDIT_LOGIN_OK (Some (str ''login successful''))
       (s\<lparr>g_rl_table := t, g_rl_lock := spin_unlock l\<rparr>) }"

subsection \<open>Write xor execute\<close>

definition SEC_PROT_WRITE :: int where "SEC_PROT_WRITE = 2"
definition SEC_PROT_EXEC :: int where "SEC_PROT_EXEC = 4"

definition security_check_wx :: "u64 \<Rightarrow> int \<Rightarrow> security \<Rightarrow> (int \<times> security) option" where
  "security_check_wx ticks prot s =
     (if prot AND SEC_PROT_WRITE \<noteq> 0 \<and> prot AND SEC_PROT_EXEC \<noteq> 0 then do {
        s \<leftarrow> audit_log ticks 0 0 AUDIT_SYSCALL_DENY
              (Some (str ''W^X violation: write+exec mapping rejected'')) s;
        Some (-1, s)
      } else Some (0, s))"

subsection \<open>Initialisation\<close>

text \<open>The registers after \<^verbatim>\<open>cpuid\<close>, and all that \<^verbatim>\<open>security_init\<close> reads from the machine.\<close>

record cpuid_regs =
  eax :: u32
  ebx :: u32
  ecx :: u32
  edx :: u32

record boot_cpu =
  first_tsc :: u64
  draws :: "(bool \<times> u64) list"
  leaf0 :: cpuid_regs
  leaf1 :: cpuid_regs
  second_tsc :: u64
  canary_tsc :: u64
  boot_ticks :: u64

definition security_init :: "boot_cpu \<Rightarrow> security \<Rightarrow> security option" where
  "security_init c s = do {
     let s = s\<lparr>g_pool := replicate POOL_WORDS 0, g_audit_ring := replicate (unat AUDIT_RING_SIZE) zero_audit,
               g_rl_table := replicate RATELIMIT_MAX_USERS zero_rl\<rparr>;
     s \<leftarrow> entropy_mix (first_tsc c) s;
     s \<leftarrow> entropy_mix (first_tsc c XOR 0xdeadbeefcafe0000) s;
     s \<leftarrow> (case sec_rdrand64 (ecx (leaf1 c)) (draws c) of Some rnd \<Rightarrow> entropy_mix rnd s | None \<Rightarrow> Some s);
     s \<leftarrow> entropy_mix (push_bit 32 (ucast (ebx (leaf0 c))) OR ucast (edx (leaf0 c))) s;
     s \<leftarrow> entropy_mix (push_bit 32 (ucast (ecx (leaf0 c))) OR ucast (eax (leaf0 c))) s;
     s \<leftarrow> entropy_mix (push_bit 32 (ucast (eax (leaf1 c))) OR ucast (edx (leaf1 c))) s;
     s \<leftarrow> entropy_mix (second_tsc c) s;
     (canary, s) \<leftarrow> entropy_get64 (canary_tsc c) s;
     let canary = (if canary = 0 \<or> canary = -1 then 0x596f75416c6c6f77 else canary);
     audit_log (boot_ticks c) 0 0 AUDIT_EXEC (Some (str ''security module initialised''))
       (s\<lparr>stack_chk_guard := canary\<rparr>) }"

end
