(* ===== verification/Security_Props.thy ===== *)
theory Security_Props
  imports Security
begin

text \<open>
  What the security module promises: mixing the pool loses no entropy, the audit log shows the
  last 64 events in order, the rate limiter locks an account at the fifth failure within a
  minute, and initialisation never leaves a trivial stack canary.
\<close>

subsection \<open>Well-formed state\<close>

definition sec_wf :: "security \<Rightarrow> bool" where
  "sec_wf s \<longleftrightarrow> length (g_pool s) = POOL_WORDS \<and> g_pool_lock s = 0 \<and>
     length (g_audit_ring s) = 64 \<and> (\<forall>e\<in>set (g_audit_ring s). length (detail e) = AUDIT_DETAIL_LEN) \<and>
     g_audit_lock s = 0 \<and> length (g_rl_table s) = RATELIMIT_MAX_USERS \<and> g_rl_lock s = 0"

lemma length_pool_quarter_round [simp]: "length (pool_quarter_round i j k l p) = length p"
  by (simp add: pool_quarter_round_def split: prod.splits)

lemma length_pool_mix_from [simp]: "length (pool_mix_from is p) = length p"
  by (induction "is" p rule: pool_mix_from.induct) simp_all

lemma length_pool_mix [simp]: "length (pool_mix p) = length p"
  by (simp add: pool_mix_def)

lemma length_xor_pool [simp]: "length (xor_pool i v p) = length p"
  by (simp add: xor_pool_def)

lemma entropy_mix_wf:
  assumes "sec_wf s"
  shows "\<exists>s'. entropy_mix seed s = Some s' \<and> sec_wf s' \<and> g_audit_head s' = g_audit_head s"
  using assms by (simp add: entropy_mix_def sec_wf_def)

lemma entropy_get64_wf:
  assumes "sec_wf s"
  shows "\<exists>r s'. entropy_get64 tsc s = Some (r, s') \<and> sec_wf s' \<and> g_audit_head s' = g_audit_head s"
  using assms by (simp add: entropy_get64_def sec_wf_def Let_def)

subsection \<open>The entropy pool\<close>

lemma ROTL64_inverse:
  assumes "0 < n" "n < 64"
  shows "ROTL64 (ROTL64 x n) (64 - n) = x"
proof (rule bit_word_eqI)
  fix i
  assume "i < LENGTH(64)"
  then have i: "i < 64" by simp
  show "bit (ROTL64 (ROTL64 x n) (64 - n)) i = bit x i"
  proof (cases "i < 64 - n")
    case True
    then show ?thesis
      using assms i by (auto simp: ROTL64_def bit_simps dest: bit_imp_le_length)
  next
    case False
    then have "i - (64 - n) < n" "64 - n + (i - (64 - n)) = i" "64 \<le> n + i" using i assms by auto
    then show ?thesis
      using assms i False by (auto simp: ROTL64_def bit_simps dest: bit_imp_le_length)
  qed
qed

definition unquarter :: "u64 \<times> u64 \<times> u64 \<times> u64 \<Rightarrow> u64 \<times> u64 \<times> u64 \<times> u64" where
  "unquarter = (\<lambda>(a, b, c, d).
     let b = ROTL64 b 1; b = b XOR c; c = c - d;
         d = ROTL64 d 48; d = d XOR a; a = a - b;
         b = ROTL64 b 40; b = b XOR c; c = c - d;
         d = ROTL64 d 32; d = d XOR a; a = a - b
     in (a, b, c, d))"

lemma unquarter_quarter: "unquarter (quarter x) = x"
proof -
  have r: "ROTL64 (ROTL64 y 32) 32 = y" "ROTL64 (ROTL64 y 24) 40 = y" "ROTL64 (ROTL64 y 16) 48 = y"
    "ROTL64 (ROTL64 y 63) 1 = y" for y
    using ROTL64_inverse[of 32 y] ROTL64_inverse[of 24 y] ROTL64_inverse[of 16 y] ROTL64_inverse[of 63 y]
    by simp_all
  have x: "(u XOR v) XOR v = u" for u v :: u64 by (simp add: xor.assoc)
  show ?thesis by (cases x) (simp only: quarter_def unquarter_def Let_def prod.case r x add_diff_cancel_right')
qed

definition unround :: "nat \<Rightarrow> nat \<Rightarrow> nat \<Rightarrow> nat \<Rightarrow> u64 list \<Rightarrow> u64 list" where
  "unround i j k l p =
     (let (a, b, c, d) = unquarter (p ! i, p ! j, p ! k, p ! l)
      in p[i := a, j := b, k := c, l := d])"

lemma unround_round:
  assumes "distinct [i, j, k, l]" and "{i, j, k, l} \<subseteq> {..<length p}"
  shows "unround i j k l (pool_quarter_round i j k l p) = p"
proof -
  obtain a b c d where q: "quarter (p ! i, p ! j, p ! k, p ! l) = (a, b, c, d)" by (cases "quarter (p ! i, p ! j, p ! k, p ! l)")
  then have u: "unquarter (a, b, c, d) = (p ! i, p ! j, p ! k, p ! l)"
    using unquarter_quarter[of "(p ! i, p ! j, p ! k, p ! l)"] by simp
  have r: "pool_quarter_round i j k l p = p[i := a, j := b, k := c, l := d]"
    by (simp add: pool_quarter_round_def q)
  have "p[i := a, j := b, k := c, l := d, i := p ! i, j := p ! j, k := p ! k, l := p ! l] = p"
    by (rule nth_equalityI) (use assms in \<open>simp_all add: nth_list_update\<close>)
  then show ?thesis using assms u by (simp add: unround_def r nth_list_update)
qed

fun unmix_from :: "nat list \<Rightarrow> u64 list \<Rightarrow> u64 list" where
  "unmix_from [] p = p"
| "unmix_from (i # is) p =
     unround (0 + i) (4 + i) (8 + i) (12 + i)
       (unround (16 + i) (20 + i) (24 + i) (28 + i) (unmix_from is p))"

lemma unmix_mix:
  "\<forall>i\<in>set is. i < 4 \<Longrightarrow> length p = 32 \<Longrightarrow> unmix_from is (pool_mix_from is p) = p"
proof (induction "is" p rule: pool_mix_from.induct)
  case (2 i "is" p)
  let ?q = "pool_quarter_round (0 + i) (4 + i) (8 + i) (12 + i) p"
  let ?r = "pool_quarter_round (16 + i) (20 + i) (24 + i) (28 + i) ?q"
  have i: "i < 4" and l: "length p = 32" using "2.prems" by simp_all
  have "unround (16 + i) (20 + i) (24 + i) (28 + i) ?r = ?q"
    by (rule unround_round) (use i l in auto)
  moreover have "unround (0 + i) (4 + i) (8 + i) (12 + i) ?q = p"
    by (rule unround_round) (use i l in auto)
  moreover have "unmix_from is (pool_mix_from is ?r) = ?r"
    by (rule "2.IH") (use "2.prems" in simp_all)
  ultimately show ?case by (simp only: pool_mix_from.simps unmix_from.simps)
qed simp

lemma pool_mix_inj: "length p = 32 \<Longrightarrow> length q = 32 \<Longrightarrow> pool_mix p = pool_mix q \<Longrightarrow> p = q"
  using unmix_mix[of "[0, 1, 2, 3]" p] unmix_mix[of "[0, 1, 2, 3]" q] by (simp add: pool_mix_def)

text \<open>
  C25: mixing loses no entropy. Two pools that differ still differ after the same seed was mixed
  in, and two different seeds leave different pools.
\<close>

theorem entropy_mix_injective:
  assumes "sec_wf s" and "sec_wf t" and "g_pool_idx s = g_pool_idx t"
    and "entropy_mix x s = Some s'" and "entropy_mix y t = Some t'" and "g_pool s' = g_pool t'"
  shows "(x = y \<longrightarrow> g_pool s = g_pool t) \<and> (g_pool s = g_pool t \<longrightarrow> x = y)"
proof -
  let ?i = "unat (g_pool_idx t) mod POOL_WORDS"
  have l: "length (g_pool s) = 32" "length (g_pool t) = 32" and i: "?i < 32"
    using assms(1,2) by (simp_all add: sec_wf_def POOL_WORDS_def)
  have "pool_mix (xor_pool ?i x (g_pool s)) = pool_mix (xor_pool ?i y (g_pool t))"
    using assms by (auto simp: entropy_mix_def sec_wf_def)
  then have e: "xor_pool ?i x (g_pool s) = xor_pool ?i y (g_pool t)"
    using l by (rule_tac pool_mix_inj) simp_all
  have nth: "g_pool s ! j = g_pool t ! j" if "j < 32" "j \<noteq> ?i" for j
    using arg_cong[OF e, of "\<lambda>p. p ! j"] that by (simp add: xor_pool_def)
  have at: "g_pool s ! ?i XOR x = g_pool t ! ?i XOR y"
    using arg_cong[OF e, of "\<lambda>p. p ! ?i"] l i by (simp add: xor_pool_def)
  have x: "(u XOR v) XOR v = u" for u v :: u64 by (simp add: xor.assoc)
  have y: "u XOR (u XOR v) = v" for u v :: u64 by (simp flip: xor.assoc)
  show ?thesis
  proof (intro conjI impI)
    assume xy: "x = y"
    have "g_pool s ! ?i = g_pool t ! ?i" using at xy x by metis
    then have "g_pool s ! j = g_pool t ! j" if "j < 32" for j using nth that by (cases "j = ?i") auto
    then show "g_pool s = g_pool t" using l by (intro nth_equalityI) auto
  next
    assume "g_pool s = g_pool t"
    then show "x = y" using at y by metis
  qed
qed

subsection \<open>The audit log\<close>

definition detail_of :: "u8 list option \<Rightarrow> u8 list" where
  "detail_of det = (let d = (case det of None \<Rightarrow> [] | Some t \<Rightarrow> take 47 (cstr t)) in d @ replicate (48 - length d) 0)"

definition logged :: "u64 \<Rightarrow> u32 \<Rightarrow> u32 \<Rightarrow> u8 \<Rightarrow> u8 list option \<Rightarrow> audit_entry" where
  "logged ticks pid uid ev det =
     \<lparr>timestamp_ns = ticks * 10000000, ae_pid = pid, ae_uid = uid, event = ev, detail = detail_of det\<rparr>"

lemma take_cstr: "terminated t \<Longrightarrow> n \<le> length (cstr t) \<Longrightarrow> take n t = take n (cstr t)"
  by (erule terminated_split) (metis append_take_drop_id take_append diff_is_0_eq take0 append_Nil2)

lemma audit_log_ok:
  assumes wf: "sec_wf s" and det: "\<And>t. det = Some t \<Longrightarrow> terminated t"
  shows "audit_log ticks pid uid ev det s =
    Some (s\<lparr>g_audit_ring := (g_audit_ring s)[unat (g_audit_head s) mod 64 := logged ticks pid uid ev det],
            g_audit_head := g_audit_head s + 1\<rparr>)"
proof -
  let ?i = "unat (g_audit_head s) mod 64"
  have i: "?i < length (g_audit_ring s)" using wf by (simp add: sec_wf_def)
  then have d: "length (detail (g_audit_ring s ! ?i)) = 48"
    using wf by (simp add: sec_wf_def AUDIT_DETAIL_LEN_def)
  have "memset (detail (g_audit_ring s ! ?i)) 0 AUDIT_DETAIL_LEN = Some (replicate 48 0)"
    using d by (simp add: memset_eq AUDIT_DETAIL_LEN_def)
  moreover have "(case det of None \<Rightarrow> Some (replicate 48 0)
      | Some t \<Rightarrow> do { len \<leftarrow> strlen t;
          let len = (if len \<ge> AUDIT_DETAIL_LEN then AUDIT_DETAIL_LEN - 1 else len);
          memcpy (replicate 48 0) t len }) = Some (detail_of det)"
  proof (cases det)
    case None
    then show ?thesis by (simp add: detail_of_def)
  next
    case (Some t)
    then have t: "terminated t" using det by simp
    let ?n = "if length (cstr t) \<ge> 48 then 47 else length (cstr t)"
    have "?n \<le> length t" "?n \<le> length (cstr t)" using terminated_length[OF t] by auto
    then have "memcpy (replicate 48 0) t ?n = Some (take ?n (cstr t) @ replicate (48 - ?n) 0)"
      using t by (subst memcpy_eq) (simp_all add: take_cstr)
    moreover have "take ?n (cstr t) @ replicate (48 - ?n) 0 = detail_of det"
      using Some by (simp add: detail_of_def Let_def min_def)
    ultimately show ?thesis using Some t by (simp add: strlen_eq AUDIT_DETAIL_LEN_def Let_def split: if_splits)
  qed
  moreover have "unat (g_audit_head s mod AUDIT_RING_SIZE) = ?i" by (simp add: unat_mod AUDIT_RING_SIZE_def)
  moreover have "g_audit_lock s = 0" using wf by (simp add: sec_wf_def)
  ultimately show ?thesis
    unfolding audit_log_def Let_def by (cases s) (simp add: logged_def)
qed

lemma length_detail_of: "length (detail_of det) = 48"
  by (simp add: detail_of_def Let_def split: option.splits)

lemma audit_log_wf: "sec_wf s \<Longrightarrow> sec_wf (s\<lparr>g_audit_ring := (g_audit_ring s)[i := logged a b c d e], g_audit_head := h\<rparr>)"
proof -
  assume "sec_wf s"
  moreover have "set ((g_audit_ring s)[i := logged a b c d e]) \<subseteq> insert (logged a b c d e) (set (g_audit_ring s))"
    by (rule set_update_subset_insert)
  ultimately show ?thesis
    by (auto simp: sec_wf_def logged_def AUDIT_DETAIL_LEN_def length_detail_of)
qed

definition audit_holds :: "security \<Rightarrow> audit_entry list \<Rightarrow> bool" where
  "audit_holds s evs \<longleftrightarrow> length evs < 2 ^ 32 \<and> g_audit_head s = of_nat (length evs) \<and>
     (\<forall>i<length evs. length evs \<le> i + 64 \<longrightarrow> g_audit_ring s ! (i mod 64) = evs ! i)"

lemma audit_head: "audit_holds s evs \<Longrightarrow> unat (g_audit_head s) = length evs"
  by (simp add: audit_holds_def unsigned_of_nat take_bit_nat_eq_self)

lemma audit_holds_log:
  assumes wf: "sec_wf s" and h: "audit_holds s evs" and n: "Suc (length evs) < 2 ^ 32"
  shows "audit_holds (s\<lparr>g_audit_ring := (g_audit_ring s)[unat (g_audit_head s) mod 64 := e],
    g_audit_head := g_audit_head s + 1\<rparr>) (evs @ [e])"
proof -
  have "(g_audit_ring s)[length evs mod 64 := e] ! (i mod 64) = (evs @ [e]) ! i"
    if i: "i < Suc (length evs)" "Suc (length evs) \<le> i + 64" for i
  proof (cases "i = length evs")
    case True
    then show ?thesis using wf by (simp add: sec_wf_def)
  next
    case False
    have "i mod 64 \<noteq> length evs mod 64"
    proof
      assume "i mod 64 = length evs mod 64"
      then have "64 dvd length evs - i" using i False by (subst (asm) eq_commute, subst (asm) mod_eq_dvd_iff_nat) auto
      then show False using i False by (auto dest: dvd_imp_le)
    qed
    then show ?thesis using i False h by (simp add: audit_holds_def nth_append)
  qed
  then show ?thesis using n h audit_head[OF h] by (simp add: audit_holds_def)
qed

lemma audit_entries_eq:
  assumes wf: "sec_wf s" and h: "audit_holds s evs"
  shows "audit_entries s = drop (length evs - 64) evs"
proof -
  let ?n = "length evs"
  define c where "c = (if g_audit_head s < AUDIT_RING_SIZE then g_audit_head s else AUDIT_RING_SIZE)"
  define st where "st = (if g_audit_head s \<ge> AUDIT_RING_SIZE then g_audit_head s mod AUDIT_RING_SIZE else 0)"
  have c: "unat c = min ?n 64" using audit_head[OF h] by (auto simp: c_def AUDIT_RING_SIZE_def word_less_nat_alt)
  have st: "unat st = (if ?n \<ge> 64 then ?n mod 64 else 0)"
    using audit_head[OF h] by (auto simp: st_def AUDIT_RING_SIZE_def word_le_nat_alt unat_mod)
  have idx: "unat ((st + of_nat i) mod AUDIT_RING_SIZE) = (?n - 64 + i) mod 64" if "i < min ?n 64" for i
  proof -
    have "unat st < 64" using st by simp
    then have "unat (st + of_nat i) = unat st + i"
      using that by (subst unat_add_lem[THEN iffD1]) (simp_all add: unsigned_of_nat take_bit_nat_eq_self)
    then have "unat ((st + of_nat i) mod AUDIT_RING_SIZE) = (unat st + i) mod 64"
      by (simp add: unat_mod AUDIT_RING_SIZE_def)
    also have "\<dots> = (?n - 64 + i) mod 64"
    proof (cases "?n \<ge> 64")
      case True
      then have "?n mod 64 = (?n - 64) mod 64" by (metis le_mod_geq)
      then show ?thesis using st True by (metis mod_add_left_eq mod_mod_trivial)
    qed (use st in simp)
    finally show ?thesis .
  qed
  have "audit_entries s = map (\<lambda>i. g_audit_ring s ! unat ((st + of_nat i) mod AUDIT_RING_SIZE)) [0..<min ?n 64]"
    by (simp only: audit_entries_def Let_def c_def[symmetric] st_def[symmetric] c)
  also have "\<dots> = map (\<lambda>i. evs ! (?n - 64 + i)) [0..<min ?n 64]"
  proof (rule map_cong[OF refl])
    fix i
    assume "i \<in> set [0..<min ?n 64]"
    then have i: "i < min ?n 64" by simp
    then have "?n - 64 + i < ?n" "?n \<le> ?n - 64 + i + 64" by auto
    then have "g_audit_ring s ! ((?n - 64 + i) mod 64) = evs ! (?n - 64 + i)"
      using h unfolding audit_holds_def by blast
    then show "g_audit_ring s ! unat ((st + of_nat i) mod AUDIT_RING_SIZE) = evs ! (?n - 64 + i)"
      by (simp only: idx[OF i])
  qed
  also have "\<dots> = drop (?n - 64) evs" by (rule nth_equalityI) auto
  finally show ?thesis .
qed

text \<open>A sequence of events logged one after the other.\<close>

fun audit_run :: "(u64 \<times> u32 \<times> u32 \<times> u8 \<times> u8 list option) list \<Rightarrow> security \<Rightarrow> security option" where
  "audit_run [] s = Some s"
| "audit_run ((ticks, pid, uid, ev, det) # reqs) s =
     Option.bind (audit_log ticks pid uid ev det s) (audit_run reqs)"

lemma audit_run_holds:
  assumes "sec_wf s" and "audit_holds s evs" and "length evs + length reqs < 2 ^ 32"
    and "\<forall>(ticks, pid, uid, ev, det)\<in>set reqs. \<forall>t. det = Some t \<longrightarrow> terminated t"
  shows "\<exists>s'. audit_run reqs s = Some s' \<and> sec_wf s' \<and>
    audit_holds s' (evs @ map (\<lambda>(ticks, pid, uid, ev, det). logged ticks pid uid ev det) reqs)"
  using assms
proof (induction reqs arbitrary: s evs)
  case (Cons r reqs)
  obtain ticks pid uid ev det where r: "r = (ticks, pid, uid, ev, det)" by (cases r)
  let ?s = "s\<lparr>g_audit_ring := (g_audit_ring s)[unat (g_audit_head s) mod 64 := logged ticks pid uid ev det],
            g_audit_head := g_audit_head s + 1\<rparr>"
  have l: "audit_log ticks pid uid ev det s = Some ?s"
    using Cons.prems(1,4) r by (intro audit_log_ok) auto
  have "audit_holds ?s (evs @ [logged ticks pid uid ev det])"
    using Cons.prems(3) by (intro audit_holds_log[OF Cons.prems(1,2)]) simp
  from Cons.IH[OF audit_log_wf[OF Cons.prems(1)] this] Cons.prems(3,4) show ?case
    by (simp add: r l)
qed simp

text \<open>
  C0: starting from an empty log, after any sequence of fewer than \<open>2^32\<close> events the dump
  prints exactly the last 64 of them, oldest first, each detail cut to 47 characters, and
  leaves the state as it is.
\<close>

theorem audit_dump_last_64:
  assumes wf: "sec_wf s" and "g_audit_head s = 0" and n: "length reqs < 2 ^ 32"
    and t: "\<forall>(ticks, pid, uid, ev, det)\<in>set reqs. \<forall>t. det = Some t \<longrightarrow> terminated t"
  shows "\<exists>s'. audit_run reqs s = Some s' \<and> audit_dump s' =
    Some (concat (map (\<lambda>(ticks, pid, uid, ev, det). dump_entry (logged ticks pid uid ev det))
            (drop (length reqs - 64) reqs)), s')"
proof -
  have "audit_holds s []" using assms(2) by (simp add: audit_holds_def)
  then obtain s' where s': "audit_run reqs s = Some s'" "sec_wf s'"
    "audit_holds s' (map (\<lambda>(ticks, pid, uid, ev, det). logged ticks pid uid ev det) reqs)"
    using audit_run_holds[OF wf _ _ t, of "[]"] n by auto
  have "g_audit_lock s' = 0" using s'(2) by (simp add: sec_wf_def)
  moreover from this have "s'\<lparr>g_audit_lock := 0\<rparr> = s'" by (cases s') simp
  ultimately show ?thesis
    using s'(1) audit_entries_eq[OF s'(2,3)]
    by (simp add: audit_dump_def drop_map case_prod_unfold comp_def)
qed

subsection \<open>The rate limiter\<close>

text \<open>A sequence of failed logins of one user at the given ticks, with the answers.\<close>

fun auth_fails :: "u32 \<Rightarrow> u64 list \<Rightarrow> security \<Rightarrow> (int list \<times> security) option" where
  "auth_fails uid [] s = Some ([], s)"
| "auth_fails uid (t # ts) s = do {
     (r, s) \<leftarrow> auth_fail t uid s;
     (rs, s) \<leftarrow> auth_fails uid ts s;
     Some (r # rs, s) }"

text \<open>User \<open>uid\<close> has entry \<open>i\<close> with \<open>k\<close> failures counted since \<open>t\<close> nanoseconds.\<close>

definition failing :: "security \<Rightarrow> u32 \<Rightarrow> nat \<Rightarrow> nat \<Rightarrow> u64 \<Rightarrow> bool" where
  "failing s uid i k t \<longleftrightarrow> rl_find (g_rl_table s) uid = Some i \<and> fail_count (g_rl_table s ! i) = of_nat k \<and>
     first_fail_ns (g_rl_table s ! i) = t \<and> (k < 5 \<longrightarrow> lockout_until_ns (g_rl_table s ! i) = 0)"

lemma sec_wf_rl: "sec_wf s \<Longrightarrow> length t = 32 \<Longrightarrow> sec_wf (s\<lparr>g_rl_table := t\<rparr>)"
  by (simp add: sec_wf_def RATELIMIT_MAX_USERS_def)

lemma terminated_str: "0 \<notin> set (map of_char x :: u8 list) \<Longrightarrow> terminated (str x)"
  by (simp add: str_def)

lemma audit_log_step:
  assumes "sec_wf s"
  obtains s' where "audit_log ticks pid uid ev (Some (str d)) s = Some s'" "sec_wf s'"
    "g_rl_table s' = g_rl_table s" "g_rl_lock s' = g_rl_lock s"
  using audit_log_ok[OF assms, of "Some (str d)" ticks pid uid ev] audit_log_wf[OF assms]
  by (simp add: str_def)

text \<open>The entry the call works on, as the code updates it outside a lockout.\<close>

definition count_failure :: "u64 \<Rightarrow> ratelimit_entry \<Rightarrow> ratelimit_entry" where
  "count_failure now e =
     (let e = (if now - first_fail_ns e > RATELIMIT_WINDOW_NS
               then e\<lparr>fail_count := 0, first_fail_ns := now\<rparr> else e);
          e = (if fail_count e = 0 then e\<lparr>first_fail_ns := now\<rparr> else e);
          e = e\<lparr>fail_count := fail_count e + 1\<rparr>
      in if fail_count e \<ge> RATELIMIT_THRESHOLD then e\<lparr>lockout_until_ns := now + RATELIMIT_LOCKOUT_NS\<rparr> else e)"

lemma auth_fail_step:
  fixes ticks :: u64
  assumes wf: "sec_wf s"
    and it: "(case rl_find (g_rl_table s) uid of Some i \<Rightarrow> (i, g_rl_table s) | None \<Rightarrow> rl_alloc (g_rl_table s) uid) = (i, t)"
    and t: "length t = 32"
  defines "now \<equiv> ticks * 10000000" and "e \<equiv> t ! i"
  shows "\<exists>s'. sec_wf s' \<and>
    (if lockout_until_ns e > now then auth_fail ticks uid s = Some (1, s') \<and> g_rl_table s' = t
     else auth_fail ticks uid s = Some (if fail_count (count_failure now e) \<ge> RATELIMIT_THRESHOLD then 1 else 0, s') \<and>
       g_rl_table s' = t[i := count_failure now e])"
proof -
  have lk: "g_rl_lock s = 0" using wf by (simp add: sec_wf_def)
  have unl: "s\<lparr>g_rl_table := x, g_rl_lock := 0\<rparr> = s\<lparr>g_rl_table := x\<rparr>" for x using lk by (cases s) simp
  have wft: "sec_wf (s\<lparr>g_rl_table := x\<rparr>)" if "length x = 32" for x using sec_wf_rl[OF wf that] .
  show ?thesis
  proof (cases "lockout_until_ns e > now")
    case True
    obtain s' where "audit_log ticks 0 uid AUDIT_LOGIN_FAIL (Some (str ''login attempt during lockout''))
        (s\<lparr>g_rl_table := t\<rparr>) = Some s'" "sec_wf s'" "g_rl_table s' = t"
      by (rule audit_log_step[OF wft[OF t]]) simp
    then show ?thesis
      using True it lk unfolding auth_fail_def e_def now_def by (simp add: Let_def unl)
  next
    case False
    let ?e = "count_failure now e"
    let ?S = "s\<lparr>g_rl_table := t[i := ?e], g_rl_lock := 1\<rparr>"
    have audit: "\<exists>s'. audit_log ticks 0 uid AUDIT_LOGIN_FAIL (Some (str d)) ?S = Some (s'\<lparr>g_rl_lock := 1\<rparr>) \<and>
        sec_wf s' \<and> g_rl_table s' = t[i := ?e]" for d
    proof -
      have w: "sec_wf (s\<lparr>g_rl_table := t[i := ?e]\<rparr>)" using wft t by simp
      note l = audit_log_ok[OF w, of "Some (str d)" ticks 0 uid AUDIT_LOGIN_FAIL]
      have "audit_log ticks 0 uid AUDIT_LOGIN_FAIL (Some (str d)) ?S =
          map_option (\<lambda>x. x\<lparr>g_rl_lock := 1\<rparr>) (audit_log ticks 0 uid AUDIT_LOGIN_FAIL (Some (str d)) (s\<lparr>g_rl_table := t[i := ?e]\<rparr>))"
        by (simp add: audit_log_def Let_def map_option_bind split: option.splits bind_splits)
      then show ?thesis using l audit_log_wf[OF w] by (auto simp: str_def)
    qed
    show ?thesis
    proof (cases "fail_count ?e \<ge> RATELIMIT_THRESHOLD")
      case True
      obtain s' where s': "audit_log ticks 0 uid AUDIT_LOGIN_FAIL (Some (str ''account locked after repeated failures'')) ?S =
        Some (s'\<lparr>g_rl_lock := 1\<rparr>)" "sec_wf s'" "g_rl_table s' = t[i := ?e]" using audit by blast
      have "s'\<lparr>g_rl_lock := 0\<rparr> = s'" using s'(2) by (cases s') (simp add: sec_wf_def)
      then have "auth_fail ticks uid s = Some (1, s')"
        using False True it lk s'(1)
        unfolding auth_fail_def e_def now_def count_failure_def
        by (simp add: Let_def split: if_splits)
      then show ?thesis using False True s'(2,3) by auto
    next
      case below: False
      obtain s' where s': "audit_log ticks 0 uid AUDIT_LOGIN_FAIL (Some (str ''bad password'')) ?S =
        Some (s'\<lparr>g_rl_lock := 1\<rparr>)" "sec_wf s'" "g_rl_table s' = t[i := ?e]" using audit by blast
      have "s'\<lparr>g_rl_lock := 0\<rparr> = s'" using s'(2) by (cases s') (simp add: sec_wf_def)
      then have "auth_fail ticks uid s = Some (0, s')"
        using False below it lk s'(1)
        unfolding auth_fail_def e_def now_def count_failure_def
        by (simp add: Let_def split: if_splits)
      then show ?thesis using False below s'(2,3) by auto
    qed
  qed
qed

lemma unat_ns: "unat t * 10000000 < 2 ^ 64 \<Longrightarrow> unat (t * 10000000 :: u64) = unat t * 10000000"
  by (subst unat_mult_lem[THEN iffD1]) simp_all

text \<open>One more failure within a minute of the first one.\<close>

lemma failing_step:
  assumes wf: "sec_wf s" and f: "failing s uid i k t" and k: "1 \<le> k" "Suc k < 2 ^ 32"
    and now: "now = ticks * 10000000" "t \<le> now" "now - t \<le> RATELIMIT_WINDOW_NS"
  shows "\<exists>s' k'. auth_fail ticks uid s = Some (if k < 4 then 0 else 1, s') \<and> sec_wf s' \<and>
    failing s' uid i k' t \<and> (k < 5 \<longrightarrow> k' = Suc k) \<and> k \<le> k' \<and> k' \<le> Suc k"
proof -
  let ?T = "g_rl_table s"
  have len: "length ?T = 32" using wf by (simp add: sec_wf_def RATELIMIT_MAX_USERS_def)
  have fi: "rl_find ?T uid = Some i" and e: "fail_count (?T ! i) = of_nat k" "first_fail_ns (?T ! i) = t"
    "k < 5 \<longrightarrow> lockout_until_ns (?T ! i) = 0" using f by (auto simp: failing_def)
  have it: "(case rl_find ?T uid of Some i \<Rightarrow> (i, ?T) | None \<Rightarrow> rl_alloc ?T uid) = (i, ?T)" using fi by simp
  have i: "i < length ?T" "rl_uid (?T ! i) = uid" and before: "\<forall>j<i. \<not> (rl_uid (?T ! j) = uid \<and> fail_count (?T ! j) > 0)"
    using fi by (auto simp: rl_find_def first_idx_Some)
  have uk: "unat (of_nat n :: u32) = n" if "n < 2 ^ 32" for n
    using that by (simp add: unsigned_of_nat take_bit_nat_eq_self)
  have ksuc: "of_nat k + 1 = (of_nat (Suc k) :: u32)" by simp
  have cf: "count_failure now (?T ! i) = (?T ! i)\<lparr>fail_count := of_nat (Suc k),
      lockout_until_ns := (if k < 4 then lockout_until_ns (?T ! i) else now + RATELIMIT_LOCKOUT_NS)\<rparr>"
  proof -
    have nz: "(of_nat k :: u32) \<noteq> 0" using uk[of k] k by (metis Suc_lessD not_one_le_zero unsigned_0)
    have ge: "RATELIMIT_THRESHOLD \<le> of_nat (Suc k) \<longleftrightarrow> \<not> k < 4"
      using uk[OF k(2)] by (simp only: word_le_nat_alt RATELIMIT_THRESHOLD_def) auto
    have "\<not> now - first_fail_ns (?T ! i) > RATELIMIT_WINDOW_NS" using now(3) e(2) by simp
    then show ?thesis
      unfolding count_failure_def Let_def using e(1) nz ge by (simp del: of_nat_Suc add: ksuc)
  qed
  obtain s' where s': "sec_wf s'" "if lockout_until_ns (?T ! i) > now then auth_fail ticks uid s = Some (1, s') \<and> g_rl_table s' = ?T
     else auth_fail ticks uid s = Some (if fail_count (count_failure now (?T ! i)) \<ge> RATELIMIT_THRESHOLD then 1 else 0, s') \<and>
       g_rl_table s' = ?T[i := count_failure now (?T ! i)]"
    using auth_fail_step[OF wf it len, of ticks] unfolding now(1)[symmetric] by blast
  show ?thesis
  proof (cases "lockout_until_ns (?T ! i) > now")
    case True
    then have "\<not> k < 5" using e(3) by auto
    then show ?thesis using s' True f by (auto simp: failing_def)
  next
    case False
    have th: "(fail_count (count_failure now (?T ! i)) \<ge> RATELIMIT_THRESHOLD) = (\<not> k < 4)"
      using uk[OF k(2)] unfolding cf by (simp only: word_le_nat_alt RATELIMIT_THRESHOLD_def) auto
    have tab: "g_rl_table s' = ?T[i := count_failure now (?T ! i)]" using s'(2) False by simp
    have pos: "0 < (of_nat (Suc k) :: u32)" using uk[OF k(2)] by (simp add: word_less_nat_alt del: of_nat_Suc)
    have "rl_find (g_rl_table s') uid = Some i"
      unfolding rl_find_def first_idx_Some using i before pos by (simp add: tab cf del: of_nat_Suc)
    then have "failing s' uid i (Suc k) t"
      using i e(2,3) by (auto simp: failing_def tab cf simp del: of_nat_Suc)
    then show ?thesis using s' False th by auto
  qed
qed

lemma failing_run:
  assumes "sec_wf s" and "failing s uid i k t" and "1 \<le> k" "k + length ts < 2 ^ 32"
    and "\<forall>x\<in>set ts. t \<le> x * 10000000 \<and> x * 10000000 - t \<le> RATELIMIT_WINDOW_NS"
  shows "\<exists>s'. auth_fails uid ts s = Some (map (\<lambda>j. if k + j < 4 then 0 else 1) [0..<length ts], s')"
  using assms
proof (induction ts arbitrary: s k)
  case (Cons x ts)
  obtain s1 k1 where s1: "auth_fail x uid s = Some (if k < 4 then 0 else 1, s1)" "sec_wf s1" "failing s1 uid i k1 t"
    "k < 5 \<longrightarrow> k1 = Suc k" "k \<le> k1" "k1 \<le> Suc k"
    using failing_step[OF Cons.prems(1,2,3) _ refl, of x] Cons.prems(4,5) by auto
  obtain s2 where s2: "auth_fails uid ts s1 = Some (map (\<lambda>j. if k1 + j < 4 then 0 else 1) [0..<length ts], s2)"
    using Cons.IH[OF s1(2,3)] s1(5,6) Cons.prems(3-5) by auto
  have "map (\<lambda>j. if k + j < 4 then 0 else 1 :: int) [0..<Suc (length ts)] =
      (if k < 4 then 0 else 1) # map (\<lambda>j. if k1 + j < 4 then 0 else 1) [0..<length ts]"
    using s1(4-6) by (auto simp: upt_conv_Cons map_Suc_upt[symmetric] simp del: upt_Suc)
  then show ?case using s1(1) s2 by simp
qed simp


subsection \<open>Initialisation\<close>

text \<open>
  C26: whatever the processor reports, initialisation completes with every lock free, leaves one
  event in the audit log and no record in the rate limiter, and the stack canary is neither 0
  nor all ones.
\<close>

theorem security_init_correct:
  assumes "g_pool_lock s = 0" "g_audit_lock s = 0" "g_rl_lock s = 0" and h: "g_audit_head s = 0"
  shows "\<exists>s'. security_init c s = Some s' \<and> sec_wf s' \<and>
    stack_chk_guard s' \<noteq> 0 \<and> stack_chk_guard s' \<noteq> -1 \<and>
    audit_entries s' = [logged (boot_ticks c) 0 0 AUDIT_EXEC (Some (str ''security module initialised''))] \<and>
    (\<forall>uid. rl_find (g_rl_table s') uid = None)"
proof -
  let ?T = "replicate RATELIMIT_MAX_USERS zero_rl"
  define Q where "Q x \<longleftrightarrow> sec_wf x \<and> g_audit_head x = 0 \<and> g_rl_table x = ?T" for x
  let ?s0 = "s\<lparr>g_pool := replicate POOL_WORDS 0, g_audit_ring := replicate (unat AUDIT_RING_SIZE) zero_audit,
     g_rl_table := ?T\<rparr>"
  have q0: "Q ?s0" using assms by (simp add: Q_def sec_wf_def AUDIT_RING_SIZE_def zero_audit_def)
  have mix: "\<exists>x'. entropy_mix seed x = Some x' \<and> Q x'" if "Q x" for seed x
    using that by (simp add: Q_def entropy_mix_def sec_wf_def)
  have mixo: "\<exists>x'. (case ov of Some rnd \<Rightarrow> entropy_mix rnd x | None \<Rightarrow> Some x) = Some x' \<and> Q x'" if "Q x" for ov x
    using mix[OF that] that by (cases ov) auto
  have get: "\<exists>r x'. entropy_get64 tsc x = Some (r, x') \<and> Q x'" if "Q x" for tsc x
    using that by (simp add: Q_def entropy_get64_def sec_wf_def Let_def)
  obtain s1 where s1: "entropy_mix (first_tsc c) ?s0 = Some s1" "Q s1" using mix[OF q0] by blast
  obtain s2 where s2: "entropy_mix (first_tsc c XOR 0xdeadbeefcafe0000) s1 = Some s2" "Q s2"
    using mix[OF s1(2)] by blast
  obtain s3 where s3: "(case sec_rdrand64 (ecx (leaf1 c)) (draws c) of Some rnd \<Rightarrow> entropy_mix rnd s2 | None \<Rightarrow> Some s2) = Some s3" "Q s3"
    using mixo[OF s2(2)] by blast
  obtain s4 where s4: "entropy_mix (push_bit 32 (ucast (ebx (leaf0 c))) OR ucast (edx (leaf0 c))) s3 = Some s4" "Q s4"
    using mix[OF s3(2)] by blast
  obtain s5 where s5: "entropy_mix (push_bit 32 (ucast (ecx (leaf0 c))) OR ucast (eax (leaf0 c))) s4 = Some s5" "Q s5"
    using mix[OF s4(2)] by blast
  obtain s6 where s6: "entropy_mix (push_bit 32 (ucast (eax (leaf1 c))) OR ucast (edx (leaf1 c))) s5 = Some s6" "Q s6"
    using mix[OF s5(2)] by blast
  obtain s7 where s7: "entropy_mix (second_tsc c) s6 = Some s7" "Q s7" using mix[OF s6(2)] by blast
  obtain r s8 where s8: "entropy_get64 (canary_tsc c) s7 = Some (r, s8)" "Q s8" using get[OF s7(2)] by blast
  define g where "g = (if r = 0 \<or> r = -1 then 0x596f75416c6c6f77 else r)"
  let ?s9 = "s8\<lparr>stack_chk_guard := g\<rparr>"
  have wf9: "sec_wf ?s9" using s8(2) by (simp add: Q_def sec_wf_def)
  define det where "det = Some (str ''security module initialised'')"
  define e where "e = logged (boot_ticks c) 0 0 AUDIT_EXEC det"
  have dt: "\<And>t. det = Some t \<Longrightarrow> terminated t" by (auto simp: det_def str_def)
  let ?s' = "?s9\<lparr>g_audit_ring := (g_audit_ring ?s9)[unat (g_audit_head ?s9) mod 64 := e], g_audit_head := g_audit_head ?s9 + 1\<rparr>"
  have l: "audit_log (boot_ticks c) 0 0 AUDIT_EXEC det ?s9 = Some ?s'"
    using audit_log_ok[OF wf9, where det = det, OF dt] by (simp add: e_def)
  have "audit_holds ?s9 []" using s8(2) by (simp add: Q_def audit_holds_def)
  from audit_holds_log[OF wf9 this, of e] have h': "audit_holds ?s' [e]" by simp
  have wf': "sec_wf ?s'" unfolding e_def by (rule audit_log_wf[OF wf9])
  have "security_init c s = Some ?s'"
    unfolding security_init_def Let_def using s1(1) s2(1) s3(1) s4(1) s5(1) s6(1) s7(1) s8(1) l
    unfolding det_def by (simp only: bind.bind_lunit prod.case g_def[symmetric])
  moreover have "stack_chk_guard ?s' \<noteq> 0" "stack_chk_guard ?s' \<noteq> -1" by (auto simp: g_def)
  moreover have "audit_entries ?s' = [e]" using audit_entries_eq[OF wf' h'] by simp
  moreover have "rl_find (g_rl_table ?s') uid = None" for uid
    using s8(2) by (simp add: Q_def rl_find_def first_idx_None zero_rl_def)
  ultimately show ?thesis using wf' by (auto simp: e_def det_def)
qed

subsection \<open>A concrete state\<close>

definition sec_zero :: security where
  "sec_zero = \<lparr>g_pool = replicate 32 0, g_pool_idx = 0, g_pool_lock = 0, g_audit_ring = replicate 64 zero_audit,
     g_audit_head = 0, g_audit_lock = 0, g_rl_table = replicate 32 zero_rl, g_rl_lock = 0, stack_chk_guard = 0\<rparr>"

lemma sec_zero_wf: "sec_wf sec_zero"
  by (simp add: sec_zero_def sec_wf_def POOL_WORDS_def RATELIMIT_MAX_USERS_def zero_audit_def)

theorem entropy_mix_injective_witness:
  "\<exists>s'. entropy_mix 7 sec_zero = Some s' \<and> (\<forall>y. entropy_mix y sec_zero = Some s' \<longrightarrow> y = 7)"
proof -
  obtain s' where s': "entropy_mix 7 sec_zero = Some s'" using entropy_mix_wf[OF sec_zero_wf] by blast
  have "y = 7" if "entropy_mix y sec_zero = Some s'" for y
    using entropy_mix_injective[OF sec_zero_wf sec_zero_wf refl that s' refl] by simp
  then show ?thesis using s' by blast
qed

theorem audit_dump_last_64_witness:
  "\<exists>s'. audit_run (replicate 65 (1, 2, 3, 5, None)) sec_zero = Some s' \<and>
     audit_dump s' = Some (concat (replicate 64 (dump_entry (logged 1 2 3 5 None))), s')"
  using audit_dump_last_64[OF sec_zero_wf, of "replicate 65 (1, 2, 3, 5, None)"]
  by (simp add: sec_zero_def map_replicate_const)


theorem security_init_correct_witness:
  "\<exists>s'. security_init \<lparr>first_tsc = 1, draws = [], leaf0 = \<lparr>eax = 0, ebx = 0, ecx = 0, edx = 0\<rparr>,
      leaf1 = \<lparr>eax = 0, ebx = 0, ecx = 0, edx = 0\<rparr>, second_tsc = 2, canary_tsc = 3, boot_ticks = 4\<rparr> sec_zero = Some s' \<and>
     stack_chk_guard s' \<noteq> 0"
  using security_init_correct[of sec_zero "\<lparr>first_tsc = 1, draws = [], leaf0 = \<lparr>eax = 0, ebx = 0, ecx = 0, edx = 0\<rparr>,
      leaf1 = \<lparr>eax = 0, ebx = 0, ecx = 0, edx = 0\<rparr>, second_tsc = 2, canary_tsc = 3, boot_ticks = 4\<rparr>"]
  by (auto simp: sec_zero_def)

end
