(* ===== verification/Usr.thy ===== *)
theory Usr
  imports Security
begin

text \<open>
  Users, groups and permissions, \<^verbatim>\<open>kernel/usr/usr.c\<close>: the account tables, salted password hashes,
  the permission check, and the text format in which accounts are stored and loaded.

  The fixed arrays with their counts are the lists of the entries in use. Salts are drawn from
  the entropy pool of the security module, which is part of the state together with the
  readings of the time stamp counter still to come.
\<close>

subsection \<open>Constants and tables\<close>

definition UID_ROOT :: u16 where "UID_ROOT = 0"
definition GID_ROOT :: u16 where "GID_ROOT = 0"
definition GID_WHEEL :: u16 where "GID_WHEEL = 1"
definition GID_USERS :: u16 where "GID_USERS = 100"
definition USR_MAX_USERS :: nat where "USR_MAX_USERS = 64"
definition USR_MAX_GROUPS :: nat where "USR_MAX_GROUPS = 32"
definition USR_NAME_LEN :: nat where "USR_NAME_LEN = 32"
definition USR_HOME_LEN :: nat where "USR_HOME_LEN = 64"
definition USR_SHELL_LEN :: nat where "USR_SHELL_LEN = 64"
definition USR_FLAG_WHEEL :: u32 where "USR_FLAG_WHEEL = 1"
definition USR_FLAG_NOLOGIN :: u32 where "USR_FLAG_NOLOGIN = 2"
definition USR_FLAG_LOCKED :: u32 where "USR_FLAG_LOCKED = 4"

record asd_user =
  uid :: u16
  gid :: u16
  flags :: u32
  pw_hash :: u64
  pw_salt :: u64
  name :: "u8 list"
  home :: "u8 list"
  shell :: "u8 list"
  groups :: u32

record asd_group =
  grp_gid :: u16
  grp_name :: "u8 list"
  member_mask :: u32

record usr_db =
  g_users :: "asd_user list"
  g_groups :: "asd_group list"
  u_sec :: security
  u_tsc :: "u64 list"

subsection \<open>Freestanding helpers\<close>

fun u_strcmp :: "u8 list \<Rightarrow> u8 list \<Rightarrow> int option" where
  "u_strcmp (a # s) (b # t) = (if a \<noteq> 0 \<and> b \<noteq> 0 \<and> a = b then u_strcmp s t else Some (uint a - uint b))"
| "u_strcmp _ _ = None"

text \<open>\<open>strncpy_from d s k\<close> has \<open>k\<close> bytes left before the terminator must be written.\<close>

fun strncpy_from :: "u8 list \<Rightarrow> u8 list \<Rightarrow> nat \<Rightarrow> u8 list option" where
  "strncpy_from [] s k = None"
| "strncpy_from (_ # d) s 0 = Some (0 # d)"
| "strncpy_from (_ # d) [] (Suc k) = None"
| "strncpy_from (_ # d) (c # s) (Suc k) =
     (if c = 0 then Some (0 # d) else map_option (Cons c) (strncpy_from d s k))"

definition u_strncpy :: "u8 list \<Rightarrow> u8 list \<Rightarrow> nat \<Rightarrow> u8 list option" where
  "u_strncpy d s n = (if n = 0 then Some d else strncpy_from d s (n - 1))"

definition u_isspace :: "u8 \<Rightarrow> bool" where
  "u_isspace c \<longleftrightarrow> c = 32 \<or> c = 9 \<or> c = 10 \<or> c = 13"

definition u_isdigit :: "u8 \<Rightarrow> bool" where
  "u_isdigit c \<longleftrightarrow> c \<ge> 48 \<and> c \<le> 57"

fun atou_from :: "u32 \<Rightarrow> u8 list \<Rightarrow> u32 option" where
  "atou_from v [] = None"
| "atou_from v (c # s) = (if u_isdigit c then atou_from (v * 10 + ucast (c - 48)) s else Some v)"

definition u_atou :: "u8 list \<Rightarrow> u32 option" where
  "u_atou s = atou_from 0 s"

subsection \<open>Password hashing\<close>

definition FNV_OFFSET :: u64 where "FNV_OFFSET = 14695981039346656037"
definition FNV_PRIME :: u64 where "FNV_PRIME = 1099511628211"

fun fnv_bytes :: "u64 \<Rightarrow> u8 list \<Rightarrow> u64 option" where
  "fnv_bytes h [] = None"
| "fnv_bytes h (c # s) = (if c = 0 then Some h else fnv_bytes ((h XOR ucast c) * FNV_PRIME) s)"

definition mix_round :: "u64 \<Rightarrow> u64" where
  "mix_round h =
     (let h = h XOR drop_bit 33 h; h = h * 0xff51afd7ed558ccd; h = h XOR drop_bit 33 h;
          h = h * 0xc4ceb9fe1a85ec53
      in h XOR drop_bit 33 h)"

definition pw_hash_salted :: "u8 list option \<Rightarrow> u64 \<Rightarrow> u64 option" where
  "pw_hash_salted pw salt = do {
     let h = (FNV_OFFSET XOR salt) * FNV_PRIME;
     h \<leftarrow> fnv_bytes h (case pw of Some p \<Rightarrow> p | None \<Rightarrow> [0]);
     Some ((mix_round ^^ 1024) h) }"

definition u64_eq_safe :: "u64 \<Rightarrow> u64 \<Rightarrow> int" where
  "u64_eq_safe a b = (if a = b then 1 else 0)"

text \<open>Drawing a salt: \<^verbatim>\<open>entropy_get64\<close> reads the time stamp counter once.\<close>

definition draw_salt :: "usr_db \<Rightarrow> (u64 \<times> usr_db) option" where
  "draw_salt db = do {
     (v, s) \<leftarrow> entropy_get64 (case u_tsc db of [] \<Rightarrow> 0 | t # _ \<Rightarrow> t) (u_sec db);
     Some (v, db\<lparr>u_sec := s, u_tsc := tl (u_tsc db)\<rparr>) }"

subsection \<open>Groups\<close>

definition grp_find_by_gid :: "usr_db \<Rightarrow> u16 \<Rightarrow> nat option" where
  "grp_find_by_gid db g = first_idx (\<lambda>x. grp_gid x = g) (g_groups db)"

text \<open>Lookups by name compare with \<open>u_strcmp\<close>, which faults on an unterminated string.\<close>

fun find_str :: "nat \<Rightarrow> u8 list list \<Rightarrow> u8 list \<Rightarrow> nat option option" where
  "find_str i [] nm = Some None"
| "find_str i (x # xs) nm = do {
     c \<leftarrow> u_strcmp x nm;
     if c = 0 then Some (Some i) else find_str (Suc i) xs nm }"

definition grp_find_by_name :: "usr_db \<Rightarrow> u8 list \<Rightarrow> nat option option" where
  "grp_find_by_name db nm = find_str 0 (map grp_name (g_groups db)) nm"

definition grp_add :: "usr_db \<Rightarrow> u16 \<Rightarrow> u8 list \<Rightarrow> (int \<times> usr_db) option" where
  "grp_add db g nm =
     (if length (g_groups db) \<ge> USR_MAX_GROUPS then Some (-1, db)
      else if grp_find_by_gid db g \<noteq> None then Some (-1, db)
      else do {
        f \<leftarrow> grp_find_by_name db nm;
        if f \<noteq> None then Some (-1, db)
        else do {
          n \<leftarrow> u_strncpy (replicate USR_NAME_LEN 0) nm USR_NAME_LEN;
          Some (0, db\<lparr>g_groups := g_groups db @ [\<lparr>grp_gid = g, grp_name = n, member_mask = 0\<rparr>]\<rparr>)
        } })"

subsection \<open>Users\<close>

definition usr_find_by_uid :: "usr_db \<Rightarrow> u16 \<Rightarrow> nat option" where
  "usr_find_by_uid db u = first_idx (\<lambda>x. uid x = u) (g_users db)"

definition usr_find_by_name :: "usr_db \<Rightarrow> u8 list \<Rightarrow> nat option option" where
  "usr_find_by_name db nm = find_str 0 (map name (g_users db)) nm"

definition upd_user :: "nat \<Rightarrow> (asd_user \<Rightarrow> asd_user) \<Rightarrow> usr_db \<Rightarrow> usr_db" where
  "upd_user i f db = db\<lparr>g_users := (g_users db)[i := f (g_users db ! i)]\<rparr>"

definition upd_group :: "nat \<Rightarrow> (asd_group \<Rightarrow> asd_group) \<Rightarrow> usr_db \<Rightarrow> usr_db" where
  "upd_group i f db = db\<lparr>g_groups := (g_groups db)[i := f (g_groups db ! i)]\<rparr>"

definition set_member :: "u16 \<Rightarrow> u16 \<Rightarrow> usr_db \<Rightarrow> usr_db" where
  "set_member g u db =
     (case grp_find_by_gid db g of
        None \<Rightarrow> db
      | Some i \<Rightarrow> upd_group i (\<lambda>x. x\<lparr>member_mask := member_mask x OR push_bit (unat u) 1\<rparr>) db)"

definition new_groups :: "u16 \<Rightarrow> u32 \<Rightarrow> u32" where
  "new_groups g fl =
     (let m = (if unat g < USR_MAX_GROUPS then push_bit (unat g) 1 else 0)
      in if fl AND USR_FLAG_WHEEL \<noteq> 0 then m OR push_bit (unat GID_WHEEL) 1 else m)"

definition usr_add ::
  "usr_db \<Rightarrow> u16 \<Rightarrow> u16 \<Rightarrow> u8 list option \<Rightarrow> u8 list option \<Rightarrow> u32 \<Rightarrow> u8 list option \<Rightarrow> u8 list option \<Rightarrow>
   (int \<times> usr_db) option" where
  "usr_add db u g nm pw fl hm sh =
     (if length (g_users db) \<ge> USR_MAX_USERS then Some (-1, db)
      else if usr_find_by_uid db u \<noteq> None then Some (-1, db)
      else
        (case nm of
           None \<Rightarrow> if g_users db = [] then Some (-1, db) else None
         | Some nm \<Rightarrow> do {
             f \<leftarrow> usr_find_by_name db nm;
             if f \<noteq> None then Some (-1, db)
             else if nm = [] then None
             else if hd nm = 0 then Some (-1, db)
             else do {
               (salt, db) \<leftarrow> draw_salt db;
               h \<leftarrow> pw_hash_salted (Some (case pw of Some p \<Rightarrow> p | None \<Rightarrow> [0])) salt;
               n \<leftarrow> u_strncpy (replicate USR_NAME_LEN 0) nm USR_NAME_LEN;
               d \<leftarrow> u_strncpy (replicate USR_HOME_LEN 0) (case hm of Some x \<Rightarrow> x | None \<Rightarrow> str ''/'') USR_HOME_LEN;
               e \<leftarrow> u_strncpy (replicate USR_SHELL_LEN 0)
                     (case sh of Some x \<Rightarrow> x | None \<Rightarrow> str ''/bin/asdsh'') USR_SHELL_LEN;
               let db = db\<lparr>g_users := g_users db @ [\<lparr>uid = u, gid = g, flags = fl, pw_hash = h, pw_salt = salt,
                                name = n, home = d, shell = e, groups = new_groups g fl\<rparr>]\<rparr>;
               let db = (if u < 32 then
                           let db = set_member g u db
                           in if fl AND USR_FLAG_WHEEL \<noteq> 0 then set_member GID_WHEEL u db else db
                         else db);
               Some (0, db)
             } }))"

definition usr_add_to_group :: "usr_db \<Rightarrow> u16 \<Rightarrow> u16 \<Rightarrow> int \<times> usr_db" where
  "usr_add_to_group db u g =
     (case usr_find_by_uid db u of
        None \<Rightarrow> (-1, db)
      | Some i \<Rightarrow>
          let db = (if unat g < USR_MAX_GROUPS
                    then upd_user i (\<lambda>x. x\<lparr>groups := groups x OR push_bit (unat g) 1\<rparr>) db else db)
          in (0, if u < 32 then set_member g u db else db))"

definition usr_remove_from_group :: "usr_db \<Rightarrow> u16 \<Rightarrow> u16 \<Rightarrow> int \<times> usr_db" where
  "usr_remove_from_group db u g =
     (case usr_find_by_uid db u of
        None \<Rightarrow> (-1, db)
      | Some i \<Rightarrow>
          let db = (if unat g < USR_MAX_GROUPS
                    then upd_user i (\<lambda>x. x\<lparr>groups := groups x AND NOT (push_bit (unat g) 1)\<rparr>) db else db)
          in (0, case grp_find_by_gid db g of
                   None \<Rightarrow> db
                 | Some j \<Rightarrow> if u < 32
                     then upd_group j (\<lambda>x. x\<lparr>member_mask := member_mask x AND NOT (push_bit (unat u) 1)\<rparr>) db
                     else db))"

definition usr_is_wheel :: "usr_db \<Rightarrow> u16 \<Rightarrow> int" where
  "usr_is_wheel db u =
     (if u = UID_ROOT then 1
      else case usr_find_by_uid db u of
             None \<Rightarrow> 0
           | Some i \<Rightarrow> if flags (g_users db ! i) AND USR_FLAG_WHEEL \<noteq> 0 then 1 else 0)"

definition usr_check_password :: "usr_db \<Rightarrow> u16 \<Rightarrow> u8 list option \<Rightarrow> int option" where
  "usr_check_password db u pw =
     (case usr_find_by_uid db u of
        None \<Rightarrow> Some 0
      | Some i \<Rightarrow>
          let x = g_users db ! i in
          if flags x AND USR_FLAG_LOCKED \<noteq> 0 then Some 0
          else if flags x AND USR_FLAG_NOLOGIN \<noteq> 0 then Some 0
          else if pw_hash x = 0 then
            (case pw of None \<Rightarrow> Some 1 | Some [] \<Rightarrow> None | Some (c # _) \<Rightarrow> Some (if c = 0 then 1 else 0))
          else map_option (u64_eq_safe (pw_hash x)) (pw_hash_salted pw (pw_salt x)))"

definition usr_set_password :: "usr_db \<Rightarrow> u16 \<Rightarrow> u8 list option \<Rightarrow> (int \<times> usr_db) option" where
  "usr_set_password db u pw =
     (case usr_find_by_uid db u of
        None \<Rightarrow> Some (-1, db)
      | Some i \<Rightarrow> do {
          (salt, db) \<leftarrow> draw_salt db;
          h \<leftarrow> pw_hash_salted pw salt;
          Some (0, upd_user i (\<lambda>x. x\<lparr>pw_salt := salt, pw_hash := h\<rparr>) db) })"

definition usr_count :: "usr_db \<Rightarrow> u32" where "usr_count db = of_nat (length (g_users db))"

definition usr_get :: "usr_db \<Rightarrow> u32 \<Rightarrow> asd_user option" where
  "usr_get db i = (if i \<ge> usr_count db then None else Some (g_users db ! unat i))"

definition grp_count :: "usr_db \<Rightarrow> u32" where "grp_count db = of_nat (length (g_groups db))"

definition grp_get :: "usr_db \<Rightarrow> u32 \<Rightarrow> asd_group option" where
  "grp_get db i = (if i \<ge> grp_count db then None else Some (g_groups db ! unat i))"

subsection \<open>Permissions\<close>

definition USR_MODE_RUSR :: u16 where "USR_MODE_RUSR = 0x100"
definition USR_MODE_WUSR :: u16 where "USR_MODE_WUSR = 0x80"
definition USR_MODE_XUSR :: u16 where "USR_MODE_XUSR = 0x40"
definition USR_MODE_RGRP :: u16 where "USR_MODE_RGRP = 0x20"
definition USR_MODE_WGRP :: u16 where "USR_MODE_WGRP = 0x10"
definition USR_MODE_XGRP :: u16 where "USR_MODE_XGRP = 0x8"
definition USR_MODE_ROTH :: u16 where "USR_MODE_ROTH = 0x4"
definition USR_MODE_WOTH :: u16 where "USR_MODE_WOTH = 0x2"
definition USR_MODE_XOTH :: u16 where "USR_MODE_XOTH = 0x1"
definition USR_ACCESS_READ :: int where "USR_ACCESS_READ = 1"
definition USR_ACCESS_WRITE :: int where "USR_ACCESS_WRITE = 2"
definition USR_ACCESS_EXEC :: int where "USR_ACCESS_EXEC = 4"

definition need_bits :: "u16 \<Rightarrow> u16 \<Rightarrow> u16 \<Rightarrow> int \<Rightarrow> u16" where
  "need_bits r w x acc =
     (let n = (0 :: u16);
          n = (if acc AND USR_ACCESS_READ \<noteq> 0 then n OR r else n);
          n = (if acc AND USR_ACCESS_WRITE \<noteq> 0 then n OR w else n)
      in if acc AND USR_ACCESS_EXEC \<noteq> 0 then n OR x else n)"

definition usr_check_perm :: "u16 \<Rightarrow> u16 \<Rightarrow> u32 \<Rightarrow> u16 \<Rightarrow> u16 \<Rightarrow> u16 \<Rightarrow> int \<Rightarrow> int" where
  "usr_check_perm u g grps file_uid file_gid file_mode acc =
     (if u = UID_ROOT then 0
      else
        let need =
          (if u = file_uid then need_bits USR_MODE_RUSR USR_MODE_WUSR USR_MODE_XUSR acc
           else if g = file_gid \<or> unat file_gid < USR_MAX_GROUPS \<and> grps AND push_bit (unat file_gid) 1 \<noteq> 0
           then need_bits USR_MODE_RGRP USR_MODE_WGRP USR_MODE_XGRP acc
           else need_bits USR_MODE_ROTH USR_MODE_WOTH USR_MODE_XOTH acc)
        in if file_mode AND need = need then 0 else -1)"

subsection \<open>Initialisation\<close>

definition usr_init :: "usr_db \<Rightarrow> usr_db option" where
  "usr_init db = do {
     let db = db\<lparr>g_users := [], g_groups := []\<rparr>;
     (_, db) \<leftarrow> grp_add db GID_ROOT (str ''root'');
     (_, db) \<leftarrow> grp_add db GID_WHEEL (str ''wheel'');
     (_, db) \<leftarrow> grp_add db GID_USERS (str ''users'');
     (_, db) \<leftarrow> usr_add db UID_ROOT GID_ROOT (Some (str ''root'')) (Some [0]) 0
                (Some (str ''/root'')) (Some (str ''/bin/asdsh''));
     Some (case usr_find_by_uid db UID_ROOT of
             None \<Rightarrow> db
           | Some i \<Rightarrow> upd_user i (\<lambda>x. x\<lparr>pw_hash := 0, pw_salt := 0\<rparr>) db) }"

end
