(* ===== verification/Usr_Passwd.thy ===== *)
theory Usr_Passwd
  imports Usr
begin

text \<open>
  The account file: the parsers \<^verbatim>\<open>usr_load_passwd\<close> and \<^verbatim>\<open>usr_load_group\<close> and the printer
  \<^verbatim>\<open>usr_write_passwd\<close> of \<^verbatim>\<open>kernel/usr/usr.c\<close>.

  A \<^verbatim>\<open>const char *\<close> that walks through the text is the rest of the text from there on; reading
  past its end is a fault. A token is the characters stored before the terminator.
\<close>

subsection \<open>Scanning\<close>

fun skip_ws :: "u8 list \<Rightarrow> u8 list option" where
  "skip_ws [] = None"
| "skip_ws (c # p) = (if c \<noteq> 0 \<and> u_isspace c \<and> c \<noteq> 10 then skip_ws p else Some (c # p))"

fun tok_loop :: "u8 list \<Rightarrow> nat \<Rightarrow> (u8 list \<times> u8 list) option" where
  "tok_loop [] k = None"
| "tok_loop (c # p) 0 = Some ([], c # p)"
| "tok_loop (c # p) (Suc k) =
     (if c \<noteq> 0 \<and> \<not> u_isspace c then map_option (map_prod (Cons c) id) (tok_loop p k)
      else Some ([], c # p))"

definition read_tok :: "u8 list \<Rightarrow> nat \<Rightarrow> (u8 list \<times> u8 list) option" where
  "read_tok p out_sz = Option.bind (skip_ws p) (\<lambda>p. tok_loop p (out_sz - 1))"

fun next_line :: "u8 list \<Rightarrow> u8 list option" where
  "next_line [] = None"
| "next_line (c # p) = (if c \<noteq> 0 \<and> c \<noteq> 10 then next_line p else if c = 10 then Some p else Some (c # p))"

definition is_hex_digit :: "u8 \<Rightarrow> bool" where
  "is_hex_digit c \<longleftrightarrow> 48 \<le> c \<and> c \<le> 57 \<or> 97 \<le> c \<and> c \<le> 102 \<or> 65 \<le> c \<and> c \<le> 70"

fun hex_run :: "nat \<Rightarrow> u8 list \<Rightarrow> bool option" where
  "hex_run 0 s = Some True"
| "hex_run (Suc i) [] = None"
| "hex_run (Suc i) (c # s) = (if is_hex_digit c then hex_run i s else Some False)"

definition is_hex64 :: "u8 list \<Rightarrow> bool option" where
  "is_hex64 s = hex_run 16 s"

definition nibble :: "u8 \<Rightarrow> u8 option" where
  "nibble c = (if 48 \<le> c \<and> c \<le> 57 then Some (c - 48)
               else if 97 \<le> c \<and> c \<le> 102 then Some (c - 97 + 10)
               else if 65 \<le> c \<and> c \<le> 70 then Some (c - 65 + 10) else None)"

fun parse_hex_from :: "nat \<Rightarrow> u64 \<Rightarrow> u8 list \<Rightarrow> u64 option" where
  "parse_hex_from 0 v s = Some v"
| "parse_hex_from (Suc i) v [] = None"
| "parse_hex_from (Suc i) v (c # s) =
     (if c = 0 then Some v
      else case nibble c of None \<Rightarrow> Some v | Some n \<Rightarrow> parse_hex_from i (push_bit 4 v OR ucast n) s)"

definition parse_hex64 :: "u8 list \<Rightarrow> u64 option" where
  "parse_hex64 s = parse_hex_from 16 0 s"

subsection \<open>Loading\<close>

definition flag_value :: "u8 list \<Rightarrow> u32 option" where
  "flag_value s = do {
     a \<leftarrow> u_strcmp s (str ''wheel'');
     b \<leftarrow> u_strcmp s (str ''nologin'');
     c \<leftarrow> u_strcmp s (str ''locked'');
     let f = (0 :: u32);
     let f = (if a = 0 then f OR USR_FLAG_WHEEL else f);
     let f = (if b = 0 then f OR USR_FLAG_NOLOGIN else f);
     Some (if c = 0 then f OR USR_FLAG_LOCKED else f) }"

text \<open>The body of the loop after the fields of a line were read; the tokens are terminated buffers.\<close>

definition load_user ::
  "usr_db \<Rightarrow> u8 list \<Rightarrow> u8 list \<Rightarrow> u8 list \<Rightarrow> u8 list \<Rightarrow> u8 list \<Rightarrow> u8 list \<Rightarrow> u8 list \<Rightarrow> u8 list \<Rightarrow> usr_db option" where
  "load_user db nm uid_s gid_s flags_s hm sh salt_s hash_s = do {
     uv \<leftarrow> u_atou uid_s;
     gv \<leftarrow> u_atou gid_s;
     let u = (ucast uv :: u16);
     let g = (ucast gv :: u16);
     fl \<leftarrow> flag_value flags_s;
     db \<leftarrow> (if grp_find_by_gid db g = None then map_option snd (grp_add db g (str ''unknown'')) else Some db);
     db \<leftarrow> (if usr_find_by_uid db u \<noteq> None then Some db
           else do {
             f \<leftarrow> usr_find_by_name db nm;
             if f \<noteq> None then Some db
             else map_option snd (usr_add db u g (Some nm) (Some [0]) fl
                    (if hd hm \<noteq> 0 then Some hm else None) (if hd sh \<noteq> 0 then Some sh else None)) });
     (case usr_find_by_uid db u of
        None \<Rightarrow> Some db
      | Some i \<Rightarrow> do {
          a \<leftarrow> is_hex64 salt_s;
          db \<leftarrow> (if a then map_option (\<lambda>v. upd_user i (\<lambda>x. x\<lparr>pw_salt := v\<rparr>) db) (parse_hex64 salt_s) else Some db);
          b \<leftarrow> is_hex64 hash_s;
          (if b then map_option (\<lambda>v. upd_user i (\<lambda>x. x\<lparr>pw_hash := v\<rparr>) db) (parse_hex64 hash_s) else Some db) })
   }"

text \<open>\<open>beyond\<close> is how much of the text lies past \<^verbatim>\<open>end\<close>: the pointer is before it while more is left.\<close>

partial_function (option) load_users :: "nat \<Rightarrow> usr_db \<Rightarrow> u8 list \<Rightarrow> int \<Rightarrow> (int \<times> usr_db) option" where
  "load_users beyond db p loaded =
     (if length p \<le> beyond \<or> hd p = 0 \<or> loaded \<ge> int USR_MAX_USERS then Some (loaded, db)
      else do {
        p \<leftarrow> skip_ws p;
        if hd p = 35 \<or> hd p = 10 \<or> hd p = 0 then do {
          p \<leftarrow> next_line p;
          load_users beyond db p loaded
        } else do {
          (nm, p) \<leftarrow> read_tok p USR_NAME_LEN;
          (uid_s, p) \<leftarrow> read_tok p 16;
          (gid_s, p) \<leftarrow> read_tok p 16;
          (flags_s, p) \<leftarrow> read_tok p 32;
          (hm, p) \<leftarrow> read_tok p USR_HOME_LEN;
          (sh, p) \<leftarrow> read_tok p USR_SHELL_LEN;
          (salt_s, p) \<leftarrow> read_tok p 20;
          (hash_s, p) \<leftarrow> read_tok p 20;
          if nm = [] \<or> uid_s = [] \<or> gid_s = [] then do {
            p \<leftarrow> next_line p;
            load_users beyond db p loaded
          } else do {
            db \<leftarrow> load_user db (nm @ [0]) (uid_s @ [0]) (gid_s @ [0]) (flags_s @ [0]) (hm @ [0]) (sh @ [0])
                   (salt_s @ [0]) (hash_s @ [0]);
            p \<leftarrow> next_line p;
            load_users beyond db p (loaded + 1)
          }
        }
      })"

definition usr_load_passwd :: "usr_db \<Rightarrow> u8 list option \<Rightarrow> u64 \<Rightarrow> (int \<times> usr_db) option" where
  "usr_load_passwd db buf len =
     (case buf of
        None \<Rightarrow> Some (-1, db)
      | Some b \<Rightarrow> if len = 0 then Some (-1, db) else load_users (length b - unat len) db b 0)"

partial_function (option) load_groups :: "nat \<Rightarrow> usr_db \<Rightarrow> u8 list \<Rightarrow> int \<Rightarrow> (int \<times> usr_db) option" where
  "load_groups beyond db p loaded =
     (if length p \<le> beyond \<or> hd p = 0 then Some (loaded, db)
      else do {
        p \<leftarrow> skip_ws p;
        if hd p = 35 \<or> hd p = 10 \<or> hd p = 0 then do {
          p \<leftarrow> next_line p;
          load_groups beyond db p loaded
        } else do {
          (nm, p) \<leftarrow> read_tok p USR_NAME_LEN;
          (gid_s, p) \<leftarrow> read_tok p 16;
          p \<leftarrow> next_line p;
          if nm = [] \<or> gid_s = [] then load_groups beyond db p loaded
          else do {
            gv \<leftarrow> u_atou (gid_s @ [0]);
            db \<leftarrow> (if grp_find_by_gid db (ucast gv) = None
                  then map_option snd (grp_add db (ucast gv) (nm @ [0])) else Some db);
            load_groups beyond db p (loaded + 1)
          }
        }
      })"

definition usr_load_group :: "usr_db \<Rightarrow> u8 list option \<Rightarrow> u64 \<Rightarrow> (int \<times> usr_db) option" where
  "usr_load_group db buf len =
     (case buf of
        None \<Rightarrow> Some (-1, db)
      | Some b \<Rightarrow> if len = 0 then Some (-1, db) else load_groups (length b - unat len) db b 0)"

declare load_users.simps [code]
declare load_groups.simps [code]

subsection \<open>Writing\<close>

definition hex_digits :: "u8 list" where
  "hex_digits = map of_char ''0123456789abcdef''"

fun hex_loop :: "nat \<Rightarrow> u64 \<Rightarrow> u8 list \<Rightarrow> u8 list" where
  "hex_loop 0 v acc = acc"
| "hex_loop (Suc i) v acc = hex_loop i (drop_bit 4 v) (hex_digits ! unat (v AND 0xF) # acc)"

definition fmt_hex64 :: "u64 \<Rightarrow> u8 list" where
  "fmt_hex64 v = hex_loop 16 v [] @ [0]"

function dec_loop :: "u32 \<Rightarrow> u8 list \<Rightarrow> u8 list" where
  "dec_loop v tmp = (if v = 0 then tmp else dec_loop (v div 10) ((48 + ucast (v mod 10)) # tmp))"
  by auto
termination
  by (relation "measure (\<lambda>(v, _). unat v)") (auto simp: unat_div word_unat_eq_iff)

declare dec_loop.simps [simp del]

definition fmt_dec :: "u32 \<Rightarrow> u8 list" where
  "fmt_dec v = (if v = 0 then [48, 0] else dec_loop v [0])"

text \<open>
  Output at \<open>pos\<close>: \<open>put_str\<close> copies a string while \<open>pos < lim\<close>, \<open>put_char\<close> stores without a check.
  A store outside the buffer is a fault.
\<close>

type_synonym out = "u8 list \<times> nat"

definition put_char :: "u8 \<Rightarrow> out \<Rightarrow> out option" where
  "put_char c o1 = (if snd o1 < length (fst o1) then Some ((fst o1)[snd o1 := c], Suc (snd o1)) else None)"

fun put_str :: "nat \<Rightarrow> u8 list \<Rightarrow> out \<Rightarrow> out option" where
  "put_str lim [] o1 = None"
| "put_str lim (c # s) o1 =
     (if c \<noteq> 0 \<and> snd o1 < lim then Option.bind (put_char c o1) (put_str lim s) else Some o1)"

definition flag_text :: "u32 \<Rightarrow> u8 list" where
  "flag_text f =
     (if f AND USR_FLAG_WHEEL \<noteq> 0 then str ''wheel''
      else if f AND USR_FLAG_NOLOGIN \<noteq> 0 then str ''nologin''
      else if f AND USR_FLAG_LOCKED \<noteq> 0 then str ''locked'' else str ''-'')"

definition write_user :: "nat \<Rightarrow> asd_user \<Rightarrow> out \<Rightarrow> out option" where
  "write_user buf_sz u o1 = do {
     let lim = buf_sz - 2;
     o1 \<leftarrow> put_str lim (name u) o1;
     o1 \<leftarrow> put_char 32 o1;
     o1 \<leftarrow> put_str lim (fmt_dec (ucast (uid u))) o1;
     o1 \<leftarrow> put_char 32 o1;
     o1 \<leftarrow> put_str lim (fmt_dec (ucast (gid u))) o1;
     o1 \<leftarrow> put_char 32 o1;
     o1 \<leftarrow> put_str lim (flag_text (flags u)) o1;
     o1 \<leftarrow> put_char 32 o1;
     o1 \<leftarrow> put_str lim (home u) o1;
     o1 \<leftarrow> put_char 32 o1;
     o1 \<leftarrow> put_str lim (shell u) o1;
     o1 \<leftarrow> put_char 32 o1;
     o1 \<leftarrow> put_str lim (fmt_hex64 (pw_salt u)) o1;
     o1 \<leftarrow> put_char 32 o1;
     o1 \<leftarrow> put_str lim (fmt_hex64 (pw_hash u)) o1;
     if snd o1 < buf_sz - 1 then put_char 10 o1 else Some o1 }"

fun write_users :: "nat \<Rightarrow> asd_user list \<Rightarrow> out \<Rightarrow> out option" where
  "write_users buf_sz [] o1 = Some o1"
| "write_users buf_sz (u # us) o1 = Option.bind (write_user buf_sz u o1) (write_users buf_sz us)"

definition usr_write_passwd :: "usr_db \<Rightarrow> u8 list option \<Rightarrow> nat \<Rightarrow> (int \<times> u8 list option) option" where
  "usr_write_passwd db buf buf_sz =
     (case buf of
        None \<Rightarrow> Some (-1, None)
      | Some b \<Rightarrow>
          if buf_sz < 8 then Some (-1, Some b)
          else do {
            o1 \<leftarrow> put_str (buf_sz - 1) (str (''#ASDPW1'' @ [CHR 0x0A])) (b, 0);
            o1 \<leftarrow> write_users buf_sz (g_users db) o1;
            o2 \<leftarrow> put_char 0 o1;
            Some (int (snd o1), Some (fst o2)) })"

end
