(* ===== verification/Usr_Accounts.thy ===== *)
theory Usr_Accounts
  imports Usr Security_Props
begin

text \<open>
  Correctness of the account tables: lookups are exact, adding a user keeps user ids and names
  unique, a password is accepted exactly when its FNV-1a value is the stored one, and the
  permission check is the usual owner, group, others rule.
\<close>

subsection \<open>Strings\<close>

lemma u_strcmp_terminated:
  "terminated a \<Longrightarrow> terminated b \<Longrightarrow> \<exists>r. u_strcmp a b = Some r \<and> (r = 0 \<longleftrightarrow> cstr a = cstr b)"
proof (induction a b rule: u_strcmp.induct)
  case (1 a s b t)
  then show ?case by auto
qed auto

lemma strncpy_from_eq:
  "terminated s \<Longrightarrow> k < length d \<Longrightarrow>
     strncpy_from d s k = Some (take k (cstr s) @ 0 # drop (Suc (min k (length (cstr s)))) d)"
  by (induction d s k rule: strncpy_from.induct) auto

lemma u_strncpy_ok:
  assumes "terminated s" and "length d = n" and "0 < n"
  shows "\<exists>d'. u_strncpy d s n = Some d' \<and> length d' = n \<and> terminated d' \<and> cstr d' = take (n - 1) (cstr s)"
proof -
  let ?d = "take (n - 1) (cstr s) @ 0 # drop (Suc (min (n - 1) (length (cstr s)))) d"
  have "u_strncpy d s n = Some ?d" using assms by (simp add: u_strncpy_def strncpy_from_eq)
  moreover have "0 \<notin> set (take (n - 1) (cstr s))" using cstr_nonzero by (meson in_set_takeD)
  then have "cstr ?d = take (n - 1) (cstr s)" by (rule cstr_of_literal)
  ultimately show ?thesis using assms by auto
qed

lemma find_str_eq:
  assumes "terminated nm" and "\<forall>x\<in>set xs. terminated x"
  shows "find_str k xs nm = Some (map_option ((+) k) (first_idx (\<lambda>x. cstr x = cstr nm) xs))"
  using assms(2)
proof (induction xs arbitrary: k)
  case (Cons x xs)
  obtain r where r: "u_strcmp x nm = Some r" "r = 0 \<longleftrightarrow> cstr x = cstr nm"
    using u_strcmp_terminated[of x nm] Cons.prems assms(1) by auto
  then show ?case
    using Cons by (cases "first_idx (\<lambda>x. cstr x = cstr nm) xs") auto
qed simp

lemma first_idx_map: "first_idx P (map f xs) = first_idx (\<lambda>x. P (f x)) xs"
  by (induction xs) auto

subsection \<open>The invariant\<close>

definition user_ok :: "asd_user \<Rightarrow> bool" where
  "user_ok u \<longleftrightarrow> length (name u) = 32 \<and> terminated (name u) \<and> length (home u) = 64 \<and> terminated (home u) \<and>
     length (shell u) = 64 \<and> terminated (shell u)"

definition group_ok :: "asd_group \<Rightarrow> bool" where
  "group_ok g \<longleftrightarrow> length (grp_name g) = 32 \<and> terminated (grp_name g)"

definition usr_ok :: "usr_db \<Rightarrow> bool" where
  "usr_ok db \<longleftrightarrow> length (g_users db) \<le> 64 \<and> (\<forall>u\<in>set (g_users db). user_ok u) \<and>
     distinct (map uid (g_users db)) \<and> distinct (map (\<lambda>u. cstr (name u)) (g_users db)) \<and>
     length (g_groups db) \<le> 32 \<and> (\<forall>g\<in>set (g_groups db). group_ok g) \<and>
     distinct (map grp_gid (g_groups db)) \<and> sec_wf (u_sec db)"

lemma usr_okD:
  assumes "usr_ok db"
  shows "length (g_users db) \<le> 64" "\<And>u. u \<in> set (g_users db) \<Longrightarrow> user_ok u" "distinct (map uid (g_users db))"
    "distinct (map (\<lambda>u. cstr (name u)) (g_users db))" "length (g_groups db) \<le> 32"
    "\<And>g. g \<in> set (g_groups db) \<Longrightarrow> group_ok g" "distinct (map grp_gid (g_groups db))" "sec_wf (u_sec db)"
  using assms by (simp_all add: usr_ok_def)

lemma usr_find_by_name_eq:
  "usr_ok db \<Longrightarrow> terminated nm \<Longrightarrow>
     usr_find_by_name db nm = Some (first_idx (\<lambda>u. cstr (name u) = cstr nm) (g_users db))"
proof -
  assume a: "usr_ok db" "terminated nm"
  have "\<forall>x\<in>set (map name (g_users db)). terminated x" using usr_okD(2)[OF a(1)] by (auto simp: user_ok_def)
  from find_str_eq[OF a(2) this, of 0] show ?thesis
    by (cases "first_idx (\<lambda>u. cstr (name u) = cstr nm) (g_users db)")
      (simp_all add: usr_find_by_name_def first_idx_map)
qed

lemma grp_find_by_name_eq:
  "usr_ok db \<Longrightarrow> terminated nm \<Longrightarrow>
     grp_find_by_name db nm = Some (first_idx (\<lambda>g. cstr (grp_name g) = cstr nm) (g_groups db))"
proof -
  assume a: "usr_ok db" "terminated nm"
  have "\<forall>x\<in>set (map grp_name (g_groups db)). terminated x" using usr_okD(6)[OF a(1)] by (auto simp: group_ok_def)
  from find_str_eq[OF a(2) this, of 0] show ?thesis
    by (cases "first_idx (\<lambda>g. cstr (grp_name g) = cstr nm) (g_groups db)")
      (simp_all add: grp_find_by_name_def first_idx_map)
qed

text \<open>Lookup by user id is exact because user ids are unique.\<close>

lemma usr_find_by_uid_Some:
  "usr_ok db \<Longrightarrow> usr_find_by_uid db u = Some i \<longleftrightarrow> i < length (g_users db) \<and> uid (g_users db ! i) = u"
proof
  assume "usr_find_by_uid db u = Some i"
  then show "i < length (g_users db) \<and> uid (g_users db ! i) = u" by (simp add: usr_find_by_uid_def first_idx_Some)
next
  assume ok: "usr_ok db" and i: "i < length (g_users db) \<and> uid (g_users db ! i) = u"
  show "usr_find_by_uid db u = Some i"
    unfolding usr_find_by_uid_def
  proof (rule first_idx_unique)
    fix j
    assume "j < length (g_users db)" "uid (g_users db ! j) = u"
    then show "j = i" using usr_okD(3)[OF ok] i by (auto simp: distinct_conv_nth)
  qed (use i in auto)
qed

lemma usr_find_by_uid_None: "usr_find_by_uid db u = None \<longleftrightarrow> u \<notin> uid ` set (g_users db)"
  by (auto simp: usr_find_by_uid_def first_idx_None)

lemma usr_ok_groups:
  assumes "usr_ok db" and "length gs = length (g_groups db)"
    and "map grp_gid gs = map grp_gid (g_groups db)" "map grp_name gs = map grp_name (g_groups db)"
  shows "usr_ok (db\<lparr>g_groups := gs\<rparr>)"
proof -
  have "group_ok g" if g: "g \<in> set gs" for g
  proof -
    obtain i where i: "i < length gs" "g = gs ! i" using g by (auto simp: in_set_conv_nth)
    then have "grp_name g = grp_name (g_groups db ! i)"
      using assms(2) arg_cong[OF assms(4), of "\<lambda>l. l ! i"] by simp
    moreover have "group_ok (g_groups db ! i)" using usr_okD(6)[OF assms(1)] i assms(2) by simp
    ultimately show ?thesis by (simp add: group_ok_def)
  qed
  then show ?thesis using assms by (simp add: usr_ok_def)
qed

lemma map_upd_same: "i < length xs \<Longrightarrow> f x = f (xs ! i) \<Longrightarrow> map f (xs[i := x]) = map f xs"
  by (simp add: map_update list_update_same_conv)

lemma set_member_props:
  assumes "usr_ok db"
  shows "usr_ok (set_member g u db)" "g_users (set_member g u db) = g_users db"
    "u_sec (set_member g u db) = u_sec db" "u_tsc (set_member g u db) = u_tsc db"
    "map grp_gid (g_groups (set_member g u db)) = map grp_gid (g_groups db)"
proof -
  show "usr_ok (set_member g u db)"
  proof (cases "grp_find_by_gid db g")
    case None
    then show ?thesis using assms by (simp add: set_member_def)
  next
    case (Some i)
    then have "i < length (g_groups db)" by (simp add: grp_find_by_gid_def first_idx_bound)
    then show ?thesis
      using Some assms unfolding set_member_def upd_group_def
      by (simp, intro usr_ok_groups) (simp_all add: map_upd_same)
  qed
  show "g_users (set_member g u db) = g_users db" "u_sec (set_member g u db) = u_sec db"
    "u_tsc (set_member g u db) = u_tsc db"
    by (simp_all add: set_member_def upd_group_def split: option.splits)
  show "map grp_gid (g_groups (set_member g u db)) = map grp_gid (g_groups db)"
    by (auto simp: set_member_def upd_group_def grp_find_by_gid_def first_idx_bound map_upd_same split: option.splits)
qed

lemma draw_salt_ok:
  assumes "usr_ok db"
  shows "\<exists>v s. draw_salt db = Some (v, db\<lparr>u_sec := s, u_tsc := tl (u_tsc db)\<rparr>) \<and> sec_wf s"
proof -
  obtain v s where "entropy_get64 (case u_tsc db of [] \<Rightarrow> 0 | t # _ \<Rightarrow> t) (u_sec db) = Some (v, s)" "sec_wf s"
    using entropy_get64_wf[OF usr_okD(8)[OF assms]] by blast
  then show ?thesis by (auto simp: draw_salt_def)
qed

lemma fnv_bytes_total: "terminated p \<Longrightarrow> fnv_bytes h p = Some (foldl (\<lambda>h c. (h XOR ucast c) * FNV_PRIME) h (cstr p))"
  by (induction p arbitrary: h) auto

subsection \<open>Adding a user\<close>

lemma usr_ok_sec: "usr_ok db \<Longrightarrow> sec_wf s \<Longrightarrow> usr_ok (db\<lparr>u_sec := s, u_tsc := t\<rparr>)"
  by (simp add: usr_ok_def)

lemma pw_hash_total: "(\<And>p. pw = Some p \<Longrightarrow> terminated p) \<Longrightarrow> \<exists>h. pw_hash_salted pw salt = Some h"
  by (cases pw) (simp_all add: pw_hash_salted_def fnv_bytes_total)

lemma terminated_str' [simp]: "terminated (str s)"
  by (simp add: str_def)

definition same_account :: "asd_user \<Rightarrow> u16 \<Rightarrow> u16 \<Rightarrow> u32 \<Rightarrow> u8 list \<Rightarrow> u8 list \<Rightarrow> u8 list \<Rightarrow> bool" where
  "same_account x u g fl nm hm sh \<longleftrightarrow> uid x = u \<and> gid x = g \<and> flags x = fl \<and> cstr (name x) = take 31 (cstr nm) \<and>
     cstr (home x) = take 63 (cstr hm) \<and> cstr (shell x) = take 63 (cstr sh) \<and> groups x = new_groups g fl"

lemma usr_add_ok:
  assumes ok: "usr_ok db" and nm: "terminated nm" "length (cstr nm) < 32"
    and pw: "\<And>p. pw = Some p \<Longrightarrow> terminated p" and hm: "\<And>p. hm = Some p \<Longrightarrow> terminated p"
    and sh: "\<And>p. sh = Some p \<Longrightarrow> terminated p"
  shows "\<exists>rc db'. usr_add db u g (Some nm) pw fl hm sh = Some (rc, db') \<and> usr_ok db' \<and>
    (if length (g_users db) = 64 \<or> u \<in> uid ` set (g_users db) \<or>
        cstr nm \<in> (\<lambda>x. cstr (name x)) ` set (g_users db) \<or> cstr nm = []
     then rc = -1 \<and> db' = db
     else rc = 0 \<and> (\<exists>x. g_users db' = g_users db @ [x] \<and>
         same_account x u g fl nm (case hm of Some p \<Rightarrow> p | None \<Rightarrow> str ''/'')
           (case sh of Some p \<Rightarrow> p | None \<Rightarrow> str ''/bin/asdsh'')) \<and>
       map grp_gid (g_groups db') = map grp_gid (g_groups db))"
proof -
  note D = usr_okD[OF ok]
  let ?bad = "length (g_users db) = 64 \<or> u \<in> uid ` set (g_users db) \<or>
    cstr nm \<in> (\<lambda>x. cstr (name x)) ` set (g_users db) \<or> cstr nm = []"
  have fn: "usr_find_by_name db nm = Some (first_idx (\<lambda>x. cstr (name x) = cstr nm) (g_users db))"
    by (rule usr_find_by_name_eq[OF ok nm(1)])
  have fnN: "first_idx (\<lambda>x. cstr (name x) = cstr nm) (g_users db) = None \<longleftrightarrow>
      cstr nm \<notin> (\<lambda>x. cstr (name x)) ` set (g_users db)"
    by (auto simp: first_idx_None image_iff eq_commute[of "cstr nm"])
  have ne: "nm \<noteq> []" and hd0: "hd nm = 0 \<longleftrightarrow> cstr nm = []" using nm(1) by (cases nm; simp)+
  have full: "length (g_users db) \<ge> USR_MAX_USERS \<longleftrightarrow> length (g_users db) = 64"
    using D(1) by (auto simp: USR_MAX_USERS_def)
  show ?thesis
  proof (cases ?bad)
    case True
    have "usr_add db u g (Some nm) pw fl hm sh = Some (-1, db)"
      using True full usr_find_by_uid_None[of db u] fn fnN ne hd0 by (auto simp: usr_add_def)
    then show ?thesis using True ok by auto
  next
    case False
    obtain salt s where s: "draw_salt db = Some (salt, db\<lparr>u_sec := s, u_tsc := tl (u_tsc db)\<rparr>)" "sec_wf s"
      using draw_salt_ok[OF ok] by blast
    have "terminated (case pw of Some p \<Rightarrow> p | None \<Rightarrow> [0])" using pw by (cases pw) auto
    then obtain h where h: "pw_hash_salted (Some (case pw of Some p \<Rightarrow> p | None \<Rightarrow> [0])) salt = Some h"
      using pw_hash_total[of "Some (case pw of Some p \<Rightarrow> p | None \<Rightarrow> [0])" salt] by auto
    let ?hm = "case hm of Some x \<Rightarrow> x | None \<Rightarrow> str ''/''" and ?sh = "case sh of Some x \<Rightarrow> x | None \<Rightarrow> str ''/bin/asdsh''"
    have t: "terminated ?hm" "terminated ?sh" using hm sh by (auto split: option.splits)
    obtain n where n: "u_strncpy (replicate USR_NAME_LEN 0) nm USR_NAME_LEN = Some n" "length n = 32" "terminated n"
      "cstr n = take 31 (cstr nm)" using u_strncpy_ok[OF nm(1), of "replicate 32 0" 32] by (auto simp: USR_NAME_LEN_def)
    obtain d where d: "u_strncpy (replicate USR_HOME_LEN 0) ?hm USR_HOME_LEN = Some d" "length d = 64" "terminated d"
      "cstr d = take 63 (cstr ?hm)" using u_strncpy_ok[OF t(1), of "replicate 64 0" 64] by (auto simp: USR_HOME_LEN_def)
    obtain e where e: "u_strncpy (replicate USR_SHELL_LEN 0) ?sh USR_SHELL_LEN = Some e" "length e = 64" "terminated e"
      "cstr e = take 63 (cstr ?sh)" using u_strncpy_ok[OF t(2), of "replicate 64 0" 64] by (auto simp: USR_SHELL_LEN_def)
    define x where "x = \<lparr>uid = u, gid = g, flags = fl, pw_hash = h, pw_salt = salt, name = n, home = d, shell = e,
      groups = new_groups g fl\<rparr>"
    define db1 where "db1 = db\<lparr>u_sec := s, u_tsc := tl (u_tsc db), g_users := g_users db @ [x]\<rparr>"
    define db2 where "db2 = (if u < 32 then let db = set_member g u db1
        in if fl AND USR_FLAG_WHEEL \<noteq> 0 then set_member GID_WHEEL u db else db else db1)"
    have run: "usr_add db u g (Some nm) pw fl hm sh = Some (0, db2)"
      using False full usr_find_by_uid_None[of db u] fn fnN ne hd0 s(1) h n(1) d(1) e(1)
      by (simp add: usr_add_def db2_def db1_def x_def)
    have nm31: "cstr n = cstr nm" using n(4) nm(2) by simp
    have "usr_ok db1"
      using ok False s(2) n d e nm31 D(1) unfolding db1_def by (auto simp: usr_ok_def x_def user_ok_def)
    then have ok2: "usr_ok db2" "g_users db2 = g_users db @ [x]" "map grp_gid (g_groups db2) = map grp_gid (g_groups db)"
      using set_member_props by (simp_all add: db2_def Let_def) (simp_all add: db1_def)
    have "same_account x u g fl nm ?hm ?sh" using n(4) d(4) e(4) by (simp add: same_account_def x_def)
    then show ?thesis using run ok2 False by auto
  qed
qed


subsection \<open>Passwords\<close>

text \<open>Each round of the finaliser is a bijection on 64-bit words.\<close>

lemma xorshift_33: "(h XOR drop_bit 33 h) XOR drop_bit 33 (h XOR drop_bit 33 h) = (h :: u64)"
  by (rule bit_word_eqI) (auto simp: bit_simps dest: bit_imp_le_length)

lemma mix_round_inj: "mix_round a = mix_round b \<Longrightarrow> a = b"
proof -
  have x: "u = v" if "u XOR drop_bit 33 u = v XOR drop_bit 33 v" for u v :: u64
    using xorshift_33[of u] xorshift_33[of v] that by metis
  have m: "u = v" if "u * k = v * k" and "k * k' = 1" for u v k k' :: u64
  proof -
    have "u * (k * k') = v * (k * k')" using that(1) by (simp flip: mult.assoc)
    then show ?thesis using that(2) by simp
  qed
  have k: "(0xff51afd7ed558ccd :: u64) * 0x4f74430c22a54005 = 1" "(0xc4ceb9fe1a85ec53 :: u64) * 0x9cb4b2f8129337db = 1"
    by simp_all
  assume "mix_round a = mix_round b"
  from x[OF m[OF x[OF m[OF x[OF this[unfolded mix_round_def Let_def]] k(2)]] k(1)]] show ?thesis .
qed

lemma mix_rounds_inj: "(mix_round ^^ n) a = (mix_round ^^ n) b \<Longrightarrow> a = b"
  by (induction n) (auto dest: mix_round_inj)

definition fnv :: "u64 \<Rightarrow> u8 list \<Rightarrow> u64" where
  "fnv salt s = foldl (\<lambda>h c. (h XOR ucast c) * FNV_PRIME) ((FNV_OFFSET XOR salt) * FNV_PRIME) s"

lemma pw_hash_fnv: "terminated p \<Longrightarrow> pw_hash_salted (Some p) salt = Some ((mix_round ^^ 1024) (fnv salt (cstr p)))"
  by (simp add: pw_hash_salted_def fnv_bytes_total fnv_def)

lemma upd_user_find:
  "i < length (g_users db) \<Longrightarrow> (\<And>x. uid (f x) = uid x) \<Longrightarrow> usr_find_by_uid (upd_user i f db) u = usr_find_by_uid db u"
proof -
  assume a: "i < length (g_users db)" "\<And>x. uid (f x) = uid x"
  have "first_idx (\<lambda>x. x = u) (map uid ((g_users db)[i := f (g_users db ! i)])) = first_idx (\<lambda>x. x = u) (map uid (g_users db))"
    using a by (simp add: map_upd_same)
  then show ?thesis by (simp add: usr_find_by_uid_def upd_user_def first_idx_map)
qed

text \<open>
  C31: after a password was set, for an account that is neither locked nor barred from login,
  checking a candidate accepts it exactly when its salted FNV-1a value is that of the password:
  the 1024 mixing rounds add no collisions. The exception the code makes is a hash that happens
  to be 0, which counts as no password: then exactly the empty candidate is accepted.
\<close>

theorem usr_password_check:
  assumes ok: "usr_ok db" and i: "usr_find_by_uid db u = Some i"
    and fl: "flags (g_users db ! i) AND USR_FLAG_LOCKED = 0" "flags (g_users db ! i) AND USR_FLAG_NOLOGIN = 0"
    and pw: "terminated pw"
  shows "\<exists>salt db'. usr_set_password db u (Some pw) = Some (0, db') \<and>
    (\<forall>cand. terminated cand \<longrightarrow> usr_check_password db' u (Some cand) =
       Some (if pw_hash (g_users db' ! i) = 0 then (if cstr cand = [] then 1 else 0)
             else if fnv salt (cstr cand) = fnv salt (cstr pw) then 1 else 0))"
proof -
  obtain salt s where s: "draw_salt db = Some (salt, db\<lparr>u_sec := s, u_tsc := tl (u_tsc db)\<rparr>)" "sec_wf s"
    using draw_salt_ok[OF ok] by blast
  let ?h = "(mix_round ^^ 1024) (fnv salt (cstr pw))"
  let ?f = "\<lambda>x. x\<lparr>pw_salt := salt, pw_hash := ?h\<rparr>"
  let ?db0 = "db\<lparr>u_sec := s, u_tsc := tl (u_tsc db)\<rparr>"
  define db' where "db' = upd_user i ?f ?db0"
  have set: "usr_set_password db u (Some pw) = Some (0, db')"
    using i s(1) by (simp add: usr_set_password_def pw_hash_fnv[OF pw] db'_def)
  have ib: "i < length (g_users db)" using i by (simp add: usr_find_by_uid_def first_idx_bound)
  have f': "usr_find_by_uid db' u = Some i"
    using i ib upd_user_find[of i ?db0 ?f u] by (simp add: db'_def usr_find_by_uid_def)
  have x: "g_users db' ! i = ?f (g_users db ! i)" using ib by (simp add: db'_def upd_user_def)
  have "usr_check_password db' u (Some cand) =
       Some (if pw_hash (g_users db' ! i) = 0 then (if cstr cand = [] then 1 else 0)
             else if fnv salt (cstr cand) = fnv salt (cstr pw) then 1 else 0)" if c: "terminated cand" for cand
  proof -
    have "?h = (mix_round ^^ 1024) (fnv salt (cstr cand)) \<longleftrightarrow> fnv salt (cstr cand) = fnv salt (cstr pw)"
      using mix_rounds_inj by metis
    moreover obtain a r where "cand = a # r" using c by (cases cand) auto
    ultimately show ?thesis
      using fl f' c by (simp add: usr_check_password_def x Let_def pw_hash_fnv u64_eq_safe_def)
  qed
  then show ?thesis using set by blast
qed

subsection \<open>Groups and permissions\<close>

text \<open>
  C0: \<^verbatim>\<open>usr_add_to_group\<close> with the wheel group sets the member masks but not the wheel flag, and
  \<^verbatim>\<open>usr_is_wheel\<close> looks only at the flag: a user added to wheel this way is still not reported
  as wheel, although the header says the answer is 1 if the user holds wheel.
\<close>

theorem usr_add_to_wheel_is_not_wheel:
  assumes "usr_find_by_uid db u = Some i"
  shows "fst (usr_add_to_group db u GID_WHEEL) = 0 \<and>
    bit (groups (g_users (snd (usr_add_to_group db u GID_WHEEL)) ! i)) 1 \<and>
    usr_is_wheel (snd (usr_add_to_group db u GID_WHEEL)) u = usr_is_wheel db u"
proof -
  let ?f = "\<lambda>x. x\<lparr>groups := groups x OR push_bit (unat GID_WHEEL) 1\<rparr>"
  define db1 where "db1 = upd_user i ?f db"
  define db2 where "db2 = (if u < 32 then set_member GID_WHEEL u db1 else db1)"
  have r: "usr_add_to_group db u GID_WHEEL = (0, db2)"
    using assms by (simp add: usr_add_to_group_def GID_WHEEL_def USR_MAX_GROUPS_def db1_def db2_def)
  have ib: "i < length (g_users db)" using assms by (simp add: usr_find_by_uid_def first_idx_bound)
  have u2: "g_users db2 = (g_users db)[i := ?f (g_users db ! i)]"
    by (simp add: db2_def db1_def upd_user_def set_member_def upd_group_def split: option.splits)
  have "first_idx (\<lambda>x. uid x = u) (g_users db2) = first_idx (\<lambda>x. uid x = u) (g_users db)"
    using upd_user_find[OF ib, of ?f u] by (simp add: usr_find_by_uid_def upd_user_def u2)
  then have "usr_find_by_uid db2 u = Some i" using assms by (simp add: usr_find_by_uid_def)
  then show ?thesis unfolding r using assms ib by (simp add: usr_is_wheel_def u2 bit_simps GID_WHEEL_def)
qed

lemma and_or_subset: "m AND (a OR b) = a OR b \<longleftrightarrow> m AND a = a \<and> m AND b = b" for m a b :: u16
proof
  assume e: "m AND (a OR b) = a OR b"
  have "bit m n" if "bit a n \<or> bit b n" for n
    using arg_cong[OF e, of "\<lambda>w. bit w n"] that by (auto simp: bit_simps)
  then show "m AND a = a \<and> m AND b = b" by (auto intro!: bit_word_eqI simp: bit_simps)
qed (simp add: bit.conj_disj_distrib)

lemma and_mode_bit:
  "m AND 0x100 = 0x100 \<longleftrightarrow> bit m 8" "m AND 0x80 = 0x80 \<longleftrightarrow> bit m 7" "m AND 0x40 = 0x40 \<longleftrightarrow> bit m 6"
  "m AND 0x20 = 0x20 \<longleftrightarrow> bit m 5" "m AND 0x10 = 0x10 \<longleftrightarrow> bit m 4" "m AND 0x8 = 0x8 \<longleftrightarrow> bit m 3"
  "m AND 0x4 = 0x4 \<longleftrightarrow> bit m 2" "m AND 0x2 = 0x2 \<longleftrightarrow> bit m 1" "m AND 0x1 = 0x1 \<longleftrightarrow> bit m 0" for m :: u16
proof -
  have e: "m AND 2 ^ k = 2 ^ k \<longleftrightarrow> bit m k" if "k < 16" for k
  proof
    assume "m AND 2 ^ k = 2 ^ k"
    then have "bit (m AND 2 ^ k) k = bit (2 ^ k :: u16) k" by simp
    then show "bit m k" using that by (simp add: bit_and_iff bit_exp_iff possible_bit_word)
  next
    assume "bit m k"
    then show "m AND 2 ^ k = 2 ^ k" by (intro bit_word_eqI) (auto simp: bit_simps)
  qed
  show "m AND 0x100 = 0x100 \<longleftrightarrow> bit m 8" "m AND 0x80 = 0x80 \<longleftrightarrow> bit m 7" "m AND 0x40 = 0x40 \<longleftrightarrow> bit m 6"
    "m AND 0x20 = 0x20 \<longleftrightarrow> bit m 5" "m AND 0x10 = 0x10 \<longleftrightarrow> bit m 4" "m AND 0x8 = 0x8 \<longleftrightarrow> bit m 3"
    "m AND 0x4 = 0x4 \<longleftrightarrow> bit m 2" "m AND 0x2 = 0x2 \<longleftrightarrow> bit m 1" "m AND 0x1 = 0x1 \<longleftrightarrow> bit m 0"
    using e[of 8] e[of 7] e[of 6] e[of 5] e[of 4] e[of 3] e[of 2] e[of 1] e[of 0] by simp_all
qed

text \<open>
  C33: the permission check is the owner, group, others rule. Root may do everything. Otherwise
  the class of the caller is owner if the user ids agree, else group if the file's group is the
  caller's primary group or a bit of the group mask, else others; access is granted exactly if
  for each requested right the mode has the bit of that class.
\<close>

theorem usr_check_perm_correct:
  "usr_check_perm u g grps fu fg mode acc =
    (let c = (if u = fu then 6 else if g = fg \<or> unat fg < 32 \<and> bit grps (unat fg) then 3 else 0)
     in if u = 0 \<or> ((bit acc 0 \<longrightarrow> bit mode (c + 2)) \<and> (bit acc 1 \<longrightarrow> bit mode (c + 1)) \<and> (bit acc 2 \<longrightarrow> bit mode c))
        then 0 else -1)"
proof -
  have acc: "acc AND USR_ACCESS_READ = 0 \<longleftrightarrow> \<not> bit acc 0" "acc AND USR_ACCESS_WRITE = 0 \<longleftrightarrow> \<not> bit acc 1"
    "acc AND USR_ACCESS_EXEC = 0 \<longleftrightarrow> \<not> bit acc 2"
    using and_exp_eq_0_iff_not_bit[of acc 0] and_exp_eq_0_iff_not_bit[of acc 1] and_exp_eq_0_iff_not_bit[of acc 2]
    by (simp_all add: USR_ACCESS_READ_def USR_ACCESS_WRITE_def USR_ACCESS_EXEC_def)
  have grp: "grps AND push_bit k 1 = 0 \<longleftrightarrow> \<not> bit grps k" if "k < 32" for k
    using and_exp_eq_0_iff_not_bit[of grps k] by (simp add: push_bit_eq_mult)
  have nb: "mode AND need_bits r w x acc = need_bits r w x acc \<longleftrightarrow>
      (bit acc 0 \<longrightarrow> mode AND r = r) \<and> (bit acc 1 \<longrightarrow> mode AND w = w) \<and> (bit acc 2 \<longrightarrow> mode AND x = x)" for r w x
    by (simp add: need_bits_def Let_def acc and_or_subset)
  have gb: "(g = fg \<or> unat fg < USR_MAX_GROUPS \<and> grps AND push_bit (unat fg) 1 \<noteq> 0) \<longleftrightarrow>
      (g = fg \<or> unat fg < 32 \<and> bit grps (unat fg))"
    using grp by (auto simp: USR_MAX_GROUPS_def)
  note modes = USR_MODE_RUSR_def USR_MODE_WUSR_def USR_MODE_XUSR_def USR_MODE_RGRP_def USR_MODE_WGRP_def
    USR_MODE_XGRP_def USR_MODE_ROTH_def USR_MODE_WOTH_def USR_MODE_XOTH_def
  consider "u = 0" | "u \<noteq> 0" "u = fu" | "u \<noteq> 0" "u \<noteq> fu" "g = fg \<or> unat fg < 32 \<and> bit grps (unat fg)"
    | "u \<noteq> 0" "u \<noteq> fu" "\<not> (g = fg \<or> unat fg < 32 \<and> bit grps (unat fg))" by blast
  then show ?thesis
  proof cases
    case 1
    then show ?thesis by (simp add: usr_check_perm_def UID_ROOT_def)
  next
    case 2
    show ?thesis unfolding usr_check_perm_def Let_def if_P[OF 2(2)] using 2(1)
      by (simp add: nb UID_ROOT_def modes and_mode_bit)
  next
    case 3
    show ?thesis unfolding usr_check_perm_def Let_def gb if_not_P[OF 3(2)] if_P[OF 3(3)] using 3(1)
      by (simp add: nb UID_ROOT_def modes and_mode_bit)
  next
    case 4
    show ?thesis unfolding usr_check_perm_def Let_def gb if_not_P[OF 4(2)] if_not_P[OF 4(3)] using 4(1)
      by (simp add: nb UID_ROOT_def modes and_mode_bit numeral_2_eq_2)
  qed
qed

subsection \<open>A concrete database\<close>

definition demo_user :: asd_user where
  "demo_user = \<lparr>uid = 1000, gid = 100, flags = 0, pw_hash = 0, pw_salt = 0, name = str ''ann'' @ replicate 28 0,
     home = str ''/'' @ replicate 62 0, shell = str ''/bin/asdsh'' @ replicate 53 0, groups = 0\<rparr>"

definition demo_db :: usr_db where
  "demo_db = \<lparr>g_users = [demo_user], g_groups = [], u_sec = sec_zero, u_tsc = []\<rparr>"

lemma demo_db_ok: "usr_ok demo_db"
  by (simp add: usr_ok_def demo_db_def demo_user_def user_ok_def str_def sec_zero_wf)

lemma demo_db_find: "usr_find_by_uid demo_db 1000 = Some 0"
  by (simp add: usr_find_by_uid_def demo_db_def demo_user_def)


theorem usr_password_check_witness:
  "\<exists>salt db'. usr_set_password demo_db 1000 (Some (str ''secret'')) = Some (0, db') \<and>
     usr_check_password db' 1000 (Some (str ''secret'')) = Some (if pw_hash (g_users db' ! 0) = 0 then 0 else 1)"
proof -
  have "flags (g_users demo_db ! 0) AND USR_FLAG_LOCKED = 0" "flags (g_users demo_db ! 0) AND USR_FLAG_NOLOGIN = 0"
    by (simp_all add: demo_db_def demo_user_def)
  from usr_password_check[OF demo_db_ok demo_db_find this, of "str ''secret''"] show ?thesis
    by (fastforce simp: str_def)
qed

theorem usr_add_to_wheel_is_not_wheel_witness:
  "usr_is_wheel (snd (usr_add_to_group demo_db 1000 GID_WHEEL)) 1000 = 0"
proof -
  have "usr_is_wheel demo_db 1000 = 0"
    by (simp add: usr_is_wheel_def demo_db_find UID_ROOT_def) (simp add: demo_db_def demo_user_def)
  then show ?thesis using usr_add_to_wheel_is_not_wheel[OF demo_db_find] by simp
qed

theorem usr_check_perm_correct_witness:
  "usr_check_perm 1000 100 0 0 100 0x1A4 1 = 0 \<and> usr_check_perm 1000 100 0 0 100 0x1A4 2 = -1"
  using usr_check_perm_correct[of 1000 100 0 0 100 "0x1A4" 1] usr_check_perm_correct[of 1000 100 0 0 100 "0x1A4" 2]
  by simp

end
