(* ===== verification/Usr_Roundtrip.thy ===== *)
theory Usr_Roundtrip
  imports Usr_Passwd Usr_Accounts
begin

text \<open>
  Writing the accounts and loading them again: numbers and hexadecimal words survive, a line
  written by \<^verbatim>\<open>write_user\<close> is parsed back to its fields, and the whole file restores every
  account.
\<close>

subsection \<open>Numbers\<close>

lemma dec_loop_0 [simp]: "dec_loop 0 tmp = tmp"
  by (simp add: dec_loop.simps[of 0])

lemma atou_dec_loop: "\<exists>k. \<forall>a. atou_from a (dec_loop v tmp) = atou_from (a * 10 ^ k + v) tmp"
proof (induction v tmp rule: dec_loop.induct)
  case (1 v tmp)
  show ?case
  proof (cases "v = 0")
    case True
    then show ?thesis by (intro exI[of _ 0]) simp
  next
    case False
    let ?d = "48 + ucast (v mod 10) :: u8"
    obtain k where k: "\<And>a. atou_from a (dec_loop (v div 10) (?d # tmp)) = atou_from (a * 10 ^ k + v div 10) (?d # tmp)"
      using 1 False by blast
    have m: "unat (v mod 10) < 10" by (simp add: unat_mod)
    have um: "unat (ucast (v mod 10) :: u8) = unat (v mod 10)"
      using m by (simp add: unsigned_ucast_eq take_bit_nat_eq_self)
    have ud: "unat ?d = 48 + unat (v mod 10)" using m um by (subst unat_add_lem[THEN iffD1]) simp_all
    have dig: "u_isdigit ?d" using ud m by (simp add: u_isdigit_def word_le_nat_alt)
    have dv: "ucast (ucast (v mod 10) :: u8) = v mod 10"
      by (rule word_unat_eq_iff[THEN iffD2]) (use um in \<open>simp add: unsigned_ucast_eq unsigned_take_bit_eq\<close>)
    have e: "(a * 10 ^ k + v div 10) * 10 + v mod 10 = a * 10 ^ Suc k + v" for a
    proof -
      have "(a * 10 ^ k + v div 10) * 10 + v mod 10 = a * 10 ^ Suc k + (v div 10 * 10 + v mod 10)"
        by (simp add: algebra_simps)
      then show ?thesis by (simp only: div_mult_mod_eq)
    qed
    have "atou_from a (dec_loop v tmp) = atou_from (a * 10 ^ Suc k + v) tmp" for a
    proof -
      have "atou_from a (dec_loop v tmp) = atou_from a (dec_loop (v div 10) (?d # tmp))"
        using False by (subst dec_loop.simps) simp
      also have "\<dots> = atou_from ((a * 10 ^ k + v div 10) * 10 + v mod 10) tmp"
        unfolding k using dig by (simp add: dv)
      finally show ?thesis by (simp only: e)
    qed
    then show ?thesis by blast
  qed
qed

lemma u_atou_dec: "u_atou (fmt_dec v) = Some v"
proof (cases "v = 0")
  case True
  then show ?thesis by (simp add: u_atou_def fmt_dec_def u_isdigit_def)
next
  case False
  obtain k where "atou_from 0 (dec_loop v [0]) = atou_from (0 * 10 ^ k + v) [0]" using atou_dec_loop by metis
  then show ?thesis using False by (simp add: u_atou_def fmt_dec_def u_isdigit_def)
qed

lemma dec_loop_shape:
  "unat v < 10 ^ k \<Longrightarrow> \<exists>ds. dec_loop v tmp = ds @ tmp \<and> length ds \<le> k \<and> (\<forall>c\<in>set ds. u_isdigit c) \<and> (v \<noteq> 0 \<longrightarrow> ds \<noteq> [])"
proof (induction k arbitrary: v tmp)
  case 0
  then have "v = 0" by (simp add: unat_eq_0)
  then show ?case by simp
next
  case (Suc k)
  show ?case
  proof (cases "v = 0")
    case True
    then show ?thesis by simp
  next
    case False
    let ?d = "48 + ucast (v mod 10) :: u8"
    have m: "unat (v mod 10) < 10" by (simp add: unat_mod)
    have um: "unat (ucast (v mod 10) :: u8) = unat (v mod 10)"
      using m by (simp add: unsigned_ucast_eq take_bit_nat_eq_self)
    have ud: "unat ?d = 48 + unat (v mod 10)" using m um by (subst unat_add_lem[THEN iffD1]) simp_all
    have dig: "u_isdigit ?d" using ud m by (simp add: u_isdigit_def word_le_nat_alt)
    have "unat (v div 10) < 10 ^ k" using Suc.prems by (simp add: unat_div less_mult_imp_div_less mult.commute)
    then obtain ds where "dec_loop (v div 10) (?d # tmp) = ds @ ?d # tmp" "length ds \<le> k" "\<forall>c\<in>set ds. u_isdigit c"
      using Suc.IH[of "v div 10" "?d # tmp"] by blast
    then show ?thesis using False dig
      by (intro exI[of _ "ds @ [?d]"]) (simp add: dec_loop.simps[of v tmp])
  qed
qed

text \<open>A token the scanner reads back whole: not empty, no terminator and no white space.\<close>

definition token :: "u8 list \<Rightarrow> bool" where
  "token t \<longleftrightarrow> t \<noteq> [] \<and> (\<forall>c\<in>set t. c \<noteq> 0 \<and> \<not> u_isspace c)"

lemma digit_token: "u_isdigit c \<Longrightarrow> c \<noteq> 0 \<and> \<not> u_isspace c"
  by (auto simp: u_isdigit_def u_isspace_def word_le_nat_alt)

lemma fmt_dec_shape:
  fixes u :: u16
  shows "\<exists>t. fmt_dec (ucast u) = t @ [0] \<and> token t \<and> length t < 16"
proof (cases "(ucast u :: u32) = 0")
  case True
  then show ?thesis by (intro exI[of _ "[48]"]) (simp add: fmt_dec_def token_def u_isspace_def)
next
  case False
  have "unat (ucast u :: u32) < 10 ^ 5"
    using unsigned_less[of u, where 'a = nat] by (simp add: unsigned_ucast_eq take_bit_nat_eq_self)
  from dec_loop_shape[OF this, of "[0]"] False obtain ds where
    "dec_loop (ucast u) [0] = ds @ [0]" "length ds \<le> 5" "\<forall>c\<in>set ds. u_isdigit c" "ds \<noteq> []" by blast
  then show ?thesis using False digit_token by (auto simp: fmt_dec_def token_def)
qed

subsection \<open>Hexadecimal words\<close>

lemma nibble_hex_digit: "k < 16 \<Longrightarrow> nibble (hex_digits ! k) = Some (of_nat k) \<and> is_hex_digit (hex_digits ! k) \<and>
    hex_digits ! k \<noteq> 0 \<and> \<not> u_isspace (hex_digits ! k)"
proof -
  have "\<forall>k\<in>set [0..<16]. nibble (hex_digits ! k) = Some (of_nat k) \<and> is_hex_digit (hex_digits ! k) \<and>
    hex_digits ! k \<noteq> 0 \<and> \<not> u_isspace (hex_digits ! k)" by code_simp
  then show "k < 16 \<Longrightarrow> ?thesis" by simp
qed

lemma hex_nibble: "nibble (hex_digits ! unat (v AND 0xF)) = Some (ucast (v AND 0xF))"
  "unat (v AND 0xF) < 16" for v :: u64
proof -
  have "v AND 0xF = take_bit 4 v" by (simp add: take_bit_eq_mask mask_eq_exp_minus_1)
  then have u: "unat (v AND 0xF) = unat v mod 16" by (simp add: take_bit_eq_mod unat_mod)
  then show l: "unat (v AND 0xF) < 16" by simp
  have "of_nat (unat (v AND 0xF)) = (ucast (v AND 0xF) :: u8)" by (simp add: unsigned_of_nat)
  then show "nibble (hex_digits ! unat (v AND 0xF)) = Some (ucast (v AND 0xF))"
    using nibble_hex_digit[OF l] by simp
qed

lemma parse_hex_loop:
  "parse_hex_from (n + m) a (hex_loop n v acc) = parse_hex_from m (push_bit (4 * n) a OR take_bit (4 * n) v) acc"
proof (induction n arbitrary: v acc m)
  case (Suc n)
  let ?h = "hex_digits ! unat (v AND 0xF)"
  have "parse_hex_from (Suc n + m) a (hex_loop (Suc n) v acc) =
      parse_hex_from (n + Suc m) a (hex_loop n (drop_bit 4 v) (?h # acc))" by simp
  also have "\<dots> = parse_hex_from (Suc m) (push_bit (4 * n) a OR take_bit (4 * n) (drop_bit 4 v)) (?h # acc)"
    by (rule Suc.IH)
  also have "\<dots> = parse_hex_from m (push_bit 4 (push_bit (4 * n) a OR take_bit (4 * n) (drop_bit 4 v)) OR
      ucast (ucast (v AND 0xF) :: u8)) acc"
    using nibble_hex_digit[OF hex_nibble(2)[of v]] hex_nibble(1)[of v] by simp
  also have "push_bit 4 (push_bit (4 * n) a OR take_bit (4 * n) (drop_bit 4 v)) OR ucast (ucast (v AND 0xF) :: u8) =
      push_bit (4 * Suc n) a OR take_bit (4 * Suc n) v"
  proof -
    have f: "v AND 0xF = take_bit 4 v" by (simp add: take_bit_eq_mask mask_eq_exp_minus_1)
    show ?thesis unfolding f
    proof (rule bit_word_eqI)
      fix i
      assume "i < LENGTH(64)"
      then show "bit (push_bit 4 (push_bit (4 * n) a OR take_bit (4 * n) (drop_bit 4 v)) OR
          ucast (ucast (take_bit 4 v) :: u8)) i = bit (push_bit (4 * Suc n) a OR take_bit (4 * Suc n) v) i"
        by (cases "i < 4") (auto simp: bit_simps)
    qed
  qed
  finally show ?case .
qed simp

lemma hex_loop_append: "hex_loop n v acc = hex_loop n v [] @ acc"
proof (induction n arbitrary: v acc)
  case (Suc n)
  let ?h = "hex_digits ! unat (v AND 0xF)"
  show ?case using Suc[of "drop_bit 4 v" "?h # acc"] Suc[of "drop_bit 4 v" "[?h]"] by simp
qed simp

lemma parse_fmt_hex64: "parse_hex64 (fmt_hex64 v) = Some v"
proof -
  have "fmt_hex64 v = hex_loop 16 v [0]" using hex_loop_append[of 16 v "[0]"] by (simp add: fmt_hex64_def)
  then show ?thesis
    using parse_hex_loop[of 16 0 0 v "[0]"] by (simp add: parse_hex64_def take_bit_word_eq_self)
qed

lemma hex_loop_shape:
  "\<exists>ds. hex_loop n v acc = ds @ acc \<and> length ds = n \<and>
     (\<forall>c\<in>set ds. is_hex_digit c \<and> c \<noteq> 0 \<and> \<not> u_isspace c)"
proof (induction n arbitrary: v acc)
  case (Suc n)
  let ?h = "hex_digits ! unat (v AND 0xF)"
  obtain ds where "hex_loop n (drop_bit 4 v) (?h # acc) = ds @ ?h # acc" "length ds = n"
    "\<forall>c\<in>set ds. is_hex_digit c \<and> c \<noteq> 0 \<and> \<not> u_isspace c" using Suc.IH by blast
  then show ?case using nibble_hex_digit[OF hex_nibble(2)[of v]] by (intro exI[of _ "ds @ [?h]"]) simp
qed simp

lemma hex_run_all: "\<forall>c\<in>set ds. is_hex_digit c \<Longrightarrow> hex_run (length ds) (ds @ r) = Some True"
  by (induction ds) simp_all

lemma fmt_hex_shape: "\<exists>t. fmt_hex64 v = t @ [0] \<and> token t \<and> length t = 16 \<and> is_hex64 (t @ [0]) = Some True"
proof -
  obtain ds where ds: "hex_loop 16 v [] = ds @ []" "length ds = 16"
    "\<forall>c\<in>set ds. is_hex_digit c \<and> c \<noteq> 0 \<and> \<not> u_isspace c" using hex_loop_shape by blast
  have "token ds" using ds(2,3) by (auto simp: token_def)
  moreover have "hex_run (length ds) (ds @ [0]) = Some True" using ds(3) by (intro hex_run_all) simp
  ultimately show ?thesis using ds by (auto simp: fmt_hex64_def is_hex64_def)
qed

subsection \<open>Writing\<close>

text \<open>The output so far is \<open>out\<close>, in a buffer of \<open>L\<close> bytes.\<close>

definition wrote :: "out \<Rightarrow> u8 list \<Rightarrow> nat \<Rightarrow> bool" where
  "wrote o1 out L \<longleftrightarrow> length (fst o1) = L \<and> snd o1 = length out \<and> length out \<le> L \<and> take (length out) (fst o1) = out"

lemma put_char_ok:
  assumes "wrote o1 out L" and "length out < L"
  shows "\<exists>o2. put_char c o1 = Some o2 \<and> wrote o2 (out @ [c]) L"
proof -
  have "take (Suc (length out)) ((fst o1)[length out := c]) = take (length out) (fst o1) @ [c]"
    using assms by (simp add: wrote_def take_Suc_conv_app_nth)
  then show ?thesis using assms by (simp add: wrote_def put_char_def)
qed

lemma put_str_ok:
  assumes "wrote o1 out L" and "terminated s" and "length out + length (cstr s) \<le> lim" and "lim \<le> L"
  shows "\<exists>o2. put_str lim s o1 = Some o2 \<and> wrote o2 (out @ cstr s) L"
  using assms
proof (induction s arbitrary: o1 out)
  case (Cons c s)
  show ?case
  proof (cases "c = 0")
    case True
    then show ?thesis using Cons.prems(1) by simp
  next
    case False
    have lt: "length out < lim" "length out < L" "snd o1 = length out" using Cons.prems False by (auto simp: wrote_def)
    obtain o2 where o2: "put_char c o1 = Some o2" "wrote o2 (out @ [c]) L" using put_char_ok[OF Cons.prems(1) lt(2)] by blast
    obtain o3 where "put_str lim s o2 = Some o3" "wrote o3 ((out @ [c]) @ cstr s) L"
      using Cons.IH[OF o2(2)] Cons.prems(2-4) False by auto
    then show ?thesis using False lt o2(1) by auto
  qed
qed simp

definition user_line :: "asd_user \<Rightarrow> u8 list" where
  "user_line u = cstr (name u) @ 32 # cstr (fmt_dec (ucast (uid u))) @ 32 # cstr (fmt_dec (ucast (gid u))) @
     32 # cstr (flag_text (flags u)) @ 32 # cstr (home u) @ 32 # cstr (shell u) @
     32 # cstr (fmt_hex64 (pw_salt u)) @ 32 # cstr (fmt_hex64 (pw_hash u)) @ [10]"

lemma fmt_terminated: "terminated (fmt_dec (ucast (x :: u16)))" "terminated (fmt_hex64 v)" "terminated (flag_text f)"
  using fmt_dec_shape[of x] fmt_hex_shape[of v] by (auto simp: flag_text_def)

lemma put_field:
  assumes "wrote o1 out L" and "terminated s" and "length out + length (cstr s) < lim" and "lim \<le> L"
  shows "\<exists>o2 o3. put_str lim s o1 = Some o2 \<and> put_char 32 o2 = Some o3 \<and> wrote o3 (out @ cstr s @ [32]) L"
proof -
  obtain o2 where o2: "put_str lim s o1 = Some o2" "wrote o2 (out @ cstr s) L" using put_str_ok[OF assms(1,2), of lim] assms(3,4) by auto
  then show ?thesis using put_char_ok[OF o2(2), of 32] assms(3,4) by auto
qed

lemma write_user_ok:
  assumes w: "wrote o1 out L" and u: "user_ok u" and n: "length out + length (user_line u) \<le> sz - 2" and sz: "sz \<le> L"
  shows "\<exists>o2. write_user sz u o1 = Some o2 \<and> wrote o2 (out @ user_line u) L"
proof -
  note t = fmt_terminated u[unfolded user_ok_def]
  let ?l = "sz - 2"
  have l: "?l \<le> L" using sz by simp
  note len = n[unfolded user_line_def, simplified]
  obtain a1 b1 where 1: "put_str ?l (name u) o1 = Some a1" "put_char 32 a1 = Some b1" "wrote b1 (out @ cstr (name u) @ [32]) L"
    using put_field[OF w, of "name u" ?l] t l len by auto
  obtain a2 b2 where 2: "put_str ?l (fmt_dec (ucast (uid u))) b1 = Some a2" "put_char 32 a2 = Some b2"
    "wrote b2 ((out @ cstr (name u) @ [32]) @ cstr (fmt_dec (ucast (uid u))) @ [32]) L"
    using put_field[OF 1(3), of "fmt_dec (ucast (uid u))" ?l] t(1) l len by auto
  obtain a3 b3 where 3: "put_str ?l (fmt_dec (ucast (gid u))) b2 = Some a3" "put_char 32 a3 = Some b3"
    "wrote b3 (((out @ cstr (name u) @ [32]) @ cstr (fmt_dec (ucast (uid u))) @ [32]) @ cstr (fmt_dec (ucast (gid u))) @ [32]) L"
    using put_field[OF 2(3), of "fmt_dec (ucast (gid u))" ?l] t(1) l len by auto
  define w3 where "w3 = ((out @ cstr (name u) @ [32]) @ cstr (fmt_dec (ucast (uid u))) @ [32]) @ cstr (fmt_dec (ucast (gid u))) @ [32]"
  obtain a4 b4 where 4: "put_str ?l (flag_text (flags u)) b3 = Some a4" "put_char 32 a4 = Some b4"
    "wrote b4 (w3 @ cstr (flag_text (flags u)) @ [32]) L"
    using put_field[OF 3(3), of "flag_text (flags u)" ?l] t(3) l len unfolding w3_def by auto
  obtain a5 b5 where 5: "put_str ?l (home u) b4 = Some a5" "put_char 32 a5 = Some b5"
    "wrote b5 ((w3 @ cstr (flag_text (flags u)) @ [32]) @ cstr (home u) @ [32]) L"
    using put_field[OF 4(3), of "home u" ?l] t l len unfolding w3_def by auto
  obtain a6 b6 where 6: "put_str ?l (shell u) b5 = Some a6" "put_char 32 a6 = Some b6"
    "wrote b6 (((w3 @ cstr (flag_text (flags u)) @ [32]) @ cstr (home u) @ [32]) @ cstr (shell u) @ [32]) L"
    using put_field[OF 5(3), of "shell u" ?l] t l len unfolding w3_def by auto
  define w6 where "w6 = ((w3 @ cstr (flag_text (flags u)) @ [32]) @ cstr (home u) @ [32]) @ cstr (shell u) @ [32]"
  obtain a7 b7 where 7: "put_str ?l (fmt_hex64 (pw_salt u)) b6 = Some a7" "put_char 32 a7 = Some b7"
    "wrote b7 (w6 @ cstr (fmt_hex64 (pw_salt u)) @ [32]) L"
    using put_field[OF 6(3), of "fmt_hex64 (pw_salt u)" ?l] t(2) l len unfolding w6_def w3_def by auto
  obtain a8 where 8: "put_str ?l (fmt_hex64 (pw_hash u)) b7 = Some a8"
    "wrote a8 ((w6 @ cstr (fmt_hex64 (pw_salt u)) @ [32]) @ cstr (fmt_hex64 (pw_hash u))) L"
    using put_str_ok[OF 7(3), of "fmt_hex64 (pw_hash u)" ?l] t(2) l len unfolding w6_def w3_def by auto
  have s8: "snd a8 < sz - 1" "snd a8 < L"
    using 8(2) len l unfolding wrote_def w6_def w3_def by auto
  obtain a9 where 9: "put_char 10 a8 = Some a9"
    "wrote a9 (((w6 @ cstr (fmt_hex64 (pw_salt u)) @ [32]) @ cstr (fmt_hex64 (pw_hash u))) @ [10]) L"
    using put_char_ok[OF 8(2), of 10] s8 8(2) by (auto simp: wrote_def)
  have "((w6 @ cstr (fmt_hex64 (pw_salt u)) @ [32]) @ cstr (fmt_hex64 (pw_hash u))) @ [10] = out @ user_line u"
    by (simp add: w6_def w3_def user_line_def)
  then show ?thesis
    using 9 s8(1) by (simp add: write_user_def Let_def 1(1,2) 2(1,2) 3(1,2) 4(1,2) 5(1,2) 6(1,2) 7(1,2) 8(1))
qed

lemma write_users_ok:
  "wrote o1 out L \<Longrightarrow> \<forall>u\<in>set us. user_ok u \<Longrightarrow> length out + length (concat (map user_line us)) \<le> sz - 2 \<Longrightarrow> sz \<le> L \<Longrightarrow>
     \<exists>o2. write_users sz us o1 = Some o2 \<and> wrote o2 (out @ concat (map user_line us)) L"
proof (induction us arbitrary: o1 out)
  case (Cons u us)
  obtain o2 where o2: "write_user sz u o1 = Some o2" "wrote o2 (out @ user_line u) L"
    using write_user_ok[OF Cons.prems(1), of u sz] Cons.prems(2-4) by auto
  obtain o3 where "write_users sz us o2 = Some o3" "wrote o3 ((out @ user_line u) @ concat (map user_line us)) L"
    using Cons.IH[OF o2(2)] Cons.prems(2-4) by auto
  then show ?case using o2(1) by auto
qed simp

definition passwd_text :: "usr_db \<Rightarrow> u8 list" where
  "passwd_text db = map of_char (''#ASDPW1'' @ [CHR 0x0A]) @ concat (map user_line (g_users db))"

lemma usr_write_passwd_ok:
  assumes ok: "usr_ok db" and n: "length (passwd_text db) \<le> sz - 2" and sz: "sz \<le> length b"
  shows "\<exists>r. usr_write_passwd db (Some b) sz = Some (int (length (passwd_text db)), Some (passwd_text db @ 0 # r)) \<and>
    length (passwd_text db @ 0 # r) = length b"
proof -
  let ?h = "str (''#ASDPW1'' @ [CHR 0x0A])"
  have h: "terminated ?h" "cstr ?h = map of_char (''#ASDPW1'' @ [CHR 0x0A])" by (simp_all add: str_def)
  have l8: "8 \<le> length (passwd_text db)" by (simp add: passwd_text_def)
  have w0: "wrote (b, 0) [] (length b)" by (simp add: wrote_def)
  obtain o1 where o1: "put_str (sz - 1) ?h (b, 0) = Some o1" "wrote o1 (cstr ?h) (length b)"
  proof -
    have "length ([] :: u8 list) + length (cstr ?h) \<le> sz - 1" "sz - 1 \<le> length b"
      using n l8 sz by (simp_all add: str_def)
    then show thesis using put_str_ok[OF w0 h(1), of "sz - 1"] that by auto
  qed
  obtain o2 where o2: "write_users sz (g_users db) o1 = Some o2" "wrote o2 (passwd_text db) (length b)"
    using write_users_ok[OF o1(2), of "g_users db" sz] usr_okD(2)[OF ok] n sz
    unfolding h(2) passwd_text_def[of db] by (auto simp del: list.map)
  obtain o3 where o3: "put_char 0 o2 = Some o3" "wrote o3 (passwd_text db @ [0]) (length b)"
  proof -
    have "length (passwd_text db) < length b" using n sz l8 by linarith
    then show thesis using put_char_ok[OF o2(2), of 0] that by blast
  qed
  have "fst o3 = passwd_text db @ 0 # drop (Suc (length (passwd_text db))) (fst o3)"
    using o3(2) by (simp add: wrote_def) (metis append.assoc append_Cons append_Nil append_take_drop_id)
  moreover have "length (fst o3) = length b" "snd o2 = length (passwd_text db)" using o3(2) o2(2) by (simp_all add: wrote_def)
  ultimately show ?thesis
    using o1(1) o2(1) o3(1) n l8 by (intro exI[of _ "drop (Suc (length (passwd_text db))) (fst o3)"])
      (auto simp: usr_write_passwd_def)
qed

subsection \<open>Scanning a line\<close>

lemma tok_loop_token:
  "\<forall>c\<in>set t. c \<noteq> 0 \<and> \<not> u_isspace c \<Longrightarrow> length t \<le> k \<Longrightarrow> c = 0 \<or> u_isspace c \<Longrightarrow>
     tok_loop (t @ c # r) k = Some (t, c # r)"
proof (induction t arbitrary: k)
  case Nil
  then show ?case by (cases k) auto
next
  case (Cons x t)
  then obtain k' where "k = Suc k'" by (cases k) auto
  with Cons show ?case by simp
qed

lemma read_tok_token:
  assumes "token t" and "length t < n" and "c = 0 \<or> u_isspace c"
  shows "read_tok (t @ c # r) n = Some (t, c # r)" "read_tok (32 # t @ c # r) n = Some (t, c # r)"
proof -
  obtain x s where t: "t = x # s" "x \<noteq> 0" "\<not> u_isspace x" using assms(1) by (cases t) (auto simp: token_def)
  have l: "tok_loop (t @ c # r) (n - 1) = Some (t, c # r)"
    using assms by (intro tok_loop_token) (auto simp: token_def)
  have "skip_ws (t @ c # r) = Some (t @ c # r)" using t by simp
  moreover have "skip_ws (32 # t @ c # r) = Some (t @ c # r)" using calculation by (simp add: u_isspace_def)
  ultimately show "read_tok (t @ c # r) n = Some (t, c # r)" "read_tok (32 # t @ c # r) n = Some (t, c # r)"
    using l by (simp_all add: read_tok_def)
qed

text \<open>The accounts the format can express.\<close>

definition storable :: "asd_user \<Rightarrow> bool" where
  "storable u \<longleftrightarrow> token (cstr (name u)) \<and> hd (name u) \<noteq> 35 \<and> token (cstr (home u)) \<and> token (cstr (shell u)) \<and>
     flags u \<in> {0, USR_FLAG_WHEEL, USR_FLAG_NOLOGIN, USR_FLAG_LOCKED}"

lemma flag_text_token: "token (cstr (flag_text f))" "length (cstr (flag_text f)) < 32"
  by (auto simp: flag_text_def str_def token_def u_isspace_def)

lemma flag_value_text:
  "f \<in> {0, USR_FLAG_WHEEL, USR_FLAG_NOLOGIN, USR_FLAG_LOCKED} \<Longrightarrow> flag_value (cstr (flag_text f) @ [0]) = Some f"
  by (elim insertE emptyE)
    (simp_all add: flag_text_def flag_value_def str_def USR_FLAG_WHEEL_def USR_FLAG_NOLOGIN_def USR_FLAG_LOCKED_def)

lemma load_line:
  assumes ok: "user_ok u" and st: "storable u"
    and b: "beyond < length (user_line u @ r)" and n: "n < 64"
  shows "load_users beyond db (user_line u @ r) n =
    Option.bind (load_user db (cstr (name u) @ [0]) (fmt_dec (ucast (uid u))) (fmt_dec (ucast (gid u)))
      (cstr (flag_text (flags u)) @ [0]) (cstr (home u) @ [0]) (cstr (shell u) @ [0])
      (fmt_hex64 (pw_salt u)) (fmt_hex64 (pw_hash u))) (\<lambda>db. load_users beyond db r (n + 1))"
proof -
  obtain d1 where d1: "fmt_dec (ucast (uid u)) = d1 @ [0]" "token d1" "length d1 < 16" using fmt_dec_shape by blast
  obtain d2 where d2: "fmt_dec (ucast (gid u)) = d2 @ [0]" "token d2" "length d2 < 16" using fmt_dec_shape by blast
  obtain h1 where h1: "fmt_hex64 (pw_salt u) = h1 @ [0]" "token h1" "length h1 = 16" using fmt_hex_shape by blast
  obtain h2 where h2: "fmt_hex64 (pw_hash u) = h2 @ [0]" "token h2" "length h2 = 16" using fmt_hex_shape by blast
  have z: "0 \<notin> set t" if "token t" for t using that by (auto simp: token_def)
  have c: "cstr (t @ [0]) = t" if "token t" for t using cstr_of_literal[of t "[]"] z[OF that] by simp
  let ?p = "user_line u @ r"
  have p: "?p = cstr (name u) @ 32 # d1 @ 32 # d2 @ 32 # cstr (flag_text (flags u)) @ 32 # cstr (home u) @
      32 # cstr (shell u) @ 32 # h1 @ 32 # h2 @ 10 # r"
    by (simp add: user_line_def d1(1) d2(1) h1(1) h2(1) c d1(2) d2(2) h1(2) h2(2))
  have tk: "token (cstr (name u))" "length (cstr (name u)) < USR_NAME_LEN" "token (cstr (home u))"
    "length (cstr (home u)) < USR_HOME_LEN" "token (cstr (shell u))" "length (cstr (shell u)) < USR_SHELL_LEN"
    using st ok terminated_length[of "name u"] terminated_length[of "home u"] terminated_length[of "shell u"]
    by (simp_all add: storable_def user_ok_def USR_NAME_LEN_def USR_HOME_LEN_def USR_SHELL_LEN_def)
  obtain x s where xs: "cstr (name u) = x # s" using tk(1) by (cases "cstr (name u)") (auto simp: token_def)
  have "hd (name u) = x" using xs by (cases "name u") (auto split: if_splits)
  then have x: "x \<noteq> 0" "\<not> u_isspace x" "x \<noteq> 35" using xs tk(1) st by (auto simp: token_def storable_def)
  have hd: "hd ?p = x" by (simp add: p xs)
  have sk: "skip_ws ?p = Some ?p" using x by (simp add: p xs)
  have sp: "u_isspace 32" "u_isspace 10" by (simp_all add: u_isspace_def)
  have x10: "x \<noteq> 10" using x(2) by (auto simp: u_isspace_def)
  note rt = read_tok_token
  have r1: "read_tok ?p USR_NAME_LEN = Some (cstr (name u), 32 # d1 @ 32 # d2 @ 32 # cstr (flag_text (flags u)) @
      32 # cstr (home u) @ 32 # cstr (shell u) @ 32 # h1 @ 32 # h2 @ 10 # r)"
    unfolding p by (rule rt(1)[OF tk(1,2)]) (simp add: sp)
  note r2 = rt(2)[OF d1(2,3), of 32] and r3 = rt(2)[OF d2(2,3), of 32]
    and r4 = rt(2)[OF flag_text_token, of 32 "flags u"] and r5 = rt(2)[OF tk(3,4), of 32]
    and r6 = rt(2)[OF tk(5,6), of 32] and r7 = rt(2)[OF h1(2), of 20 32] and r8 = rt(2)[OF h2(2), of 20 10]
  have ne: "cstr (name u) \<noteq> []" "d1 \<noteq> []" "d2 \<noteq> []" using tk(1) d1(2) d2(2) by (auto simp: token_def)
  have "\<not> (length ?p \<le> beyond \<or> hd ?p = 0 \<or> n \<ge> int USR_MAX_USERS)"
    using b n hd x(1) by (simp add: USR_MAX_USERS_def)
  then show ?thesis
    using hd x x10 sk r1 ne
    by (subst load_users.simps) (simp add: sp r2 r3 r4 r5 r6 r7 r8 h1(3) h2(3) d1(1) d2(1) h1(1) h2(1))
qed

subsection \<open>Restoring an account\<close>

definition persisted :: "asd_user \<Rightarrow> u16 \<times> u16 \<times> u32 \<times> u8 list \<times> u8 list \<times> u8 list \<times> u64 \<times> u64" where
  "persisted u = (uid u, gid u, flags u, cstr (name u), cstr (home u), cstr (shell u), pw_salt u, pw_hash u)"

lemma grp_add_ok:
  assumes ok: "usr_ok db" and t: "terminated nm"
  shows "\<exists>rc db'. grp_add db g nm = Some (rc, db') \<and> usr_ok db' \<and> g_users db' = g_users db"
proof -
  obtain n where n: "u_strncpy (replicate USR_NAME_LEN 0) nm USR_NAME_LEN = Some n" "length n = 32" "terminated n"
    using u_strncpy_ok[OF t, of "replicate 32 0" 32] by (auto simp: USR_NAME_LEN_def)
  have "grp_find_by_gid db g = None \<Longrightarrow> g \<notin> grp_gid ` set (g_groups db)"
    by (auto simp: grp_find_by_gid_def first_idx_None)
  then show ?thesis
    using ok n by (auto simp: grp_add_def grp_find_by_name_eq[OF ok t] usr_ok_def group_ok_def USR_MAX_GROUPS_def)
qed

lemma usr_ok_upd:
  assumes "usr_ok db" and i: "i < length (g_users db)"
    and f: "\<And>x. uid (f x) = uid x" "\<And>x. name (f x) = name x" "\<And>x. home (f x) = home x" "\<And>x. shell (f x) = shell x"
  shows "usr_ok (upd_user i f db)"
proof -
  have "user_ok x" if x: "x \<in> set ((g_users db)[i := f (g_users db ! i)])" for x
  proof -
    have "x = f (g_users db ! i) \<or> x \<in> set (g_users db)" using x set_update_subset_insert by fastforce
    then show ?thesis using usr_okD(2)[OF assms(1)] i f by (auto simp: user_ok_def)
  qed
  then show ?thesis using assms by (simp add: usr_ok_def upd_user_def map_upd_same)
qed

lemma set_credentials:
  assumes "is_hex64 a = Some True" "parse_hex64 a = Some s" "is_hex64 b = Some True" "parse_hex64 b = Some h"
  shows "(do {
          x \<leftarrow> is_hex64 a;
          db \<leftarrow> (if x then map_option (\<lambda>v. upd_user i (\<lambda>x. x\<lparr>pw_salt := v\<rparr>) db) (parse_hex64 a) else Some db);
          y \<leftarrow> is_hex64 b;
          (if y then map_option (\<lambda>v. upd_user i (\<lambda>x. x\<lparr>pw_hash := v\<rparr>) db) (parse_hex64 b) else Some db) }) =
     Some (upd_user i (\<lambda>x. x\<lparr>pw_hash := h\<rparr>) (upd_user i (\<lambda>x. x\<lparr>pw_salt := s\<rparr>) db))"
  using assms by simp

lemma ucast_u16_u32 [simp]: "(ucast (ucast x :: u32) :: u16) = x"
  by (rule bit_word_eqI) (auto simp: bit_simps dest: bit_imp_le_length)

text \<open>What is left of \<^verbatim>\<open>load_user\<close> once the numbers and flags were parsed and the group exists.\<close>

definition load_tail :: "asd_user \<Rightarrow> usr_db \<Rightarrow> u8 list \<Rightarrow> u8 list \<Rightarrow> u8 list \<Rightarrow> u8 list \<Rightarrow> u8 list \<Rightarrow> usr_db option" where
  "load_tail u db1 nm hm sh a b =
      Option.bind (if usr_find_by_uid db1 (uid u) \<noteq> None then Some db1
           else do {
             f \<leftarrow> usr_find_by_name db1 nm;
             if f \<noteq> None then Some db1
             else map_option snd (usr_add db1 (uid u) (gid u) (Some nm) (Some [0]) (flags u)
                    (if hd hm \<noteq> 0 then Some hm else None) (if hd sh \<noteq> 0 then Some sh else None)) })
        (\<lambda>db. case usr_find_by_uid db (uid u) of
            None \<Rightarrow> Some db
          | Some i \<Rightarrow> do {
              x \<leftarrow> is_hex64 a;
              db \<leftarrow> (if x then map_option (\<lambda>v. upd_user i (\<lambda>x. x\<lparr>pw_salt := v\<rparr>) db) (parse_hex64 a) else Some db);
              y \<leftarrow> is_hex64 b;
              (if y then map_option (\<lambda>v. upd_user i (\<lambda>x. x\<lparr>pw_hash := v\<rparr>) db) (parse_hex64 b) else Some db) })"

lemma load_user_head:
  assumes ok: "usr_ok db" and st: "storable u"
  shows "\<exists>db1. usr_ok db1 \<and> g_users db1 = g_users db \<and>
    (\<forall>nm hm sh a b. load_user db nm (fmt_dec (ucast (uid u))) (fmt_dec (ucast (gid u))) (cstr (flag_text (flags u)) @ [0]) hm sh a b =
       load_tail u db1 nm hm sh a b)"
proof -
  have "\<exists>db1. (if grp_find_by_gid db (gid u) = None then map_option snd (grp_add db (gid u) (str ''unknown'')) else Some db) =
      Some db1 \<and> usr_ok db1 \<and> g_users db1 = g_users db"
    using grp_add_ok[OF ok, of "str ''unknown''" "gid u"] ok by auto
  then obtain db1 where db1: "(if grp_find_by_gid db (gid u) = None then map_option snd (grp_add db (gid u) (str ''unknown'')) else Some db) =
      Some db1" "usr_ok db1" "g_users db1 = g_users db" by blast
  have fl: "flag_value (cstr (flag_text (flags u)) @ [0]) = Some (flags u)"
    using flag_value_text st by (simp add: storable_def)
  have "load_user db nm (fmt_dec (ucast (uid u))) (fmt_dec (ucast (gid u))) (cstr (flag_text (flags u)) @ [0]) hm sh a b =
      load_tail u db1 nm hm sh a b" for nm hm sh a b
    by (simp only: load_user_def load_tail_def u_atou_dec fl db1(1) bind.bind_lunit Let_def ucast_u16_u32)
  then show ?thesis using db1(2,3) by blast
qed

lemma load_user_new:
  assumes ok: "usr_ok db" and u: "user_ok u" "storable u" and new: "uid u \<notin> uid ` set (g_users db)"
    "cstr (name u) \<notin> (\<lambda>x. cstr (name x)) ` set (g_users db)" and n: "length (g_users db) < 64"
  shows "\<exists>db' x. load_user db (cstr (name u) @ [0]) (fmt_dec (ucast (uid u))) (fmt_dec (ucast (gid u)))
      (cstr (flag_text (flags u)) @ [0]) (cstr (home u) @ [0]) (cstr (shell u) @ [0])
      (fmt_hex64 (pw_salt u)) (fmt_hex64 (pw_hash u)) = Some db' \<and> usr_ok db' \<and>
    g_users db' = g_users db @ [x] \<and> persisted x = persisted u"
proof -
  obtain db1 where db1: "usr_ok db1" "g_users db1 = g_users db" and lu: "\<And>nm hm sh a b. load_user db nm
      (fmt_dec (ucast (uid u))) (fmt_dec (ucast (gid u))) (cstr (flag_text (flags u)) @ [0]) hm sh a b = load_tail u db1 nm hm sh a b"
    using load_user_head[OF ok u(2)] by blast
  let ?nm = "cstr (name u) @ [0]" and ?hm = "cstr (home u) @ [0]" and ?sh = "cstr (shell u) @ [0]"
  have lens: "length (cstr (name u)) < 32" "length (cstr (home u)) < 64" "length (cstr (shell u)) < 64"
    using u(1) terminated_length[of "name u"] terminated_length[of "home u"] terminated_length[of "shell u"]
    by (auto simp: user_ok_def)
  have c: "cstr ?nm = cstr (name u)" "cstr ?hm = cstr (home u)" "cstr ?sh = cstr (shell u)"
    using cstr_of_literal[OF cstr_nonzero, of _ "[]"] by simp_all
  have hd: "hd ?hm \<noteq> 0" "hd ?sh \<noteq> 0" "cstr (name u) \<noteq> []"
    using u(2) by (auto simp: storable_def token_def hd_append)
  have none: "usr_find_by_uid db1 (uid u) = None" "usr_find_by_name db1 ?nm = Some None"
    using new usr_find_by_uid_None[of db1] usr_find_by_name_eq[OF db1(1), of ?nm] db1(2) c(1)
    by (auto simp: first_idx_None image_iff eq_commute[of "cstr (name u)"])
  obtain rc db2 x where db2: "usr_add db1 (uid u) (gid u) (Some ?nm) (Some [0]) (flags u) (Some ?hm) (Some ?sh) = Some (rc, db2)"
    "usr_ok db2" "g_users db2 = g_users db @ [x]" "same_account x (uid u) (gid u) (flags u) ?nm ?hm ?sh"
    using usr_add_ok[OF db1(1), of ?nm "Some [0]" "Some ?hm" "Some ?sh" "uid u" "gid u" "flags u"] c lens(1) new n db1(2) hd(3)
    by auto
  let ?i = "length (g_users db)"
  have fi: "usr_find_by_uid db2 (uid u) = Some ?i"
    using usr_find_by_uid_Some[OF db2(2)] db2(3,4) by (simp add: same_account_def)
  let ?db' = "upd_user ?i (\<lambda>x. x\<lparr>pw_hash := pw_hash u\<rparr>) (upd_user ?i (\<lambda>x. x\<lparr>pw_salt := pw_salt u\<rparr>) db2)"
  have hx: "is_hex64 (fmt_hex64 v) = Some True" for v using fmt_hex_shape[of v] by auto
  have run: "load_user db ?nm (fmt_dec (ucast (uid u))) (fmt_dec (ucast (gid u)))
      (cstr (flag_text (flags u)) @ [0]) ?hm ?sh (fmt_hex64 (pw_salt u)) (fmt_hex64 (pw_hash u)) = Some ?db'"
    unfolding lu load_tail_def using none db2(1) fi hd set_credentials[OF hx parse_fmt_hex64 hx parse_fmt_hex64] by simp
  have ok': "usr_ok ?db'"
  proof (rule usr_ok_upd)
    show "usr_ok (upd_user ?i (\<lambda>x. x\<lparr>pw_salt := pw_salt u\<rparr>) db2)"
      by (rule usr_ok_upd[OF db2(2)]) (simp_all add: db2(3))
  qed (simp_all add: upd_user_def db2(3))
  have us: "g_users ?db' = g_users db @ [x\<lparr>pw_salt := pw_salt u, pw_hash := pw_hash u\<rparr>]"
    by (simp add: upd_user_def db2(3))
  have "persisted (x\<lparr>pw_salt := pw_salt u, pw_hash := pw_hash u\<rparr>) = persisted u"
    using db2(4) c lens by (simp add: persisted_def same_account_def)
  then show ?thesis using run ok' us by blast
qed

lemma load_new_users:
  assumes "usr_ok db" and "\<forall>u\<in>set us. user_ok u \<and> storable u" and "length (g_users db) + length us \<le> 64"
    and "distinct (map uid (g_users db) @ map uid us)"
    and "distinct (map (\<lambda>u. cstr (name u)) (g_users db) @ map (\<lambda>u. cstr (name u)) us)"
    and "0 \<le> n" "n + int (length us) \<le> 64"
  shows "\<exists>db' xs. load_users (length r) db (concat (map user_line us) @ r) n = Some (n + int (length us), db') \<and> usr_ok db' \<and>
    g_users db' = g_users db @ xs \<and> map persisted xs = map persisted us"
  using assms
proof (induction us arbitrary: db n)
  case Nil
  then show ?case by (subst load_users.simps) simp
next
  case (Cons u us)
  have fresh: "uid u \<notin> uid ` set (g_users db)" "cstr (name u) \<notin> (\<lambda>x. cstr (name x)) ` set (g_users db)"
    using Cons.prems(4,5) by auto
  obtain db1 x where db1: "load_user db (cstr (name u) @ [0]) (fmt_dec (ucast (uid u))) (fmt_dec (ucast (gid u)))
      (cstr (flag_text (flags u)) @ [0]) (cstr (home u) @ [0]) (cstr (shell u) @ [0])
      (fmt_hex64 (pw_salt u)) (fmt_hex64 (pw_hash u)) = Some db1" "usr_ok db1" "g_users db1 = g_users db @ [x]"
    "persisted x = persisted u"
    using load_user_new[OF Cons.prems(1) _ _ fresh] Cons.prems(2,3) by auto
  have same: "uid x = uid u" "cstr (name x) = cstr (name u)" using db1(4) by (simp_all add: persisted_def)
  obtain db2 xs where db2: "load_users (length r) db1 (concat (map user_line us) @ r) (n + 1) =
      Some (n + 1 + int (length us), db2)" "usr_ok db2" "g_users db2 = g_users db1 @ xs" "map persisted xs = map persisted us"
    using Cons.IH[OF db1(2), of "n + 1"] Cons.prems same db1(3) by auto
  have "load_users (length r) db (concat (map user_line (u # us)) @ r) n =
      Option.bind (load_user db (cstr (name u) @ [0]) (fmt_dec (ucast (uid u))) (fmt_dec (ucast (gid u)))
      (cstr (flag_text (flags u)) @ [0]) (cstr (home u) @ [0]) (cstr (shell u) @ [0])
      (fmt_hex64 (pw_salt u)) (fmt_hex64 (pw_hash u))) (\<lambda>db. load_users (length r) db (concat (map user_line us) @ r) (n + 1))"
    using load_line[of u "length r" "concat (map user_line us) @ r" n db] Cons.prems(2,7)
    by (simp add: user_line_def)
  then show ?case using db1 db2 by (intro exI[of _ db2] exI[of _ "x # xs"]) (simp add: algebra_simps)
qed

lemma load_user_known:
  assumes ok: "usr_ok db" and u: "storable u" and i: "i < length (g_users db)" "uid (g_users db ! i) = uid u"
  shows "\<exists>db'. load_user db nm (fmt_dec (ucast (uid u))) (fmt_dec (ucast (gid u))) (cstr (flag_text (flags u)) @ [0]) hm sh
      (fmt_hex64 (pw_salt u)) (fmt_hex64 (pw_hash u)) = Some db' \<and> usr_ok db' \<and>
    g_users db' = (g_users db)[i := (g_users db ! i)\<lparr>pw_salt := pw_salt u, pw_hash := pw_hash u\<rparr>]"
proof -
  obtain db1 where db1: "usr_ok db1" "g_users db1 = g_users db" and lu: "\<And>nm hm sh a b. load_user db nm
      (fmt_dec (ucast (uid u))) (fmt_dec (ucast (gid u))) (cstr (flag_text (flags u)) @ [0]) hm sh a b = load_tail u db1 nm hm sh a b"
    using load_user_head[OF ok u] by blast
  have f: "usr_find_by_uid db1 (uid u) = Some i" using usr_find_by_uid_Some[OF db1(1)] i db1(2) by simp
  have hx: "is_hex64 (fmt_hex64 v) = Some True" for v using fmt_hex_shape[of v] by auto
  let ?db' = "upd_user i (\<lambda>x. x\<lparr>pw_hash := pw_hash u\<rparr>) (upd_user i (\<lambda>x. x\<lparr>pw_salt := pw_salt u\<rparr>) db1)"
  have "load_user db nm (fmt_dec (ucast (uid u))) (fmt_dec (ucast (gid u))) (cstr (flag_text (flags u)) @ [0]) hm sh
      (fmt_hex64 (pw_salt u)) (fmt_hex64 (pw_hash u)) = Some ?db'"
    unfolding lu load_tail_def using f set_credentials[OF hx parse_fmt_hex64 hx parse_fmt_hex64] by simp
  moreover have "usr_ok ?db'"
  proof (rule usr_ok_upd)
    show "usr_ok (upd_user i (\<lambda>x. x\<lparr>pw_salt := pw_salt u\<rparr>) db1)"
      by (rule usr_ok_upd[OF db1(1)]) (simp_all add: db1(2) i)
  qed (simp_all add: upd_user_def db1(2) i)
  moreover have "g_users ?db' = (g_users db)[i := (g_users db ! i)\<lparr>pw_salt := pw_salt u, pw_hash := pw_hash u\<rparr>]"
    using i by (simp add: upd_user_def db1(2))
  ultimately show ?thesis by blast
qed


end
