(* ===== verification/Usr_Load.thy ===== *)
theory Usr_Load
  imports Usr_Roundtrip
begin

text \<open>
  The loader of the account file on arbitrary text, and the writer on small buffers.
\<close>

subsection \<open>Termination of the loader\<close>

lemma skip_ws_total:
  "terminated p \<Longrightarrow> \<exists>q. skip_ws p = Some q \<and> terminated q \<and> length q \<le> length p \<and>
     (hd q = 10 \<or> hd q = 0 \<or> \<not> u_isspace (hd q))"
proof (induction p)
  case (Cons c p)
  show ?case
  proof (cases "c \<noteq> 0 \<and> u_isspace c \<and> c \<noteq> 10")
    case True
    with Cons.prems have "terminated p" by simp
    from Cons.IH[OF this] obtain q where "skip_ws p = Some q" "terminated q" "length q \<le> length p"
      "hd q = 10 \<or> hd q = 0 \<or> \<not> u_isspace (hd q)" by blast
    then show ?thesis using True by auto
  next
    case False
    then show ?thesis using Cons.prems by auto
  qed
qed simp

lemma tok_loop_total:
  "terminated p \<Longrightarrow> \<exists>t q. tok_loop p k = Some (t, q) \<and> terminated q \<and> length t + length q = length p \<and>
     length t \<le> k \<and> 0 \<notin> set t \<and> (0 < k \<and> hd p \<noteq> 0 \<and> \<not> u_isspace (hd p) \<longrightarrow> t \<noteq> [])"
proof (induction p k rule: tok_loop.induct)
  case (3 c p k)
  show ?case
  proof (cases "c \<noteq> 0 \<and> \<not> u_isspace c")
    case True
    with "3.prems" have "terminated p" by simp
    from "3.IH"[OF True this] obtain t q where "tok_loop p k = Some (t, q)" "terminated q" "length t + length q = length p"
      "length t \<le> k" "0 \<notin> set t" by blast
    then show ?thesis using True by auto
  next
    case False
    then show ?thesis using "3.prems" by auto
  qed
qed auto

lemma next_line_total: "terminated p \<Longrightarrow> \<exists>q. next_line p = Some q \<and> terminated q \<and> length q \<le> length p"
proof (induction p)
  case (Cons c p)
  show ?case
  proof (cases "c \<noteq> 0 \<and> c \<noteq> 10")
    case True
    with Cons obtain q where "next_line p = Some q" "terminated q" "length q \<le> length p" by auto
    then show ?thesis using True by auto
  next
    case False
    then show ?thesis using Cons.prems by auto
  qed
qed simp

lemma next_line_progress:
  assumes "terminated p" "hd p \<noteq> 0"
  shows "\<exists>q. next_line p = Some q \<and> terminated q \<and> length q < length p"
proof -
  obtain c s where p: "p = c # s" "terminated s \<or> c = 0" using assms(1) by (cases p) auto
  then have s: "c \<noteq> 0" "terminated s" using assms(2) by auto
  show ?thesis using next_line_total[OF s(2)] s p(1) by (cases "c = 10") auto
qed

text \<open>Reading a token, and what it leaves of the text.\<close>

definition shorter :: "u8 list \<Rightarrow> u8 list \<Rightarrow> bool" where
  "shorter q p \<longleftrightarrow> terminated q \<and> length q \<le> length p"

lemma read_tok_total:
  "terminated p \<Longrightarrow> \<exists>t q. read_tok p n = Some (t, q) \<and> shorter q p \<and> length t \<le> n - 1 \<and> 0 \<notin> set t"
proof -
  assume "terminated p"
  then obtain p' where p': "skip_ws p = Some p'" "terminated p'" "length p' \<le> length p" using skip_ws_total by blast
  show ?thesis using tok_loop_total[OF p'(2), of "n - 1"] p'(1,3) by (fastforce simp: read_tok_def shorter_def)
qed

lemma read_tok_progress:
  assumes "terminated p" "hd p \<noteq> 0" "\<not> u_isspace (hd p)" "1 < n"
  shows "\<exists>t q. read_tok p n = Some (t, q) \<and> terminated q \<and> length q < length p \<and> length t \<le> n - 1 \<and> 0 \<notin> set t"
proof -
  have "skip_ws p = Some p" using assms by (cases p) auto
  moreover obtain t q where "tok_loop p (n - 1) = Some (t, q)" "terminated q" "length t + length q = length p"
    "length t \<le> n - 1" "0 \<notin> set t" "t \<noteq> []" using tok_loop_total[OF assms(1), of "n - 1"] assms(2-4) by auto
  moreover from this have "length q < length p" by (metis add_diff_cancel_left' diff_less length_greater_0_conv trans_less_add1)
  ultimately show ?thesis by (simp add: read_tok_def)
qed

lemma atou_total: "terminated s \<Longrightarrow> \<exists>v. atou_from a s = Some v"
  by (induction s arbitrary: a) (auto simp: u_isdigit_def)

lemma hex_run_total: "terminated s \<Longrightarrow> \<exists>x. hex_run k s = Some x"
  by (induction k s rule: hex_run.induct) (auto simp: is_hex_digit_def word_le_nat_alt)

lemma parse_hex_total: "terminated s \<Longrightarrow> \<exists>x. parse_hex_from k v s = Some x"
  by (induction k v s rule: parse_hex_from.induct) (auto split: option.splits)

lemma flag_value_total: "terminated s \<Longrightarrow> \<exists>x. flag_value s = Some x"
  using u_strcmp_terminated[of s "str ''wheel''"] u_strcmp_terminated[of s "str ''nologin''"]
    u_strcmp_terminated[of s "str ''locked''"] by (auto simp: flag_value_def)

lemma find_bound: "usr_find_by_uid db u = Some i \<Longrightarrow> i < length (g_users db)"
  by (simp add: usr_find_by_uid_def first_idx_bound)

lemma load_user_total:
  assumes ok: "usr_ok db" and nm: "terminated nm" "length (cstr nm) < 32"
    and t: "terminated a" "terminated b" "terminated c" "terminated d" "terminated e" "terminated s" "terminated h"
  shows "\<exists>db'. load_user db nm a b c d e s h = Some db' \<and> usr_ok db'"
proof -
  obtain uv gv fl where v: "u_atou a = Some uv" "u_atou b = Some gv" "flag_value c = Some fl"
    using atou_total[OF t(1)] atou_total[OF t(2)] flag_value_total[OF t(3)] unfolding u_atou_def by blast
  obtain hs hh where hx: "is_hex64 s = Some hs" "is_hex64 h = Some hh"
    using hex_run_total[OF t(6)] hex_run_total[OF t(7)] unfolding is_hex64_def by blast
  obtain ps ph where px: "parse_hex64 s = Some ps" "parse_hex64 h = Some ph"
    using parse_hex_total[OF t(6)] parse_hex_total[OF t(7)] unfolding parse_hex64_def by blast
  let ?g = "ucast gv :: u16" and ?u = "ucast uv :: u16"
  obtain db1 where db1: "(if grp_find_by_gid db ?g = None then map_option snd (grp_add db ?g (str ''unknown'')) else Some db) = Some db1"
    "usr_ok db1" using grp_add_ok[OF ok, of "str ''unknown''" ?g] ok by (cases "grp_find_by_gid db ?g = None") auto
  let ?add = "usr_add db1 ?u ?g (Some nm) (Some [0]) fl (if hd d \<noteq> 0 then Some d else None) (if hd e \<noteq> 0 then Some e else None)"
  have pd: "\<And>p. (if hd d \<noteq> 0 then Some d else None) = Some p \<Longrightarrow> terminated p"
    and pe: "\<And>p. (if hd e \<noteq> 0 then Some e else None) = Some p \<Longrightarrow> terminated p"
    using t(4,5) by (simp_all split: if_splits)
  have pw: "\<And>p. Some [0::u8] = Some p \<Longrightarrow> terminated p" by simp
  obtain rc db2 where add: "?add = Some (rc, db2)" "usr_ok db2"
    using usr_add_ok[where u = ?u and g = ?g and fl = fl, OF db1(2) nm pw pd pe] by blast
  obtain f where f: "usr_find_by_name db1 nm = Some f" using usr_find_by_name_eq[OF db1(2) nm(1)] by blast
  obtain db3 where db3: "(if usr_find_by_uid db1 ?u \<noteq> None then Some db1
           else do { f \<leftarrow> usr_find_by_name db1 nm; if f \<noteq> None then Some db1 else map_option snd ?add }) = Some db3" "usr_ok db3"
    using f add db1(2) by (cases "usr_find_by_uid db1 ?u = None"; cases "f = None") simp_all
  have "\<exists>db'. (case usr_find_by_uid db3 ?u of None \<Rightarrow> Some db3
      | Some i \<Rightarrow> do {
          a \<leftarrow> is_hex64 s;
          db \<leftarrow> (if a then map_option (\<lambda>v. upd_user i (\<lambda>x. x\<lparr>pw_salt := v\<rparr>) db3) (parse_hex64 s) else Some db3);
          b \<leftarrow> is_hex64 h;
          (if b then map_option (\<lambda>v. upd_user i (\<lambda>x. x\<lparr>pw_hash := v\<rparr>) db) (parse_hex64 h) else Some db) }) = Some db' \<and> usr_ok db'"
  proof (cases "usr_find_by_uid db3 ?u")
    case None
    then show ?thesis using db3(2) by simp
  next
    case (Some i)
    have i: "i < length (g_users db3)" by (rule find_bound[OF Some])
    have s: "usr_ok (if hs then upd_user i (\<lambda>x. x\<lparr>pw_salt := ps\<rparr>) db3 else db3)"
      using usr_ok_upd[OF db3(2) i, of "\<lambda>x. x\<lparr>pw_salt := ps\<rparr>"] db3(2) by simp
    have "usr_ok (upd_user i (\<lambda>x. x\<lparr>pw_hash := ph\<rparr>) (if hs then upd_user i (\<lambda>x. x\<lparr>pw_salt := ps\<rparr>) db3 else db3))"
      using i by (intro usr_ok_upd[OF s]) (simp_all add: upd_user_def)
    then show ?thesis using Some hx px s by (simp split: if_splits)
  qed
  then show ?thesis using v db1(1) db3(1) unfolding load_user_def Let_def by (simp only: bind.bind_lunit)
qed

lemma load_users_total:
  "terminated p \<Longrightarrow> usr_ok db \<Longrightarrow> \<exists>k db'. load_users beyond db p n = Some (k, db') \<and> usr_ok db'"
proof (induction "length p" arbitrary: p db n rule: less_induct)
  case less
  show ?case
  proof (cases "length p \<le> beyond \<or> hd p = 0 \<or> n \<ge> int USR_MAX_USERS")
    case True
    then show ?thesis using less.prems(2) by (subst load_users.simps) auto
  next
    case False
    obtain q where q: "skip_ws p = Some q" "terminated q" "length q \<le> length p" "hd q = 10 \<or> hd q = 0 \<or> \<not> u_isspace (hd q)"
      using skip_ws_total[OF less.prems(1)] by blast
    show ?thesis
    proof (cases "hd q = 35 \<or> hd q = 10 \<or> hd q = 0")
      case True
      have step: "load_users beyond db p n = Option.bind (next_line q) (\<lambda>p. load_users beyond db p n)"
        using False True q(1) by (subst load_users.simps) auto
      show ?thesis
      proof (cases "hd q = 0")
        case True
        then have "next_line q = Some q" using q(2) by (cases q) auto
        then have "load_users beyond db p n = Some (n, db)"
          unfolding step using True by (subst load_users.simps) simp
        then show ?thesis using less.prems(2) by blast
      next
        case False
        then obtain r where "next_line q = Some r" "terminated r" "length r < length q" using next_line_progress q(2) by blast
        then show ?thesis using step less.hyps[of r db n] less.prems(2) q(3) by auto
      qed
    next
      case tok: False
      then have h: "hd q \<noteq> 0" "\<not> u_isspace (hd q)" using q(4) by auto
      obtain t1 q1 where t1: "read_tok q USR_NAME_LEN = Some (t1, q1)" "terminated q1" "length q1 < length q" "length t1 \<le> 31" "0 \<notin> set t1"
        using read_tok_progress[OF q(2) h, of USR_NAME_LEN] by (auto simp: USR_NAME_LEN_def)
      obtain t2 q2 where t2: "read_tok q1 16 = Some (t2, q2)" "shorter q2 q1" using read_tok_total[OF t1(2)] by blast
      obtain t3 q3 where t3: "read_tok q2 16 = Some (t3, q3)" "shorter q3 q2" using read_tok_total t2(2) by (meson shorter_def)
      obtain t4 q4 where t4: "read_tok q3 32 = Some (t4, q4)" "shorter q4 q3" using read_tok_total t3(2) by (meson shorter_def)
      obtain t5 q5 where t5: "read_tok q4 USR_HOME_LEN = Some (t5, q5)" "shorter q5 q4" using read_tok_total t4(2) by (meson shorter_def)
      obtain t6 q6 where t6: "read_tok q5 USR_SHELL_LEN = Some (t6, q6)" "shorter q6 q5" using read_tok_total t5(2) by (meson shorter_def)
      obtain t7 q7 where t7: "read_tok q6 20 = Some (t7, q7)" "shorter q7 q6" using read_tok_total t6(2) by (meson shorter_def)
      obtain t8 q8 where t8: "read_tok q7 20 = Some (t8, q8)" "shorter q8 q7" using read_tok_total t7(2) by (meson shorter_def)
      have q8: "terminated q8" "length q8 < length p"
        using t8(2) t7(2) t6(2) t5(2) t4(2) t3(2) t2(2) t1(3) q(3) by (auto simp: shorter_def)
      obtain r where r: "next_line q8 = Some r" "terminated r" "length r \<le> length q8" using next_line_total[OF q8(1)] by blast
      have lr: "length r < length p" using r(3) q8(2) by simp
      have c1: "cstr (t1 @ [0]) = t1" using cstr_of_literal[OF t1(5), of "[]"] by simp
      obtain db2 where db2: "load_user db (t1 @ [0]) (t2 @ [0]) (t3 @ [0]) (t4 @ [0]) (t5 @ [0]) (t6 @ [0]) (t7 @ [0]) (t8 @ [0]) = Some db2"
        "usr_ok db2"
        using load_user_total[OF less.prems(2), of "t1 @ [0]" "t2 @ [0]" "t3 @ [0]" "t4 @ [0]" "t5 @ [0]" "t6 @ [0]" "t7 @ [0]" "t8 @ [0]"]
          c1 t1(4) by auto
      have "load_users beyond db p n = (if t1 = [] \<or> t2 = [] \<or> t3 = [] then load_users beyond db r n
          else load_users beyond db2 r (n + 1))"
        using False tok q(1) t1(1) t2(1) t3(1) t4(1) t5(1) t6(1) t7(1) t8(1) r(1) db2(1)
        by (subst load_users.simps) simp
      then show ?thesis using less.hyps[OF lr r(2)] less.prems(2) db2(2) by simp
    qed
  qed
qed

text \<open>
  C28: the loader terminates without a fault on every terminated text, whatever the text and the
  stated length are, and leaves the account tables well formed.
\<close>

theorem usr_load_passwd_total:
  assumes "usr_ok db" and "terminated b"
  shows "\<exists>k db'. usr_load_passwd db (Some b) len = Some (k, db') \<and> usr_ok db'"
  using assms load_users_total by (auto simp: usr_load_passwd_def)

subsection \<open>Small buffers\<close>

text \<open>\<open>grows k p m\<close>: if the output \<open>m\<close> exists, it is at least \<open>k\<close> bytes past \<open>p\<close> in the same buffer.\<close>

definition grows :: "nat \<Rightarrow> out \<Rightarrow> out option \<Rightarrow> bool" where
  "grows k p m \<longleftrightarrow> (\<forall>q. m = Some q \<longrightarrow> snd p + k \<le> snd q \<and> length (fst q) = length (fst p))"

lemma grows_bind: "grows j p m \<Longrightarrow> (\<And>q. grows k q (f q)) \<Longrightarrow> grows (j + k) p (Option.bind m f)"
  by (cases m) (fastforce simp: grows_def)+

lemma grows_Some: "grows 0 p (Some p)"
  by (simp add: grows_def)

lemma put_char_grows: "grows 1 p (put_char c p)"
  by (simp add: grows_def put_char_def)

lemma put_str_grows: "grows 0 p (put_str lim s p)"
proof (induction lim s p rule: put_str.induct)
  case (2 lim c s p)
  then show ?case using put_char_grows[of p c] by (cases "put_char c p") (auto simp: grows_def)
qed (simp add: grows_def)

lemma grows_field: "(\<And>q. grows k q (f q)) \<Longrightarrow> grows (Suc k) p (put_str lim s p \<bind> (\<lambda>q. put_char c q \<bind> f))"
  using grows_bind[OF put_str_grows grows_bind[OF put_char_grows]] by simp

lemma write_user_grows: "grows 7 p (write_user sz u p)"
proof -
  have "grows 0 q (if snd q < sz - 1 then put_char 10 q else Some q)" for q
    by (simp add: grows_def put_char_def)
  then have "grows 0 q (put_str lim s q \<bind> (\<lambda>o1. if snd o1 < sz - 1 then put_char 10 o1 else Some o1))" for q lim s
    using grows_bind[OF put_str_grows, where k = 0] by simp
  then have "grows (Suc (Suc (Suc (Suc (Suc (Suc (Suc 0))))))) p (write_user sz u p)"
    unfolding write_user_def Let_def by (intro grows_field)
  then show ?thesis by (simp add: numeral_eq_Suc)
qed

lemma write_users_grows: "grows (7 * length us) p (write_users sz us p)"
proof (induction us arbitrary: p)
  case (Cons u us)
  show ?case using grows_bind[OF write_user_grows Cons.IH] by simp
qed (simp add: grows_Some)

lemma growsD: "grows k p (Some q) \<Longrightarrow> snd p + k \<le> snd q \<and> length (fst q) = length (fst p)"
  by (simp add: grows_def)

lemma header_pos: "8 \<le> sz \<Longrightarrow> put_str (sz - 1) (str (''#ASDPW1'' @ [CHR 0x0A])) (b, 0) = Some q \<Longrightarrow> 7 \<le> snd q \<and> length (fst q) = length b"
  by (auto simp: str_def put_char_def split: if_splits)

text \<open>
  C29: the separators between the fields are stored without looking at the end of the buffer. The
  size check of the writer admits any buffer of at least 8 bytes, and a database whose accounts need
  more than its size for the separators alone makes the writer store past the end of the buffer.
\<close>

theorem usr_write_passwd_overruns:
  assumes "8 \<le> length b" and "length b \<le> 7 * length (g_users db) + 7"
  shows "usr_write_passwd db (Some b) (length b) = None"
proof -
  have False if "put_str (length b - 1) (str (''#ASDPW1'' @ [CHR 0x0A])) (b, 0) = Some p"
    "write_users (length b) (g_users db) p = Some q" "put_char 0 q = Some r" for p q r
    using header_pos[OF assms(1) that(1)] growsD[OF write_users_grows[of "g_users db" p "length b", unfolded that(2)]]
      that(3) assms(2) by (simp add: put_char_def split: if_splits)
  then show ?thesis using assms(1) by (fastforce simp: usr_write_passwd_def split: bind_splits)
qed

theorem usr_write_passwd_overruns_witness:
  "usr_write_passwd demo_db (Some (replicate 10 0)) (length (replicate 10 (0::u8))) = None"
  by (rule usr_write_passwd_overruns) (simp_all add: demo_db_def)

theorem usr_load_passwd_total_witness:
  "\<exists>k db'. usr_load_passwd demo_db (Some (str ''eve 1002 100 - / /bin/sh'')) 24 = Some (k, db') \<and> usr_ok db'"
  by (rule usr_load_passwd_total[OF demo_db_ok]) simp

text \<open>Two accounts, the first of them root, and a table with root alone.\<close>

definition root_user :: "u64 \<Rightarrow> asd_user" where
  "root_user h = \<lparr>uid = 0, gid = 0, flags = USR_FLAG_WHEEL, pw_hash = h, pw_salt = 7, name = str ''root'' @ replicate 27 0,
     home = str ''/root'' @ replicate 58 0, shell = str ''/bin/asdsh'' @ replicate 53 0, groups = 0\<rparr>"

lemma demo_users_ok:
  "usr_ok (demo_db\<lparr>g_users := [root_user h, demo_user]\<rparr>)" "usr_ok (demo_db\<lparr>g_users := [root_user h]\<rparr>)"
  by (simp_all add: usr_ok_def demo_db_def demo_user_def root_user_def user_ok_def str_def sec_zero_wf)

lemma demo_text_length: "length (passwd_text (demo_db\<lparr>g_users := [root_user 9, demo_user]\<rparr>)) \<le> 200 - 2"
proof -
  have "length (map of_char (''#ASDPW1'' @ [CHR 0x0A]) @ concat (map user_line [root_user 9, demo_user])) \<le> 198" by code_simp
  then show ?thesis by (simp only: passwd_text_def usr_db.simps) simp
qed


end
