(* ===== verification/Vfs_Path.thy ===== *)
theory Vfs_Path
  imports KString Security
begin

text \<open>
  Path canonicalisation, \<^verbatim>\<open>vfs_canonicalize\<close> of \<^verbatim>\<open>kernel/vfs/vfs.c\<close>: the loop that cuts a path into
  components and keeps a stack of them, and the loop that writes the stack back. Both are
  related to a reference definition on lists of components.

  The components on the stack are pointers into a working copy in which every separator has been
  overwritten by a terminator; here they are the strings they point to.
\<close>

definition VFS_PATH_MAX :: nat where "VFS_PATH_MAX = 256"

subsection \<open>The code\<close>

fun skip_slashes :: "u8 list \<Rightarrow> u8 list option" where
  "skip_slashes [] = None"
| "skip_slashes (c # p) = (if c = 47 then skip_slashes p else Some (c # p))"

fun next_seg :: "u8 list \<Rightarrow> (u8 list \<times> u8 list) option" where
  "next_seg [] = None"
| "next_seg (c # p) =
     (if c = 0 then Some ([], c # p)
      else if c = 47 then Some ([], p)
      else map_option (\<lambda>(s, r). (c # s, r)) (next_seg p))"

text \<open>The inner option is the early return for a full stack.\<close>

partial_function (option) canon_loop :: "u8 list \<Rightarrow> u8 list list \<Rightarrow> u8 list list option option" where
  "canon_loop p stk =
     (if p = [] then None
      else if hd p = 0 then Some (Some stk)
      else do {
        (seg, r) \<leftarrow> next_seg p;
        if seg = [] \<or> seg = [46] then canon_loop r stk
        else if seg = [46, 46] then canon_loop r (if 0 < length stk then butlast stk else stk)
        else if VFS_PATH_MAX div 2 - 1 \<le> length stk then Some None
        else canon_loop r (stk @ [seg])
      })"

declare canon_loop.simps [code]

text \<open>
  Writing the components from index \<open>i\<close> on at position \<open>pos\<close>; the result is the buffer and,
  unless the code gave up, the final position.
\<close>

fun rebuild :: "nat \<Rightarrow> nat \<Rightarrow> u8 list list \<Rightarrow> u8 list \<Rightarrow> nat \<Rightarrow> (nat option \<times> u8 list) option" where
  "rebuild out_sz i [] out1 pos = Some (Some pos, out1)"
| "rebuild out_sz i (s # stk) out1 pos =
     (if pos + length s + 2 > out_sz then Some (None, out1)
      else do {
        (out1, pos) \<leftarrow> (if i > 0 then map_option (\<lambda>b. (b, Suc pos)) (buf_write out1 pos [47]) else Some (out1, pos));
        out1 \<leftarrow> buf_write out1 pos s;
        rebuild out_sz (Suc i) stk out1 (pos + length s)
      })"

definition vfs_canonicalize :: "u8 list option \<Rightarrow> u8 list \<Rightarrow> nat \<Rightarrow> (int \<times> u8 list) option" where
  "vfs_canonicalize path out1 out_sz =
     (case path of
        None \<Rightarrow> Some (-1, out1)
      | Some path \<Rightarrow>
          if out_sz = 0 then Some (-1, out1)
          else do {
            plen \<leftarrow> strlen path;
            if plen \<ge> VFS_PATH_MAX then Some (-1, out1)
            else do {
              work \<leftarrow> buf_read path 0 (plen + 1);
              p \<leftarrow> skip_slashes work;
              stk \<leftarrow> canon_loop p [];
              (case stk of
                 None \<Rightarrow> Some (-1, out1)
               | Some stk \<Rightarrow> do {
                   out1 \<leftarrow> buf_write out1 0 [47];
                   (pos, out1) \<leftarrow> rebuild out_sz 0 stk out1 1;
                   (case pos of
                      None \<Rightarrow> Some (-1, out1)
                    | Some pos \<Rightarrow> do { out1 \<leftarrow> buf_write out1 pos [0]; Some (0, out1) })
                 })
            }
          })"

subsection \<open>Reference definition\<close>

fun split_path :: "u8 list \<Rightarrow> u8 list list" where
  "split_path [] = [[]]"
| "split_path (c # s) =
     (if c = 47 then [] # split_path s
      else (case split_path s of [] \<Rightarrow> [[c]] | x # xs \<Rightarrow> (c # x) # xs))"

definition step_dir :: "u8 list list \<Rightarrow> u8 list \<Rightarrow> u8 list list" where
  "step_dir dirs seg =
     (if seg = [] \<or> seg = [46] then dirs
      else if seg = [46, 46] then butlast dirs
      else dirs @ [seg])"

definition resolve :: "u8 list \<Rightarrow> u8 list list" where
  "resolve s = foldl step_dir [] (split_path s)"

fun join_path :: "u8 list list \<Rightarrow> u8 list" where
  "join_path [] = []"
| "join_path [x] = x"
| "join_path (x # y # xs) = x @ 47 # join_path (y # xs)"

definition canonical :: "u8 list \<Rightarrow> u8 list" where
  "canonical s = 47 # join_path (resolve s)"

definition plain_dir :: "u8 list \<Rightarrow> bool" where
  "plain_dir x \<longleftrightarrow> x \<noteq> [] \<and> x \<noteq> [46] \<and> x \<noteq> [46, 46] \<and> 47 \<notin> set x \<and> 0 \<notin> set x"

subsection \<open>The loops against the reference\<close>

lemma split_path_nonempty [simp]: "split_path s \<noteq> []"
  by (induction s) (auto split: list.splits)

lemma split_path_append: "47 \<notin> set a \<Longrightarrow> split_path (a @ 47 # s) = a # split_path s"
  by (induction a) auto

lemma split_path_plain: "47 \<notin> set a \<Longrightarrow> split_path a = [a]"
  by (induction a) auto

lemma split_path_set: "x \<in> set (split_path s) \<Longrightarrow> 47 \<notin> set x \<and> set x \<subseteq> set s"
  by (induction s arbitrary: x) (fastforce split: if_splits list.splits)+

lemma next_seg_eq:
  assumes "0 \<notin> set s"
  shows "next_seg (s @ 0 # r) = Some (if 47 \<in> set s then (takeWhile (\<lambda>c. c \<noteq> 47) s, tl (dropWhile (\<lambda>c. c \<noteq> 47) s) @ 0 # r)
    else (s, 0 # r))"
  using assms by (induction s) auto

lemma canon_loop_end [simp]: "canon_loop (0 # r) stk = Some (Some stk)"
  by (subst canon_loop.simps) simp

lemma step_dir_simps [simp]:
  "step_dir d [] = d" "step_dir d [46] = d" "step_dir d [46, 46] = butlast d"
  by (simp_all add: step_dir_def)

text \<open>The room a list of components takes, each with one separator.\<close>

definition room :: "u8 list list \<Rightarrow> nat" where
  "room xs = sum_list (map (\<lambda>x. Suc (length x)) xs)"

lemma room_simps [simp]: "room [] = 0" "room (x # xs) = Suc (length x) + room xs" "room (xs @ ys) = room xs + room ys"
  by (simp_all add: room_def)

lemma room_butlast: "room (butlast xs) \<le> room xs"
  by (induction xs) auto

lemma room_step: "room (step_dir stk seg) \<le> room stk + Suc (length seg)"
  using room_butlast[of stk] by (simp add: step_dir_def)

lemma room_ge: "\<forall>x\<in>set xs. x \<noteq> [] \<Longrightarrow> 2 * length xs \<le> room xs"
proof (induction xs)
  case (Cons x xs)
  then show ?case by (cases x) auto
qed simp

lemma step_dir_nonempty: "\<forall>x\<in>set stk. x \<noteq> [] \<Longrightarrow> x \<in> set (step_dir stk seg) \<Longrightarrow> x \<noteq> []"
  by (auto simp: step_dir_def split: if_splits dest: in_set_butlastD)

lemma canon_loop_step:
  assumes "p \<noteq> []" "hd p \<noteq> 0" "next_seg p = Some (seg, r)"
  shows "canon_loop p stk = (if seg \<notin> {[], [46], [46, 46]} \<and> 127 \<le> length stk then Some None
    else canon_loop r (step_dir stk seg))"
  using assms by (subst canon_loop.simps) (auto simp: step_dir_def VFS_PATH_MAX_def)

lemma canon_loop_eq:
  assumes "0 \<notin> set s" "room stk + length s \<le> 255" "\<forall>x\<in>set stk. x \<noteq> []"
  shows "canon_loop (s @ 0 # r) stk = Some (Some (foldl step_dir stk (split_path s))) \<or>
    canon_loop (s @ 0 # r) stk = Some None \<and> 256 \<le> room (foldl step_dir stk (split_path s))"
  using assms
proof (induction "length s" arbitrary: s stk rule: less_induct)
  case less
  show ?case
  proof (cases "s = []")
    case False
    then have hd: "hd (s @ 0 # r) \<noteq> 0" using less.prems(1) by (cases s) auto
    have full: "room stk = 254 \<and> length s = 1" if "127 \<le> length stk"
    proof -
      have "1 \<le> length s" using False by (cases s) auto
      then show ?thesis using room_ge[OF less.prems(3)] that less.prems(2) by linarith
    qed
    show ?thesis
    proof (cases "47 \<in> set s")
      case True
      then obtain seg s' where s: "s = seg @ 47 # s'" "47 \<notin> set seg" by (meson split_list_first)
      have seg: "next_seg (s @ 0 # r) = Some (seg, s' @ 0 # r)"
        using next_seg_eq[OF less.prems(1), of r] s by (simp add: takeWhile_append dropWhile_append)
      have room: "room (step_dir stk seg) + length s' \<le> 255" using room_step[of stk seg] less.prems(2) s(1) by simp
      have "\<not> (seg \<notin> {[], [46], [46, 46]} \<and> 127 \<le> length stk)" using full s(1) by auto
      then have "canon_loop (s @ 0 # r) stk = canon_loop (s' @ 0 # r) (step_dir stk seg)"
        using canon_loop_step[OF _ hd seg, of stk] by (simp only: append_is_Nil_conv list.distinct simp_thms if_False)
      moreover have "foldl step_dir stk (split_path s) = foldl step_dir (step_dir stk seg) (split_path s')"
        using split_path_append[OF s(2)] s(1) by simp
      ultimately show ?thesis
        using less.hyps[of s' "step_dir stk seg"] room less.prems(1,3) step_dir_nonempty[OF less.prems(3)] s(1) by auto
    next
      case no: False
      have seg: "next_seg (s @ 0 # r) = Some (s, 0 # r)" using next_seg_eq[OF less.prems(1), of r] no by simp
      show ?thesis
      proof (cases "s \<notin> {[], [46], [46, 46]} \<and> 127 \<le> length stk")
        case True
        then show ?thesis using canon_loop_step[OF _ hd seg] full split_path_plain[OF no] by (auto simp: step_dir_def)
      next
        case False
        then show ?thesis using canon_loop_step[OF _ hd seg, of stk] split_path_plain[OF no] by auto
      qed
    qed
  qed simp
qed

lemma skip_slashes_eq: "0 \<notin> set s \<Longrightarrow> \<exists>s'. skip_slashes (s @ 0 # r) = Some (s' @ 0 # r) \<and> length s' \<le> length s \<and>
    set s' \<subseteq> set s \<and> foldl step_dir [] (split_path s') = foldl step_dir [] (split_path s)"
proof (induction s)
  case (Cons c s)
  then obtain s' where s': "skip_slashes (s @ 0 # r) = Some (s' @ 0 # r)" "length s' \<le> length s" "set s' \<subseteq> set s"
    "foldl step_dir [] (split_path s') = foldl step_dir [] (split_path s)" by auto
  show ?case
  proof (cases "c = 47")
    case True
    then show ?thesis using s' by auto
  next
    case False
    then show ?thesis by (intro exI[of _ "c # s"]) simp
  qed
qed simp

lemma join_path_Cons: "join_path (x # xs) = x @ concat (map ((#) 47) xs)"
  by (induction xs arbitrary: x) auto

lemma length_tail: "length (concat (map ((#) (47::u8)) xs)) = room xs"
  by (induction xs) auto

lemma length_join: "length (join_path xs) = room xs - 1"
  by (cases xs) (simp_all add: join_path_Cons length_tail)

lemma rebuild_tail:
  assumes "0 < i" "length b = sz" "pos \<le> sz"
  shows "if pos + room xs + 1 \<le> sz \<or> xs = []
    then rebuild sz i xs b pos = Some (Some (pos + room xs), take pos b @ concat (map ((#) 47) xs) @ drop (pos + room xs) b)
    else \<exists>b'. rebuild sz i xs b pos = Some (None, b') \<and> length b' = sz"
  using assms
proof (induction xs arbitrary: i b pos)
  case (Cons x xs)
  show ?case
  proof (cases "pos + length x + 2 \<le> sz")
    case True
    define b1 where "b1 = take pos b @ 47 # x @ drop (pos + Suc (length x)) b"
    have w: "buf_write b pos [47] = Some (take pos b @ 47 # drop (Suc pos) b)" using True Cons.prems by (simp add: buf_write_def)
    have w2: "buf_write (take pos b @ 47 # drop (Suc pos) b) (Suc pos) x = Some b1"
      using True Cons.prems unfolding b1_def by (simp add: buf_write_def Suc_diff_le add.commute)
    have step: "rebuild sz i (x # xs) b pos = rebuild sz (Suc i) xs b1 (pos + Suc (length x))"
      using True Cons.prems(1) w w2 by simp
    have tk: "take (pos + Suc (length x)) b1 = take pos b @ 47 # x" "drop (pos + Suc (length x) + room xs) b1 = drop (pos + room (x # xs)) b"
      and l: "length b1 = sz" using True Cons.prems unfolding b1_def by (simp_all add: add_ac)
    have c: "pos + room (x # xs) + 1 \<le> sz \<or> x # xs = [] \<longleftrightarrow> pos + Suc (length x) + room xs + 1 \<le> sz \<or> xs = []"
      using True by (cases "xs = []") (simp_all add: add.assoc)
    show ?thesis
      using Cons.IH[OF _ l, of "Suc i" "pos + Suc (length x)"] True Cons.prems(1) unfolding step c tk
      by (cases "xs = []") (simp_all add: b1_def add_ac split: if_splits)
  qed (use Cons.prems in auto)
qed simp

definition fits :: "nat \<Rightarrow> u8 list list \<Rightarrow> bool" where
  "fits sz xs \<longleftrightarrow> (case xs of [] \<Rightarrow> True | [x] \<Rightarrow> length x + 3 \<le> sz | _ \<Rightarrow> room xs + 1 \<le> sz)"

lemma rebuild_eq:
  assumes "length b = sz" "2 \<le> sz" "b ! 0 = 47"
  shows "if fits sz xs then rebuild sz 0 xs b 1 = Some (Some (Suc (length (join_path xs))),
      47 # join_path xs @ drop (Suc (length (join_path xs))) b)
    else \<exists>b'. rebuild sz 0 xs b 1 = Some (None, b') \<and> length b' = sz"
proof (cases xs)
  case Nil
  then show ?thesis using assms by (cases b) (auto simp: fits_def)
next
  case (Cons x ys)
  show ?thesis
  proof (cases "length x + 3 \<le> sz")
    case True
    let ?b = "47 # x @ drop (Suc (length x)) b"
    have "take 1 b = [47]" using assms by (cases b) auto
    then have w: "buf_write b 1 x = Some ?b" using True assms(1) by (simp add: buf_write_def)
    then have step: "rebuild sz 0 xs b 1 = rebuild sz 1 ys ?b (Suc (length x))" using True Cons by simp
    have l: "length ?b = sz" "Suc (length x) \<le> sz" using True assms(1) by simp_all
    have d: "drop (Suc (length x) + room ys) ?b = drop (Suc (length x) + room ys) b"
      "take (Suc (length x)) ?b = 47 # x" by (simp_all add: add.commute)
    have f: "fits sz xs \<longleftrightarrow> Suc (length x) + room ys + 1 \<le> sz \<or> ys = []" using True Cons by (auto simp: fits_def split: list.splits)
    show ?thesis
      using rebuild_tail[of 1 ?b sz "Suc (length x)" ys, OF _ l] unfolding step f d
      by (simp add: Cons join_path_Cons length_tail add.commute split: if_splits)
  next
    case False
    have "\<not> fits sz xs" using False Cons by (cases ys) (auto simp: fits_def)
    then show ?thesis using False Cons assms(1) by simp
  qed
qed

lemma step_dir_plain: "\<forall>x\<in>set d. plain_dir x \<Longrightarrow> 47 \<notin> set seg \<Longrightarrow> 0 \<notin> set seg \<Longrightarrow> \<forall>x\<in>set (step_dir d seg). plain_dir x"
  by (auto simp: step_dir_def plain_dir_def dest: in_set_butlastD)

lemma foldl_plain: "\<forall>x\<in>set d. plain_dir x \<Longrightarrow> \<forall>x\<in>set xs. 47 \<notin> set x \<and> 0 \<notin> set x \<Longrightarrow> \<forall>x\<in>set (foldl step_dir d xs). plain_dir x"
proof (induction xs arbitrary: d)
  case (Cons x xs)
  then show ?case using step_dir_plain[of d x] by simp
qed simp

lemma resolve_plain: "0 \<notin> set s \<Longrightarrow> \<forall>x\<in>set (resolve s). plain_dir x"
  unfolding resolve_def using split_path_set[of _ s] by (intro foldl_plain) auto

lemma join_set: "set (join_path xs) \<subseteq> insert 47 (\<Union>x\<in>set xs. set x)"
  by (cases xs) (auto simp: join_path_Cons)

lemma canonical_nonzero: "0 \<notin> set s \<Longrightarrow> 0 \<notin> set (canonical s)"
  using resolve_plain[of s] join_set[of "resolve s"] by (auto simp: canonical_def plain_dir_def)

lemma canonicalize_ok:
  assumes "terminated path" and "length b = sz" "2 \<le> sz" "sz \<le> 256"
  shows "\<exists>rc b'. vfs_canonicalize (Some path) b sz = Some (rc, b') \<and> length b' = sz \<and>
    (if length (cstr path) < 256 \<and> fits sz (resolve (cstr path))
     then rc = 0 \<and> terminated b' \<and> cstr b' = canonical (cstr path) else rc = -1)"
proof -
  let ?s = "cstr path"
  obtain r where path: "path = ?s @ 0 # r" using terminated_split[OF assms(1)] by blast
  have nz: "0 \<notin> set ?s" by (rule cstr_nonzero)
  have len: "strlen path = Some (length ?s)" using assms(1) by (simp add: strlen_eq)
  show ?thesis
  proof (cases "length ?s < 256")
    case False
    then show ?thesis using len assms(2,3) by (simp add: vfs_canonicalize_def VFS_PATH_MAX_def)
  next
    case True
    have work: "buf_read path 0 (length ?s + 1) = Some (?s @ [0])" by (subst (1) path) (simp add: buf_read_def)
    obtain s where s: "skip_slashes (?s @ [0]) = Some (s @ [0])" "length s \<le> length ?s" "set s \<subseteq> set ?s"
      "foldl step_dir [] (split_path s) = resolve ?s" using skip_slashes_eq[OF nz, of "[]"] unfolding resolve_def by blast
    let ?b = "b[0 := 47]"
    have w: "buf_write b 0 [47] = Some ?b" using assms(2,3) by (cases b) (auto simp: buf_write_def)
    have b: "length ?b = sz" "?b ! 0 = 47" using assms(2,3) by simp_all
    note eq = len work s(1) True w assms(3)
    consider (ok) "canon_loop (s @ [0]) [] = Some (Some (resolve ?s))" | (full) "canon_loop (s @ [0]) [] = Some None" "256 \<le> room (resolve ?s)"
      using canon_loop_eq[of s "[]" "[]"] nz s True by auto
    then show ?thesis
    proof cases
      case ok
      show ?thesis
      proof (cases "fits sz (resolve ?s)")
        case f: True
        let ?j = "join_path (resolve ?s)"
        have l: "Suc (length ?j) < sz"
          using f assms(3) by (auto simp: fits_def length_join split: list.splits)
        have "buf_write (47 # ?j @ drop (Suc (length ?j)) ?b) (Suc (length ?j)) [0] = Some (47 # ?j @ 0 # drop (Suc (Suc (length ?j))) ?b)"
          using l b(1) by (simp add: buf_write_def)
        moreover have "0 \<notin> set (canonical ?s)" by (rule canonical_nonzero[OF nz])
        ultimately show ?thesis
          using rebuild_eq[OF b(1) assms(3) b(2), of "resolve ?s"] f ok eq l assms(2)
          by (auto simp: vfs_canonicalize_def VFS_PATH_MAX_def canonical_def cstr_append_nonzero)
      next
        case False
        then show ?thesis using rebuild_eq[OF b(1) assms(3) b(2), of "resolve ?s"] ok eq
          by (auto simp: vfs_canonicalize_def VFS_PATH_MAX_def)
      qed
    next
      case full
      have "\<not> fits sz (resolve ?s)" using full(2) assms(4) by (auto simp: fits_def split: list.splits)
      then show ?thesis using full eq assms(2) by (simp add: vfs_canonicalize_def VFS_PATH_MAX_def)
    qed
  qed
qed


lemma foldl_plain_id: "\<forall>x\<in>set xs. plain_dir x \<Longrightarrow> foldl step_dir d xs = d @ xs"
  by (induction xs arbitrary: d) (auto simp: step_dir_def plain_dir_def)

lemma split_join: "\<forall>x\<in>set xs. plain_dir x \<Longrightarrow> xs \<noteq> [] \<Longrightarrow> split_path (join_path xs) = xs"
proof (induction xs)
  case (Cons x xs)
  then have x: "47 \<notin> set x" by (auto simp: plain_dir_def)
  show ?case using Cons x by (cases xs) (simp_all add: split_path_plain split_path_append)
qed simp

lemma resolve_slash: "resolve (47 # s) = foldl step_dir [] (split_path s)"
  by (simp add: resolve_def)

lemma resolve_canonical: "0 \<notin> set s \<Longrightarrow> resolve (canonical s) = resolve s"
proof -
  assume "0 \<notin> set s"
  then have p: "\<forall>x\<in>set (resolve s). plain_dir x" by (rule resolve_plain)
  have "resolve (canonical s) = foldl step_dir [] (split_path (join_path (resolve s)))"
    by (simp add: resolve_slash canonical_def)
  also have "\<dots> = resolve s"
    using split_join[OF p] foldl_plain_id[OF p, of "[]"] by (cases "resolve s = []") simp_all
  finally show ?thesis .
qed

text \<open>
  C35: a successful canonicalisation is final: the path it yields has no empty, dot or double-dot
  component, so it cannot climb out of a mount point, and canonicalising it again returns it
  unchanged.
\<close>

theorem vfs_canonicalize_idempotent:
  assumes "terminated path" and "length b = 256" and "vfs_canonicalize (Some path) b 256 = Some (0, b')"
  shows "(\<forall>x\<in>set (split_path (cstr b')). x \<notin> {[46], [46, 46]}) \<and>
    (\<exists>b''. vfs_canonicalize (Some b') b 256 = Some (0, b'') \<and> cstr b'' = cstr b')"
proof -
  have s: "terminated b'" "cstr b' = canonical (cstr path)" "fits 256 (resolve (cstr path))"
    using canonicalize_ok[OF assms(1,2)] assms(3) by (auto split: if_splits)
  have nz: "0 \<notin> set (cstr path)" by (rule cstr_nonzero)
  have r: "resolve (cstr b') = resolve (cstr path)" unfolding s(2) by (rule resolve_canonical[OF nz])
  have "length (cstr b') < 256"
    using s(3) by (auto simp: s(2) canonical_def length_join fits_def split: list.splits)
  then have "\<exists>b''. vfs_canonicalize (Some b') b 256 = Some (0, b'') \<and> cstr b'' = cstr b'"
    using canonicalize_ok[OF s(1) assms(2)] s(2,3) r by (auto simp: canonical_def)
  moreover have "\<forall>x\<in>set (split_path (cstr b')). x \<notin> {[46], [46, 46]}"
    using split_join[OF resolve_plain[OF nz]] resolve_plain[OF nz]
    unfolding s(2) canonical_def by (cases "resolve (cstr path) = []") (auto simp: plain_dir_def)
  ultimately show ?thesis by blast
qed


theorem vfs_canonicalize_idempotent_witness:
  "\<exists>b' b''. vfs_canonicalize (Some (str ''a/..'')) (replicate 256 0) 256 = Some (0, b') \<and>
     vfs_canonicalize (Some b') (replicate 256 0) 256 = Some (0, b'') \<and> cstr b'' = cstr b'"
proof -
  have "map_option fst (vfs_canonicalize (Some (str ''a/..'')) (replicate 256 0) 256) = Some 0" by code_simp
  then obtain b' where b': "vfs_canonicalize (Some (str ''a/..'')) (replicate 256 0) 256 = Some (0, b')" by auto
  from vfs_canonicalize_idempotent[OF _ _ b'] show ?thesis using b' by (auto simp: str_def)
qed

end
