(* ===== verification/Vfs.thy ===== *)
theory Vfs
  imports Vfs_Path Port
begin

text \<open>
  The virtual file system layer, \<^verbatim>\<open>kernel/vfs/vfs.c\<close>: the mount table, the node table, the file
  descriptor tables of the processes, and the operations that dispatch to a backend.

  A backend is the record of its operations, as in the code; an operation that the C structure may
  leave \<^verbatim>\<open>NULL\<close> is an option. The type variable \<open>'w\<close> is the state the backends work on. Every
  operation is given the private state pointer of its backend (\<open>be_ctx\<close>), the only part of the
  backend structure that backends read. Pointers to nodes, backends and processes are indices;
  other pointers are addresses with 0 for \<^verbatim>\<open>NULL\<close>. Signed 64-bit offsets are integers, and a sum
  outside their range is undefined, which is the fault outcome.
\<close>

subsection \<open>Constants\<close>

definition MAX_FDS :: nat where "MAX_FDS = 256"
definition MAX_VFSNODES :: nat where "MAX_VFSNODES = 1024"
definition MAX_BACKENDS :: nat where "MAX_BACKENDS = 16"
definition VFS_BE_NAME_LEN :: nat where "VFS_BE_NAME_LEN = 64"
definition VFS_DIRENT_NAME_LEN :: nat where "VFS_DIRENT_NAME_LEN = 256"

definition VFS_O_READ :: u32 where "VFS_O_READ = 0x01"
definition VFS_O_WRITE :: u32 where "VFS_O_WRITE = 0x02"
definition VFS_O_CREAT :: u32 where "VFS_O_CREAT = 0x10"
definition VFS_O_TRUNC :: u32 where "VFS_O_TRUNC = 0x20"
definition VFS_O_DIR :: u32 where "VFS_O_DIR = 0x80"

definition VFS_SEEK_SET :: int where "VFS_SEEK_SET = 0"
definition VFS_SEEK_CUR :: int where "VFS_SEEK_CUR = 1"
definition VFS_SEEK_END :: int where "VFS_SEEK_END = 2"

definition VFS_NODE_FILE :: u8 where "VFS_NODE_FILE = 1"
definition VFS_NODE_DIR :: u8 where "VFS_NODE_DIR = 2"

definition VFS_ERR :: int where "VFS_ERR = -1"
definition VFS_ENOENT :: int where "VFS_ENOENT = -2"
definition VFS_EINVAL :: int where "VFS_EINVAL = -3"
definition VFS_EPERM :: int where "VFS_EPERM = -4"
definition VFS_ENOSPC :: int where "VFS_ENOSPC = -5"
definition VFS_ENODEV :: int where "VFS_ENODEV = -6"
definition VFS_EMFILE :: int where "VFS_EMFILE = -9"

lemmas vfs_errors = VFS_ERR_def VFS_ENOENT_def VFS_EINVAL_def VFS_EPERM_def VFS_ENOSPC_def VFS_ENODEV_def VFS_EMFILE_def

subsection \<open>Data\<close>

record stat_info =
  si_size :: int
  si_kind :: u8
  si_mtime_ns :: u64
  si_name :: "u8 list"
  si_uid :: u16
  si_gid :: u16
  si_mode :: u16

record vfs_dirent =
  de_name :: "u8 list"
  de_kind :: u8
  de_size :: int

record 'w vfs_ops =
  op_open :: "(nat option \<Rightarrow> u8 list \<Rightarrow> u32 \<Rightarrow> 'w \<Rightarrow> (u64 \<times> 'w) option) option"
  op_close :: "(nat option \<Rightarrow> u64 \<Rightarrow> 'w \<Rightarrow> 'w option) option"
  op_read :: "(nat option \<Rightarrow> u64 \<Rightarrow> u8 list \<Rightarrow> u64 \<Rightarrow> u64 option \<Rightarrow> 'w \<Rightarrow> (int \<times> u8 list \<times> u64 option \<times> 'w) option) option"
  op_write :: "(nat option \<Rightarrow> u64 \<Rightarrow> u8 list \<Rightarrow> u64 \<Rightarrow> 'w \<Rightarrow> (int \<times> 'w) option) option"
  op_seek :: "(nat option \<Rightarrow> u64 \<Rightarrow> int \<Rightarrow> int \<Rightarrow> 'w \<Rightarrow> (int \<times> 'w) option) option"
  op_readdir :: "(nat option \<Rightarrow> u64 \<Rightarrow> vfs_dirent list \<Rightarrow> u32 \<Rightarrow> u32 option \<Rightarrow> 'w \<Rightarrow> (int \<times> vfs_dirent list \<times> u32 option \<times> 'w) option) option"
  op_stat :: "(nat option \<Rightarrow> u8 list \<Rightarrow> stat_info \<Rightarrow> 'w \<Rightarrow> (int \<times> stat_info \<times> 'w) option) option"
  op_unlink :: "(nat option \<Rightarrow> u8 list \<Rightarrow> 'w \<Rightarrow> (int \<times> 'w) option) option"
  op_mkdir :: "(nat option \<Rightarrow> u8 list \<Rightarrow> 'w \<Rightarrow> (int \<times> 'w) option) option"

record 'w vfs_backend =
  be_name :: "u8 list"
  mount_pt :: "u8 list"
  be_ops :: "'w vfs_ops"
  be_ctx :: "nat option"
  be_id :: u32

record vfsnode =
  node_id :: u32
  vn_refcount :: u32
  vn_flags :: u32
  vn_offset :: u64
  vn_size :: int
  vn_path :: "u8 list"
  vn_backend :: "nat option"
  vn_bctx :: u64
  vn_pcb :: "nat option"
  vn_ring :: u64
  vn_port_id :: u32

text \<open>
  The state: the globals of \<^verbatim>\<open>vfs.c\<close>, the descriptor tables of the processes and the current
  process, the contents of the rings that nodes point to, and the state of the backends.
\<close>

record 'w vfs =
  g_nodes :: "vfsnode list"
  g_backends :: "'w vfs_backend list"
  g_vfs_lock :: u32
  g_next_node_id :: u32
  fd_tables :: "nat option list list"
  sched_current :: "nat option"
  rings :: "u64 \<rightharpoonup> ringbuf"
  world :: 'w

definition zero_node :: vfsnode where
  "zero_node = \<lparr>node_id = 0, vn_refcount = 0, vn_flags = 0, vn_offset = 0, vn_size = 0,
     vn_path = replicate VFS_PATH_MAX 0, vn_backend = None, vn_bctx = 0, vn_pcb = None, vn_ring = 0, vn_port_id = 0\<rparr>"

definition zero_ops :: "'w vfs_ops" where
  "zero_ops = \<lparr>op_open = None, op_close = None, op_read = None, op_write = None, op_seek = None,
     op_readdir = None, op_stat = None, op_unlink = None, op_mkdir = None\<rparr>"

definition zero_backend :: "'w vfs_backend" where
  "zero_backend = \<lparr>be_name = replicate VFS_BE_NAME_LEN 0, mount_pt = replicate VFS_PATH_MAX 0,
     be_ops = zero_ops, be_ctx = None, be_id = 0\<rparr>"

definition vfs_unlock :: "'w vfs \<Rightarrow> 'w vfs" where
  "vfs_unlock st = st\<lparr>g_vfs_lock := spin_unlock (g_vfs_lock st)\<rparr>"

definition vfs_acquire :: "'w vfs \<Rightarrow> 'w vfs option" where
  "vfs_acquire st = map_option (\<lambda>l. st\<lparr>g_vfs_lock := l\<rparr>) (spin_lock (g_vfs_lock st))"

definition upd_node :: "nat \<Rightarrow> (vfsnode \<Rightarrow> vfsnode) \<Rightarrow> 'w vfs \<Rightarrow> 'w vfs" where
  "upd_node n f st = st\<lparr>g_nodes := (g_nodes st)[n := f (g_nodes st ! n)]\<rparr>"

definition set_fd :: "nat \<Rightarrow> nat \<Rightarrow> nat option \<Rightarrow> 'w vfs \<Rightarrow> 'w vfs" where
  "set_fd p fd v st = st\<lparr>fd_tables := (fd_tables st)[p := (fd_tables st ! p)[fd := v]]\<rparr>"

text \<open>The table of a process; a pointer to no process is a fault.\<close>

definition pcb_fd_table :: "'w vfs \<Rightarrow> nat \<Rightarrow> nat option list option" where
  "pcb_fd_table st p = (if p < length (fd_tables st) then Some (fd_tables st ! p) else None)"

subsection \<open>Nodes and mounts\<close>

definition alloc_node_id :: "'w vfs \<Rightarrow> nat \<times> 'w vfs" where
  "alloc_node_id st =
     (let ident = g_next_node_id st in
      case List.find (\<lambda>c. c \<noteq> 0 \<and> node_id (g_nodes st ! c) = 0)
             (map (\<lambda>i. unat (ident + of_nat i) mod MAX_VFSNODES) [0..<MAX_VFSNODES]) of
        None \<Rightarrow> (0, st)
      | Some c \<Rightarrow>
          let nxt = (c + 1) mod MAX_VFSNODES in
          (c, st\<lparr>g_next_node_id := (if nxt = 0 then 1 else of_nat nxt)\<rparr>))"

definition mount_matches :: "u8 list \<Rightarrow> u8 list \<Rightarrow> nat \<Rightarrow> bool option" where
  "mount_matches path mp mlen =
     (if mlen = 1 \<and> hd mp = 47 then (if path = [] then None else Some (hd path = 47))
      else do {
        c \<leftarrow> strncmp path mp mlen;
        if c \<noteq> 0 then Some False
        else if mlen < length path then Some (path ! mlen = 0 \<or> path ! mlen = 47) else None
      })"

fun best_backend :: "u8 list \<Rightarrow> nat \<Rightarrow> 'w vfs_backend list \<Rightarrow> nat option \<Rightarrow> nat \<Rightarrow> (nat option \<times> nat) option" where
  "best_backend path i [] best best_len = Some (best, best_len)"
| "best_backend path i (be # bes) best best_len =
     (if be_id be = 0 then best_backend path (Suc i) bes best best_len
      else do {
        mlen \<leftarrow> strlen (mount_pt be);
        m \<leftarrow> mount_matches path (mount_pt be) mlen;
        if m \<and> mlen \<ge> best_len then best_backend path (Suc i) bes (Some i) mlen
        else best_backend path (Suc i) bes best best_len
      })"

definition find_backend :: "'w vfs \<Rightarrow> u8 list \<Rightarrow> (nat \<times> u8 list) option option" where
  "find_backend st path = do {
     (best, best_len) \<leftarrow> best_backend path 0 (g_backends st) None 0;
     (case best of
        None \<Rightarrow> Some None
      | Some b \<Rightarrow>
          if best_len = 1 \<and> hd (mount_pt (g_backends st ! b)) = 47 then Some (Some (b, path))
          else
            let rp = drop best_len path in
            if rp = [] then None
            else Some (Some (b, if hd rp = 0 then [47, 0] else rp))) }"

definition base_name :: "u8 list \<Rightarrow> u8 list \<Rightarrow> nat \<Rightarrow> u8 list option" where
  "base_name path out1 out_sz = do {
     sep \<leftarrow> strrchr path 47;
     let nm = (case sep of Some k \<Rightarrow> drop (k + 1) path | None \<Rightarrow> path);
     out1 \<leftarrow> strncpy out1 nm (out_sz - 1);
     buf_write out1 (out_sz - 1) [0] }"

definition vfs_init :: "'w vfs \<Rightarrow> 'w vfs" where
  "vfs_init st = st\<lparr>g_nodes := replicate MAX_VFSNODES zero_node, g_backends := replicate MAX_BACKENDS zero_backend,
     g_vfs_lock := 0, g_next_node_id := 1\<rparr>"

definition vfs_mount :: "'w vfs \<Rightarrow> u8 list option \<Rightarrow> 'w vfs_ops \<Rightarrow> nat option \<Rightarrow> (u32 \<times> 'w vfs) option" where
  "vfs_mount st mp ops ctx =
     (case mp of
        None \<Rightarrow> Some (0, st)
      | Some mp \<Rightarrow>
          if mp = [] then None
          else if hd mp = 0 then Some (0, st)
          else do {
            st \<leftarrow> vfs_acquire st;
            (case first_idx (\<lambda>b. be_id b = 0) (g_backends st) of
               None \<Rightarrow> Some (0, vfs_unlock st)
             | Some i \<Rightarrow> do {
                 nm \<leftarrow> strncpy (be_name (zero_backend :: 'w vfs_backend)) mp (VFS_BE_NAME_LEN - 1);
                 nm \<leftarrow> buf_write nm (VFS_BE_NAME_LEN - 1) [0];
                 mt \<leftarrow> strncpy (mount_pt (zero_backend :: 'w vfs_backend)) mp (VFS_PATH_MAX - 1);
                 mt \<leftarrow> buf_write mt (VFS_PATH_MAX - 1) [0];
                 let be = \<lparr>be_name = nm, mount_pt = mt, be_ops = ops, be_ctx = ctx, be_id = of_nat (i + 1)\<rparr>;
                 Some (of_nat (i + 1), vfs_unlock (st\<lparr>g_backends := (g_backends st)[i := be]\<rparr>))
               })
          })"

text \<open>Backend calls through the pointer a node or the mount table holds.\<close>

definition backend_close :: "nat option \<Rightarrow> u64 \<Rightarrow> 'w vfs \<Rightarrow> 'w vfs option" where
  "backend_close b bctx st =
     (case b of
        None \<Rightarrow> Some st
      | Some b \<Rightarrow>
          (case op_close (be_ops (g_backends st ! b)) of
             None \<Rightarrow> Some st
           | Some f \<Rightarrow> map_option (\<lambda>w. st\<lparr>world := w\<rparr>) (f (be_ctx (g_backends st ! b)) bctx (world st))))"

subsection \<open>Opening and closing\<close>

text \<open>The uninitialised local \<open>info\<close>; only its size is read, and only after the backend stored it.\<close>

definition zero_stat :: stat_info where
  "zero_stat = \<lparr>si_size = 0, si_kind = 0, si_mtime_ns = 0, si_name = replicate VFS_PATH_MAX 0, si_uid = 0, si_gid = 0, si_mode = 0\<rparr>"

definition canon_path :: "u8 list \<Rightarrow> u8 list option option" where
  "canon_path path = do {
     (rc, canon) \<leftarrow> vfs_canonicalize (Some path) (replicate VFS_PATH_MAX 0) VFS_PATH_MAX;
     Some (if rc \<noteq> 0 then None else Some canon) }"

definition node_path :: "u8 list \<Rightarrow> u8 list option" where
  "node_path path = do {
     p \<leftarrow> strncpy (vn_path zero_node) path (VFS_PATH_MAX - 1);
     buf_write p (VFS_PATH_MAX - 1) [0] }"

definition backend_size :: "nat \<Rightarrow> u8 list \<Rightarrow> 'w vfs \<Rightarrow> (int \<times> 'w vfs) option" where
  "backend_size b rel st =
     (case op_stat (be_ops (g_backends st ! b)) of
        None \<Rightarrow> Some (-1, st)
      | Some f \<Rightarrow> do {
          (rc, info, w) \<leftarrow> f (be_ctx (g_backends st ! b)) rel zero_stat (world st);
          Some (if rc = 0 then si_size info else -1, st\<lparr>world := w\<rparr>) })"

definition install_fd :: "nat \<Rightarrow> nat \<Rightarrow> 'w vfs \<Rightarrow> (nat \<times> 'w vfs) option" where
  "install_fd p n st = do {
     fdt \<leftarrow> pcb_fd_table st p;
     Some (case first_idx (\<lambda>x. x = None) (drop 3 fdt) of
             None \<Rightarrow> (0, st)
           | Some i \<Rightarrow> (3 + i, set_fd p (3 + i) (Some n) st)) }"

definition vfs_open :: "'w vfs \<Rightarrow> u8 list option \<Rightarrow> u32 \<Rightarrow> nat option \<Rightarrow> (u32 \<times> 'w vfs) option" where
  "vfs_open st path fl caller =
     (case path of
        None \<Rightarrow> Some (of_int VFS_EINVAL, st)
      | Some path \<Rightarrow>
          if path = [] then None
          else if hd path = 0 then Some (of_int VFS_EINVAL, st)
          else do {
            canon \<leftarrow> canon_path path;
            (case canon of
               None \<Rightarrow> Some (of_int VFS_EINVAL, st)
             | Some path \<Rightarrow> do {
                 let fl = (if fl AND (VFS_O_READ OR VFS_O_WRITE) = 0 then fl OR VFS_O_READ else fl);
                 st \<leftarrow> vfs_acquire st;
                 be \<leftarrow> find_backend st path;
                 (bctx, st) \<leftarrow> (case be of
                     None \<Rightarrow> Some (0, st)
                   | Some (b, rel) \<Rightarrow>
                       (case op_open (be_ops (g_backends st ! b)) of
                          None \<Rightarrow> Some (0, st)
                        | Some f \<Rightarrow> map_option (\<lambda>(x, w). (x, st\<lparr>world := w\<rparr>))
                            (f (be_ctx (g_backends st ! b)) rel fl (world st))));
                 (case be of
                    None \<Rightarrow> Some (of_int VFS_ENOENT, vfs_unlock st)
                  | Some (b, rel) \<Rightarrow>
                      if bctx = 0 then Some (of_int VFS_ENOENT, vfs_unlock st)
                      else do {
                        let (nid, st) = alloc_node_id st;
                        if nid = 0 then do {
                          st \<leftarrow> backend_close (Some b) bctx st;
                          Some (of_int VFS_EMFILE, vfs_unlock st) }
                        else do {
                          np \<leftarrow> node_path path;
                          let st = upd_node nid (\<lambda>_. zero_node\<lparr>node_id := of_nat nid, vn_refcount := 1, vn_flags := fl,
                            vn_size := -1, vn_path := np, vn_backend := Some b, vn_bctx := bctx, vn_pcb := caller\<rparr>) st;
                          (sz, st) \<leftarrow> backend_size b rel st;
                          let st = upd_node nid (\<lambda>n. n\<lparr>vn_size := sz\<rparr>) st;
                          (fd, st) \<leftarrow> (case caller of
                              Some p \<Rightarrow> install_fd p nid st
                            | None \<Rightarrow> Some (nid + MAX_FDS, st));
                          let st = vfs_unlock st;
                          if fd = 0 then do {
                            let st = upd_node nid (\<lambda>n. n\<lparr>node_id := 0\<rparr>) st;
                            st \<leftarrow> backend_close (Some b) bctx st;
                            Some (of_int VFS_EMFILE, st) }
                          else Some (of_nat fd, st)
                        }
                      })
               })
          })"

text \<open>
  The node behind a descriptor: numbers from 256 on name a node directly, smaller ones go through
  the table of the current process. The inner option is the refusal with \<^verbatim>\<open>VFS_EINVAL\<close>.
\<close>

definition fd_node :: "'w vfs \<Rightarrow> u32 \<Rightarrow> nat option option" where
  "fd_node st fd =
     (if unat fd \<ge> MAX_FDS then
        let nid = unat fd - MAX_FDS in
        Some (if nid \<ge> MAX_VFSNODES \<or> node_id (g_nodes st ! nid) \<noteq> of_nat nid then None else Some nid)
      else
        (case sched_current st of
           None \<Rightarrow> Some None
         | Some cur \<Rightarrow> map_option (\<lambda>fdt. fdt ! unat fd) (pcb_fd_table st cur)))"

definition drop_ref :: "nat \<Rightarrow> 'w vfs \<Rightarrow> 'w vfs option" where
  "drop_ref n st =
     (let st = upd_node n (\<lambda>x. x\<lparr>vn_refcount := vn_refcount x - 1\<rparr>) st; node = g_nodes st ! n in
      if vn_refcount node = 0
      then map_option (upd_node n (\<lambda>x. x\<lparr>node_id := 0\<rparr>)) (backend_close (vn_backend node) (vn_bctx node) st)
      else Some st)"

definition vfs_close :: "'w vfs \<Rightarrow> u32 \<Rightarrow> (int \<times> 'w vfs) option" where
  "vfs_close st fd =
     (if fd \<le> 2 then Some (0, st)
      else do {
        st \<leftarrow> vfs_acquire st;
        node \<leftarrow> fd_node st fd;
        (case node of
           None \<Rightarrow> Some (VFS_EINVAL, vfs_unlock st)
         | Some n \<Rightarrow> do {
             let st = (if unat fd \<ge> MAX_FDS then st else set_fd (the (sched_current st)) (unat fd) None st);
             st \<leftarrow> drop_ref n st;
             Some (0, vfs_unlock st) })
      })"

fun close_from :: "nat \<Rightarrow> nat list \<Rightarrow> 'w vfs \<Rightarrow> 'w vfs option" where
  "close_from p [] st = Some st"
| "close_from p (i # js) st = do {
     fdt \<leftarrow> pcb_fd_table st p;
     (case fdt ! i of
        None \<Rightarrow> close_from p js st
      | Some n \<Rightarrow> do {
          st \<leftarrow> drop_ref n (set_fd p i None st);
          close_from p js st }) }"

definition vfs_close_all :: "'w vfs \<Rightarrow> nat option \<Rightarrow> 'w vfs option" where
  "vfs_close_all st pcb =
     (case pcb of
        None \<Rightarrow> Some st
      | Some p \<Rightarrow> do {
          st \<leftarrow> vfs_acquire st;
          st \<leftarrow> close_from p [3..<MAX_FDS] st;
          Some (vfs_unlock st) })"

subsection \<open>Reading, writing, seeking\<close>

partial_function (option) ring_read_loop ::
  "ringbuf \<Rightarrow> u8 list \<Rightarrow> u64 \<Rightarrow> u64 \<Rightarrow> (u64 \<times> u8 list \<times> ringbuf) option" where
  "ring_read_loop rb buf n tot =
     (if tot < n then do {
        let chunk = (if n - tot > ucast (slot_size rb) then ucast (slot_size rb) else n - tot);
        (rc, b, rb) \<leftarrow> ringbuf_pop rb (drop (unat tot) buf) (ucast chunk);
        let buf = take (unat tot) buf @ b;
        if rc \<noteq> 0 then Some (tot, buf, rb) else ring_read_loop rb buf n (tot + chunk) }
      else Some (tot, buf, rb))"

declare ring_read_loop.simps [code]

partial_function (option) ring_write_loop :: "ringbuf \<Rightarrow> u8 list \<Rightarrow> u64 \<Rightarrow> u64 \<Rightarrow> (u64 \<times> ringbuf) option" where
  "ring_write_loop rb buf n tot =
     (if tot < n then do {
        let chunk = (if n - tot > ucast (slot_size rb) then ucast (slot_size rb) else n - tot);
        (rc, rb) \<leftarrow> ringbuf_push rb (drop (unat tot) buf) (ucast chunk);
        if rc \<noteq> 0 then Some (tot, rb) else ring_write_loop rb buf n (tot + chunk) }
      else Some (tot, rb))"

declare ring_write_loop.simps [code]

definition vfs_read ::
  "'w vfs \<Rightarrow> u32 \<Rightarrow> u8 list option \<Rightarrow> u64 \<Rightarrow> u64 option \<Rightarrow> (int \<times> u8 list option \<times> u64 option \<times> 'w vfs) option" where
  "vfs_read st fd buf n got =
     (case buf of
        None \<Rightarrow> Some (VFS_EINVAL, buf, got, st)
      | Some b \<Rightarrow>
          if fd \<le> 2 then Some (VFS_EINVAL, buf, got, st)
          else do {
            st \<leftarrow> vfs_acquire st;
            node \<leftarrow> fd_node st fd;
            (case node of
               None \<Rightarrow> Some (VFS_EINVAL, buf, got, vfs_unlock st)
             | Some k \<Rightarrow>
                 let node = g_nodes st ! k in
                 if vn_ring node \<noteq> 0 then do {
                   rb \<leftarrow> rings st (vn_ring node);
                   (tot, b, rb) \<leftarrow> ring_read_loop rb b n 0;
                   let st = st\<lparr>rings := (rings st)(vn_ring node \<mapsto> rb)\<rparr>;
                   Some (if tot > 0 then 0 else VFS_ERR, Some b, map_option (\<lambda>_. tot) got, vfs_unlock st) }
                 else
                   (case vn_backend node of
                      None \<Rightarrow> Some (VFS_EPERM, buf, got, vfs_unlock st)
                    | Some be \<Rightarrow>
                        (case op_read (be_ops (g_backends st ! be)) of
                           None \<Rightarrow> Some (VFS_EPERM, buf, got, vfs_unlock st)
                         | Some f \<Rightarrow> do {
                             (rc, b, got, w) \<leftarrow> f (be_ctx (g_backends st ! be)) (vn_bctx node) b n got (world st);
                             let st = st\<lparr>world := w\<rparr>;
                             let st = (case got of
                                 Some g \<Rightarrow> if rc = 0 then upd_node k (\<lambda>x. x\<lparr>vn_offset := vn_offset x + g\<rparr>) st else st
                               | None \<Rightarrow> st);
                             Some (rc, Some b, got, vfs_unlock st) })))
          })"

definition vfs_write ::
  "(ringbuf \<Rightarrow> ringbuf) \<Rightarrow> (ports \<times> 's) vfs \<Rightarrow> u32 \<Rightarrow> u8 list option \<Rightarrow> u64 \<Rightarrow> (int \<times> (ports \<times> 's) vfs) option" where
  "vfs_write pause st fd buf n =
     (case buf of
        None \<Rightarrow> Some (VFS_EINVAL, st)
      | Some b \<Rightarrow>
          if fd \<le> 2 \<or> n = 0 then Some (VFS_EINVAL, st)
          else do {
            st \<leftarrow> vfs_acquire st;
            node \<leftarrow> fd_node st fd;
            (case node of
               None \<Rightarrow> Some (VFS_EINVAL, vfs_unlock st)
             | Some k \<Rightarrow>
                 let node = g_nodes st ! k in
                 if vn_ring node \<noteq> 0 then do {
                   rb \<leftarrow> rings st (vn_ring node);
                   (tot, rb) \<leftarrow> ring_write_loop rb b n 0;
                   let st = st\<lparr>rings := (rings st)(vn_ring node \<mapsto> rb)\<rparr>;
                   Some (if tot > 0 then 0 else VFS_ERR, vfs_unlock st) }
                 else if vn_port_id node \<noteq> 0 then do {
                   (rc, p) \<leftarrow> port_send pause (fst (world st)) (vn_port_id node) b n;
                   Some (rc, vfs_unlock (st\<lparr>world := (p, snd (world st))\<rparr>)) }
                 else
                   (case vn_backend node of
                      None \<Rightarrow> Some (VFS_EPERM, vfs_unlock st)
                    | Some be \<Rightarrow>
                        (case op_write (be_ops (g_backends st ! be)) of
                           None \<Rightarrow> Some (VFS_EPERM, vfs_unlock st)
                         | Some f \<Rightarrow> do {
                             (rc, w) \<leftarrow> f (be_ctx (g_backends st ! be)) (vn_bctx node) b n (world st);
                             let st = st\<lparr>world := w\<rparr>;
                             let st = (if rc = 0 then upd_node k (\<lambda>x. x\<lparr>vn_offset := vn_offset x + n\<rparr>) st else st);
                             Some (rc, vfs_unlock st) })))
          })"

text \<open>Signed 64-bit arithmetic: a value out of range is undefined.\<close>

definition s64 :: "int \<Rightarrow> int option" where
  "s64 x = (if - (2 ^ 63) \<le> x \<and> x < 2 ^ 63 then Some x else None)"

definition vfs_seek :: "'w vfs \<Rightarrow> u32 \<Rightarrow> int \<Rightarrow> int \<Rightarrow> (int \<times> 'w vfs) option" where
  "vfs_seek st fd off whence =
     (if fd \<le> 2 then Some (VFS_EINVAL, st)
      else do {
        st \<leftarrow> vfs_acquire st;
        node \<leftarrow> fd_node st fd;
        (case node of
           None \<Rightarrow> Some (VFS_EINVAL, vfs_unlock st)
         | Some k \<Rightarrow>
             let node = g_nodes st ! k in
             (case (case vn_backend node of None \<Rightarrow> None
                    | Some be \<Rightarrow> map_option (\<lambda>f. f (be_ctx (g_backends st ! be))) (op_seek (be_ops (g_backends st ! be)))) of
                Some f \<Rightarrow> do {
                  (rc, w) \<leftarrow> f (vn_bctx node) off whence (world st);
                  let st = st\<lparr>world := w\<rparr>;
                  let st = (if rc \<ge> 0 then upd_node k (\<lambda>x. x\<lparr>vn_offset := of_int rc\<rparr>) st else st);
                  Some (rc, vfs_unlock st) }
              | None \<Rightarrow>
                  if whence \<notin> {VFS_SEEK_SET, VFS_SEEK_CUR, VFS_SEEK_END} then Some (VFS_EINVAL, vfs_unlock st)
                  else if whence = VFS_SEEK_END \<and> vn_size node < 0 then Some (VFS_ERR, vfs_unlock st)
                  else do {
                    new_off \<leftarrow> (if whence = VFS_SEEK_SET then Some off
                                else if whence = VFS_SEEK_CUR then s64 (sint (vn_offset node) + off)
                                else s64 (vn_size node + off));
                    if new_off < 0 then Some (VFS_EINVAL, vfs_unlock st)
                    else Some (new_off, vfs_unlock (upd_node k (\<lambda>x. x\<lparr>vn_offset := of_int new_off\<rparr>) st)) }))
      })"

subsection \<open>Operations on paths\<close>

definition vfs_stat :: "'w vfs \<Rightarrow> u8 list option \<Rightarrow> stat_info option \<Rightarrow> (int \<times> stat_info option \<times> 'w vfs) option" where
  "vfs_stat st path out1 =
     (case (path, out1) of
        (Some path, Some info) \<Rightarrow> do {
          canon \<leftarrow> canon_path path;
          (case canon of
             None \<Rightarrow> Some (VFS_EINVAL, out1, st)
           | Some path \<Rightarrow> do {
               st \<leftarrow> vfs_acquire st;
               be \<leftarrow> find_backend st path;
               (case be of
                  None \<Rightarrow> Some (VFS_ENOENT, out1, vfs_unlock st)
                | Some (b, rel) \<Rightarrow>
                    (case op_stat (be_ops (g_backends st ! b)) of
                       None \<Rightarrow> Some (VFS_ENOENT, out1, vfs_unlock st)
                     | Some f \<Rightarrow> do {
                         (rc, info, w) \<leftarrow> f (be_ctx (g_backends st ! b)) rel info (world st);
                         Some (rc, Some info, vfs_unlock (st\<lparr>world := w\<rparr>)) })) }) }
      | _ \<Rightarrow> Some (VFS_EINVAL, out1, st))"

definition vfs_unlink :: "'w vfs \<Rightarrow> u8 list option \<Rightarrow> (int \<times> 'w vfs) option" where
  "vfs_unlink st path =
     (case path of
        None \<Rightarrow> Some (VFS_EINVAL, st)
      | Some path \<Rightarrow>
          if path = [] then None
          else if hd path = 0 then Some (VFS_EINVAL, st)
          else do {
            canon \<leftarrow> canon_path path;
            (case canon of
               None \<Rightarrow> Some (VFS_EINVAL, st)
             | Some path \<Rightarrow> do {
                 st \<leftarrow> vfs_acquire st;
                 be \<leftarrow> find_backend st path;
                 (case be of
                    None \<Rightarrow> Some (VFS_ENODEV, vfs_unlock st)
                  | Some (b, rel) \<Rightarrow>
                      (case op_unlink (be_ops (g_backends st ! b)) of
                         None \<Rightarrow> Some (VFS_ENODEV, vfs_unlock st)
                       | Some f \<Rightarrow> do {
                           (rc, w) \<leftarrow> f (be_ctx (g_backends st ! b)) rel (world st);
                           Some (rc, vfs_unlock (st\<lparr>world := w\<rparr>)) })) })
          })"

definition vfs_mkdir :: "'w vfs \<Rightarrow> u8 list option \<Rightarrow> (int \<times> 'w vfs) option" where
  "vfs_mkdir st path =
     (case path of
        None \<Rightarrow> Some (VFS_EINVAL, st)
      | Some path \<Rightarrow>
          if path = [] then None
          else if hd path = 0 then Some (VFS_EINVAL, st)
          else do {
            canon \<leftarrow> canon_path path;
            (case canon of
               None \<Rightarrow> Some (VFS_EINVAL, st)
             | Some path \<Rightarrow> do {
                 st \<leftarrow> vfs_acquire st;
                 be \<leftarrow> find_backend st path;
                 (case be of
                    None \<Rightarrow> Some (VFS_ENODEV, vfs_unlock st)
                  | Some (b, rel) \<Rightarrow>
                      (case op_mkdir (be_ops (g_backends st ! b)) of
                         None \<Rightarrow> Some (VFS_ENODEV, vfs_unlock st)
                       | Some f \<Rightarrow> do {
                           (rc, w) \<leftarrow> f (be_ctx (g_backends st ! b)) rel (world st);
                           Some (rc, vfs_unlock (st\<lparr>world := w\<rparr>)) })) })
          })"

text \<open>Reading a directory calls \<^verbatim>\<open>open\<close> and \<^verbatim>\<open>close\<close> of the backend without a check; a null pointer faults.\<close>

definition vfs_readdir ::
  "'w vfs \<Rightarrow> u8 list option \<Rightarrow> vfs_dirent list option \<Rightarrow> u32 \<Rightarrow> u32 option \<Rightarrow> (int \<times> vfs_dirent list option \<times> u32 option \<times> 'w vfs) option" where
  "vfs_readdir st path buf cp n_out =
     (case (path, buf) of
        (Some path, Some b) \<Rightarrow> do {
          st \<leftarrow> vfs_acquire st;
          be \<leftarrow> find_backend st path;
          (case be of
             None \<Rightarrow> Some (VFS_ENODEV, buf, n_out, vfs_unlock st)
           | Some (k, rel) \<Rightarrow>
               let ops = be_ops (g_backends st ! k); ctx = be_ctx (g_backends st ! k) in
               (case op_readdir ops of
                  None \<Rightarrow> Some (VFS_ENODEV, buf, n_out, vfs_unlock st)
                | Some f \<Rightarrow> do {
                    fo \<leftarrow> op_open ops;
                    (dctx, w) \<leftarrow> fo ctx rel (VFS_O_READ OR VFS_O_DIR) (world st);
                    if dctx = 0 then Some (VFS_ENOENT, buf, n_out, vfs_unlock (st\<lparr>world := w\<rparr>))
                    else do {
                      (rc, b, n_out, w) \<leftarrow> f ctx dctx b cp n_out w;
                      fc \<leftarrow> op_close ops;
                      w \<leftarrow> fc ctx dctx w;
                      Some (rc, Some b, n_out, vfs_unlock (st\<lparr>world := w\<rparr>)) } })) }
      | _ \<Rightarrow> Some (VFS_EINVAL, buf, n_out, st))"

subsection \<open>Synthetic nodes, inheritance, pipes and duplication\<close>

definition vfs_register_ring :: "'w vfs \<Rightarrow> u8 list option \<Rightarrow> u64 \<Rightarrow> (int \<times> 'w vfs) option" where
  "vfs_register_ring st path ring =
     (case path of
        None \<Rightarrow> Some (VFS_EINVAL, st)
      | Some path \<Rightarrow>
          if ring = 0 then Some (VFS_EINVAL, st)
          else do {
            st \<leftarrow> vfs_acquire st;
            let (nid, st) = alloc_node_id st;
            if nid = 0 then Some (VFS_EMFILE, vfs_unlock st)
            else do {
              np \<leftarrow> node_path path;
              let st = upd_node nid (\<lambda>_. zero_node\<lparr>node_id := of_nat nid, vn_refcount := 1,
                vn_flags := VFS_O_READ OR VFS_O_WRITE, vn_size := -1, vn_path := np, vn_ring := ring\<rparr>) st;
              Some (0, vfs_unlock st) }
          })"

fun find_path :: "nat \<Rightarrow> vfsnode list \<Rightarrow> u8 list \<Rightarrow> nat option option" where
  "find_path i [] path = Some None"
| "find_path i (n # ns) path =
     (if node_id n = 0 then find_path (Suc i) ns path
      else do {
        c \<leftarrow> strcmp (vn_path n) path;
        if c = 0 then Some (Some i) else find_path (Suc i) ns path })"

definition vfs_unregister_node :: "'w vfs \<Rightarrow> u8 list option \<Rightarrow> (int \<times> 'w vfs) option" where
  "vfs_unregister_node st path =
     (case path of
        None \<Rightarrow> Some (VFS_EINVAL, st)
      | Some path \<Rightarrow> do {
          st \<leftarrow> vfs_acquire st;
          found \<leftarrow> find_path 0 (g_nodes st) path;
          (case found of
             Some i \<Rightarrow> Some (0, vfs_unlock (upd_node i (\<lambda>n. n\<lparr>node_id := 0\<rparr>) st))
           | None \<Rightarrow> Some (VFS_ENOENT, vfs_unlock st)) })"

fun inherit_from :: "nat \<Rightarrow> nat \<Rightarrow> nat list \<Rightarrow> 'w vfs \<Rightarrow> 'w vfs option" where
  "inherit_from c p [] st = Some st"
| "inherit_from c p (i # js) st = do {
     pfdt \<leftarrow> pcb_fd_table st p;
     _ \<leftarrow> pcb_fd_table st c;
     inherit_from c p js
       (case pfdt ! i of
          None \<Rightarrow> st
        | Some n \<Rightarrow> upd_node n (\<lambda>x. x\<lparr>vn_refcount := vn_refcount x + 1\<rparr>) (set_fd c i (Some n) st)) }"

definition vfs_fd_inherit :: "'w vfs \<Rightarrow> nat option \<Rightarrow> nat option \<Rightarrow> 'w vfs option" where
  "vfs_fd_inherit st child parent =
     (case (child, parent) of
        (Some c, Some p) \<Rightarrow> do {
          st \<leftarrow> vfs_acquire st;
          st \<leftarrow> inherit_from c p [0..<MAX_FDS] st;
          Some (vfs_unlock st) }
      | _ \<Rightarrow> Some st)"

text \<open>
  The heap does not clear a block it hands out, so \<open>mem0\<close> is what the fresh block holds. The result
  of \<^verbatim>\<open>ringbuf_init\<close> is ignored, as in the code.
\<close>

definition pipe_node :: "nat \<Rightarrow> u32 \<Rightarrow> u64 \<Rightarrow> vfsnode" where
  "pipe_node nid fl rb = zero_node\<lparr>node_id := of_nat nid, vn_refcount := 1, vn_flags := fl, vn_ring := rb, vn_size := -1\<rparr>"

definition vfs_pipe :: "ringbuf \<Rightarrow> (ports \<times> 's) vfs \<Rightarrow> (int \<times> (nat \<times> nat) option \<times> (ports \<times> 's) vfs) option" where
  "vfs_pipe mem0 st =
     (case sched_current st of
        None \<Rightarrow> Some (VFS_ERR, None, st)
      | Some cur \<Rightarrow> do {
          let ps = fst (world st);
          (rb, h) \<leftarrow> kmalloc (port_heap ps) (ringbuf_required_size 1 4096);
          let st = st\<lparr>world := (ps\<lparr>port_heap := h\<rparr>, snd (world st))\<rparr>;
          if rb = 0 then Some (VFS_ENOSPC, None, st)
          else do {
            (_, ring) \<leftarrow> ringbuf_init (Some mem0) 1 4096;
            ring \<leftarrow> ring;
            let st = st\<lparr>rings := (rings st)(rb \<mapsto> ring)\<rparr>;
            st \<leftarrow> vfs_acquire st;
            let (rid, st) = alloc_node_id st;
            let (wid, st) = (if rid \<noteq> 0 then alloc_node_id st else (0, st));
            if rid = 0 \<or> wid = 0 then do {
              h \<leftarrow> kfree h rb;
              Some (VFS_ENOSPC, None, vfs_unlock (st\<lparr>world := (ps\<lparr>port_heap := h\<rparr>, snd (world st)), rings := (rings st)(rb := None)\<rparr>)) }
            else do {
              let st = upd_node rid (\<lambda>_. pipe_node rid VFS_O_READ rb) st;
              let st = upd_node wid (\<lambda>_. pipe_node wid VFS_O_WRITE rb) st;
              (rfd, st) \<leftarrow> install_fd cur rid st;
              (wfd, st) \<leftarrow> (if rfd = 0 then Some (0, st) else install_fd cur wid st);
              if rfd = 0 \<or> wfd = 0 then do {
                let st = (if rfd \<noteq> 0 then set_fd cur rfd None st else st);
                let st = upd_node rid (\<lambda>n. n\<lparr>node_id := 0\<rparr>) st;
                let st = upd_node wid (\<lambda>n. n\<lparr>node_id := 0\<rparr>) st;
                h \<leftarrow> kfree h rb;
                Some (VFS_EMFILE, None, vfs_unlock (st\<lparr>world := (ps\<lparr>port_heap := h\<rparr>, snd (world st)), rings := (rings st)(rb := None)\<rparr>)) }
              else Some (0, Some (rfd, wfd), vfs_unlock st) }
          } })"

definition vfs_dup2 :: "'w vfs \<Rightarrow> u32 \<Rightarrow> u32 \<Rightarrow> (int \<times> 'w vfs) option" where
  "vfs_dup2 st oldfd newfd =
     (if unat newfd \<ge> MAX_FDS then Some (VFS_EINVAL, st)
      else
        (case sched_current st of
           None \<Rightarrow> Some (VFS_ERR, st)
         | Some cur \<Rightarrow> do {
             fdt \<leftarrow> pcb_fd_table st cur;
             st \<leftarrow> vfs_acquire st;
             (case (if unat oldfd < MAX_FDS then fdt ! unat oldfd else None) of
                None \<Rightarrow> Some (VFS_EINVAL, vfs_unlock st)
              | Some n \<Rightarrow> do {
                  st \<leftarrow> (case fdt ! unat newfd of
                      None \<Rightarrow> Some st
                    | Some old \<Rightarrow> drop_ref old (set_fd cur (unat newfd) None st));
                  let st = set_fd cur (unat newfd) (Some n) st;
                  let st = upd_node n (\<lambda>x. x\<lparr>vn_refcount := vn_refcount x + 1\<rparr>) st;
                  Some (int (unat newfd), vfs_unlock st) }) }))"

end
