(* ===== verification/Ramfs.thy ===== *)
theory Ramfs
  imports Vfs
begin

text \<open>
  The memory file system, \<^verbatim>\<open>kernel/vfs/ramfs.c\<close>: three fixed tables of entries whose file data live
  in the kernel heap, and the operations the file system layer calls through its backend record.

  The state the backend works on is the kernel heap with the bytes of the blocks in use (both of
  them fields of \<open>ports\<close>) and \<open>ramfs_state\<close>. A handle is the address of a heap block that holds a
  \<open>ramfs_file\<close>. The heap does not clear blocks: \<open>stale p i\<close> is what byte \<open>i\<close> of the block at \<open>p\<close>
  holds when it is handed out.
\<close>

definition RAMFS_NAME_LEN :: nat where "RAMFS_NAME_LEN = 256"
definition RAMFS_MAX_FILES :: nat where "RAMFS_MAX_FILES = 256"

record ramfs_entry =
  re_path :: "u8 list"
  re_data :: u64
  re_size :: u64
  re_kind :: u8
  re_valid :: u8

record ramfs =
  fs_entries :: "ramfs_entry list"
  fs_lock :: u32
  fs_name :: "u8 list"

text \<open>An entry pointer is a slot of the table or the static entry that stands for the root directory.\<close>

datatype entry_ref = Slot nat | SRoot

record ramfs_file =
  rf_fs :: nat
  rf_entry :: entry_ref
  rf_offset :: u64

record ramfs_state =
  filesystems :: "ramfs list"
  s_root :: ramfs_entry
  open_files :: "u64 \<rightharpoonup> ramfs_file"
  stale :: "u64 \<Rightarrow> nat \<Rightarrow> u8"

type_synonym fsw = "ports \<times> ramfs_state"

definition G_BOOT_FS :: nat where "G_BOOT_FS = 0"
definition G_VFS_ROOT_FS :: nat where "G_VFS_ROOT_FS = 1"
definition G_ROOT_FS :: nat where "G_ROOT_FS = 2"

definition zero_entry :: ramfs_entry where
  "zero_entry = \<lparr>re_path = replicate RAMFS_NAME_LEN 0, re_data = 0, re_size = 0, re_kind = 0, re_valid = 0\<rparr>"

subsection \<open>Access to the state\<close>

definition fs_of :: "fsw \<Rightarrow> nat \<Rightarrow> ramfs" where
  "fs_of w k = filesystems (snd w) ! k"

definition upd_fs :: "nat \<Rightarrow> (ramfs \<Rightarrow> ramfs) \<Rightarrow> fsw \<Rightarrow> fsw" where
  "upd_fs k f w = (fst w, (snd w)\<lparr>filesystems := (filesystems (snd w))[k := f (fs_of w k)]\<rparr>)"

definition entry_of :: "fsw \<Rightarrow> nat \<Rightarrow> entry_ref \<Rightarrow> ramfs_entry" where
  "entry_of w k r = (case r of Slot i \<Rightarrow> fs_entries (fs_of w k) ! i | SRoot \<Rightarrow> s_root (snd w))"

definition upd_entry :: "nat \<Rightarrow> entry_ref \<Rightarrow> (ramfs_entry \<Rightarrow> ramfs_entry) \<Rightarrow> fsw \<Rightarrow> fsw" where
  "upd_entry k r f w =
     (case r of
        Slot i \<Rightarrow> upd_fs k (\<lambda>fs. fs\<lparr>fs_entries := (fs_entries fs)[i := f (fs_entries fs ! i)]\<rparr>) w
      | SRoot \<Rightarrow> (fst w, (snd w)\<lparr>s_root := f (s_root (snd w))\<rparr>))"

definition fs_acquire :: "nat \<Rightarrow> fsw \<Rightarrow> fsw option" where
  "fs_acquire k w = map_option (\<lambda>l. upd_fs k (\<lambda>fs. fs\<lparr>fs_lock := l\<rparr>) w) (spin_lock (fs_lock (fs_of w k)))"

definition fs_release :: "nat \<Rightarrow> fsw \<Rightarrow> fsw" where
  "fs_release k w = upd_fs k (\<lambda>fs. fs\<lparr>fs_lock := spin_unlock (fs_lock fs)\<rparr>) w"

text \<open>A block of the heap for data, with the bytes it holds, and its release.\<close>

definition new_block :: "u64 \<Rightarrow> fsw \<Rightarrow> (u64 \<times> fsw) option" where
  "new_block n w = do {
     (p, h) \<leftarrow> kmalloc (port_heap (fst w)) n;
     Some (p, if p = 0 then ((fst w)\<lparr>port_heap := h\<rparr>, snd w)
              else ((fst w)\<lparr>port_heap := h, kbufs := (kbufs (fst w))(p \<mapsto> map (stale (snd w) p) [0..<unat n])\<rparr>, snd w)) }"

definition free_block :: "u64 \<Rightarrow> fsw \<Rightarrow> fsw option" where
  "free_block p w = do {
     h \<leftarrow> kfree (port_heap (fst w)) p;
     Some ((fst w)\<lparr>port_heap := h, kbufs := (kbufs (fst w))(p := None)\<rparr>, snd w) }"

definition block :: "fsw \<Rightarrow> u64 \<Rightarrow> u8 list option" where
  "block w p = kbufs (fst w) p"

definition set_block :: "u64 \<Rightarrow> u8 list \<Rightarrow> fsw \<Rightarrow> fsw" where
  "set_block p b w = ((fst w)\<lparr>kbufs := (kbufs (fst w))(p \<mapsto> b)\<rparr>, snd w)"

text \<open>\<open>memcpy (p + off, src, n)\<close> into a block.\<close>

definition copy_in :: "u64 \<Rightarrow> nat \<Rightarrow> u8 list \<Rightarrow> nat \<Rightarrow> fsw \<Rightarrow> fsw option" where
  "copy_in p off src n w =
     (if n = 0 then Some w
      else do {
        b \<leftarrow> block w p;
        s \<leftarrow> buf_read src 0 n;
        b \<leftarrow> buf_write b off s;
        Some (set_block p b w) })"

subsection \<open>Entries\<close>

fun find_entry :: "nat \<Rightarrow> ramfs_entry list \<Rightarrow> u8 list \<Rightarrow> nat option option" where
  "find_entry i [] path = Some None"
| "find_entry i (e # es) path =
     (if re_valid e = 0 then find_entry (Suc i) es path
      else do {
        c \<leftarrow> strcmp (re_path e) path;
        if c = 0 then Some (Some i) else find_entry (Suc i) es path })"

definition ramfs_find :: "fsw \<Rightarrow> nat \<Rightarrow> u8 list \<Rightarrow> nat option option" where
  "ramfs_find w k path = find_entry 0 (fs_entries (fs_of w k)) path"

definition free_slot_of :: "fsw \<Rightarrow> nat \<Rightarrow> nat option" where
  "free_slot_of w k = first_idx (\<lambda>e. re_valid e = 0) (fs_entries (fs_of w k))"

definition ramfs_add_file :: "nat \<Rightarrow> u8 list \<Rightarrow> u8 list option \<Rightarrow> u64 \<Rightarrow> fsw \<Rightarrow> (int \<times> fsw) option" where
  "ramfs_add_file k path data sz w = do {
     w \<leftarrow> fs_acquire k w;
     (case free_slot_of w k of
        None \<Rightarrow> Some (-1, fs_release k w)
      | Some i \<Rightarrow> do {
          np \<leftarrow> strncpy (re_path (entry_of w k (Slot i))) path RAMFS_NAME_LEN;
          let w = upd_entry k (Slot i) (\<lambda>e. e\<lparr>re_path := np\<rparr>) w;
          (p, w) \<leftarrow> new_block sz w;
          let w = upd_entry k (Slot i) (\<lambda>e. e\<lparr>re_data := p\<rparr>) w;
          if p = 0 \<and> sz > 0 then Some (-1, fs_release k w)
          else do {
            w \<leftarrow> (case data of Some d \<Rightarrow> if sz > 0 then copy_in p 0 d (unat sz) w else Some w | None \<Rightarrow> Some w);
            let w = upd_entry k (Slot i) (\<lambda>e. e\<lparr>re_size := sz, re_kind := VFS_NODE_FILE, re_valid := 1\<rparr>) w;
            Some (0, fs_release k w) } }) }"

definition ramfs_add_dir :: "nat \<Rightarrow> u8 list \<Rightarrow> fsw \<Rightarrow> (int \<times> fsw) option" where
  "ramfs_add_dir k path w = do {
     w \<leftarrow> fs_acquire k w;
     (case free_slot_of w k of
        None \<Rightarrow> Some (-1, fs_release k w)
      | Some i \<Rightarrow> do {
          np \<leftarrow> strncpy (re_path (entry_of w k (Slot i))) path RAMFS_NAME_LEN;
          let w = upd_entry k (Slot i) (\<lambda>e. e\<lparr>re_path := np, re_data := 0, re_size := 0, re_kind := VFS_NODE_DIR, re_valid := 1\<rparr>) w;
          Some (0, fs_release k w) }) }"

subsection \<open>The backend operations\<close>

definition open_entry :: "nat \<Rightarrow> u8 list \<Rightarrow> u32 \<Rightarrow> fsw \<Rightarrow> (entry_ref option \<times> fsw) option" where
  "open_entry k path fl w = do {
     e \<leftarrow> ramfs_find w k path;
     (case e of
        Some i \<Rightarrow> Some (Some (Slot i), w)
      | None \<Rightarrow>
          if fl AND VFS_O_DIR \<noteq> 0 \<and> take 2 path = [47, 0] then Some (Some SRoot, w)
          else if fl AND VFS_O_CREAT \<noteq> 0 then
            (case free_slot_of w k of
               None \<Rightarrow> Some (None, w)
             | Some i \<Rightarrow> do {
                 np \<leftarrow> strncpy (re_path (entry_of w k (Slot i))) path RAMFS_NAME_LEN;
                 Some (Some (Slot i), upd_entry k (Slot i)
                   (\<lambda>e. e\<lparr>re_path := np, re_data := 0, re_size := 0, re_kind := VFS_NODE_FILE, re_valid := 1\<rparr>) w) })
          else Some (None, w)) }"

definition ramfs_open :: "nat option \<Rightarrow> u8 list \<Rightarrow> u32 \<Rightarrow> fsw \<Rightarrow> (u64 \<times> fsw) option" where
  "ramfs_open ctx path fl w =
     (case ctx of
        None \<Rightarrow> Some (0, w)
      | Some k \<Rightarrow> do {
          w \<leftarrow> fs_acquire k w;
          (e, w) \<leftarrow> open_entry k path fl w;
          (case e of
             None \<Rightarrow> Some (0, fs_release k w)
           | Some r \<Rightarrow>
               if re_kind (entry_of w k r) = VFS_NODE_DIR \<and> fl AND VFS_O_DIR = 0 then Some (0, fs_release k w)
               else do {
                 w \<leftarrow> (if fl AND VFS_O_TRUNC \<noteq> 0 \<and> re_kind (entry_of w k r) = VFS_NODE_FILE \<and> re_data (entry_of w k r) \<noteq> 0
                       then map_option (upd_entry k r (\<lambda>e. e\<lparr>re_data := 0, re_size := 0\<rparr>)) (free_block (re_data (entry_of w k r)) w)
                       else Some w);
                 (f, h) \<leftarrow> kmalloc (port_heap (fst w)) 24;
                 let w = ((fst w)\<lparr>port_heap := h\<rparr>, snd w);
                 if f = 0 then Some (0, fs_release k w)
                 else
                   let w = (fst w, (snd w)\<lparr>open_files := (open_files (snd w))(f \<mapsto> \<lparr>rf_fs = k, rf_entry = r, rf_offset = 0\<rparr>)\<rparr>) in
                   Some (f, fs_release k w) }) })"

definition ramfs_close :: "nat option \<Rightarrow> u64 \<Rightarrow> fsw \<Rightarrow> fsw option" where
  "ramfs_close ctx bctx w =
     (if bctx \<noteq> 0 then do {
        h \<leftarrow> kfree (port_heap (fst w)) bctx;
        Some ((fst w)\<lparr>port_heap := h\<rparr>, (snd w)\<lparr>open_files := (open_files (snd w))(bctx := None)\<rparr>) }
      else Some w)"

definition upd_file :: "u64 \<Rightarrow> (ramfs_file \<Rightarrow> ramfs_file) \<Rightarrow> fsw \<Rightarrow> fsw" where
  "upd_file p f w = (fst w, (snd w)\<lparr>open_files := (open_files (snd w))(p := map_option f (open_files (snd w) p))\<rparr>)"

definition ramfs_read ::
  "nat option \<Rightarrow> u64 \<Rightarrow> u8 list \<Rightarrow> u64 \<Rightarrow> u64 option \<Rightarrow> fsw \<Rightarrow> (int \<times> u8 list \<times> u64 option \<times> fsw) option" where
  "ramfs_read ctx bctx buf n got w =
     (if bctx = 0 then Some (VFS_EINVAL, buf, got, w)
      else do {
        f \<leftarrow> open_files (snd w) bctx;
        let e = entry_of w (rf_fs f) (rf_entry f);
        if rf_offset f \<ge> re_size e then Some (0, buf, map_option (\<lambda>_. 0) got, w)
        else do {
          let avail = re_size e - rf_offset f;
          let to_read = (if n < avail then n else avail);
          d \<leftarrow> block w (re_data e);
          s \<leftarrow> buf_read d (unat (rf_offset f)) (unat to_read);
          buf \<leftarrow> buf_write buf 0 s;
          Some (0, buf, map_option (\<lambda>_. to_read) got, upd_file bctx (\<lambda>f. f\<lparr>rf_offset := rf_offset f + to_read\<rparr>) w) } })"

definition grow_entry :: "nat \<Rightarrow> entry_ref \<Rightarrow> u64 \<Rightarrow> fsw \<Rightarrow> (bool \<times> fsw) option" where
  "grow_entry k r new_end w =
     (let e = entry_of w k r in
      if new_end > re_size e then do {
        (nb, w) \<leftarrow> new_block new_end w;
        if nb = 0 then Some (False, w)
        else do {
          w \<leftarrow> (if re_data e \<noteq> 0 \<and> re_size e > 0 then do { d \<leftarrow> block w (re_data e); copy_in nb 0 d (unat (re_size e)) w } else Some w);
          w \<leftarrow> (if re_data e \<noteq> 0 then free_block (re_data e) w else Some w);
          Some (True, upd_entry k r (\<lambda>e. e\<lparr>re_data := nb, re_size := new_end\<rparr>) w) } }
      else Some (True, w))"

definition ramfs_write :: "nat option \<Rightarrow> u64 \<Rightarrow> u8 list \<Rightarrow> u64 \<Rightarrow> fsw \<Rightarrow> (int \<times> fsw) option" where
  "ramfs_write ctx bctx buf n w =
     (if bctx = 0 then Some (VFS_EINVAL, w)
      else do {
        f \<leftarrow> open_files (snd w) bctx;
        let k = rf_fs f;
        let r = rf_entry f;
        if n > 0 \<and> rf_offset f + n < rf_offset f then Some (VFS_ENOSPC, w)
        else do {
          let new_end = rf_offset f + n;
          w \<leftarrow> fs_acquire k w;
          (ok, w) \<leftarrow> grow_entry k r new_end w;
          if \<not> ok then Some (VFS_ENOSPC, fs_release k w)
          else do {
            w \<leftarrow> copy_in (re_data (entry_of w k r)) (unat (rf_offset f)) buf (unat n) w;
            let w = upd_file bctx (\<lambda>f. f\<lparr>rf_offset := rf_offset f + n\<rparr>) w;
            Some (0, fs_release k w) } } })"

definition ramfs_seek :: "nat option \<Rightarrow> u64 \<Rightarrow> int \<Rightarrow> int \<Rightarrow> fsw \<Rightarrow> (int \<times> fsw) option" where
  "ramfs_seek ctx bctx off whence w =
     (if bctx = 0 then Some (VFS_EINVAL, w)
      else do {
        f \<leftarrow> open_files (snd w) bctx;
        let e = entry_of w (rf_fs f) (rf_entry f);
        if whence \<notin> {VFS_SEEK_SET, VFS_SEEK_CUR, VFS_SEEK_END} then Some (VFS_EINVAL, w)
        else do {
          new_off \<leftarrow> (if whence = VFS_SEEK_SET then Some off
                      else if whence = VFS_SEEK_CUR then s64 (sint (rf_offset f) + off)
                      else s64 (sint (re_size e) + off));
          if new_off < 0 \<or> (of_int new_off :: u64) > re_size e then Some (VFS_EINVAL, w)
          else Some (new_off, upd_file bctx (\<lambda>f. f\<lparr>rf_offset := of_int new_off\<rparr>) w) } })"

text \<open>
  Listing a directory. \<open>child_name\<close> is the part of an entry's path below the directory, if it is
  below it; a name with a slash in it stands for a subdirectory and is looked up among the
  entries listed so far.
\<close>

definition child_name :: "u8 list \<Rightarrow> nat \<Rightarrow> u8 list \<Rightarrow> u8 list option option" where
  "child_name dir dlen path =
     (if dlen = 1 \<and> hd dir = 47 then
        if length path < 2 then None
        else Some (if path ! 0 \<noteq> 47 \<or> path ! 1 = 0 then None else Some (drop 1 path))
      else do {
        c \<leftarrow> strncmp path dir dlen;
        if c \<noteq> 0 then Some None
        else if dlen < length path then Some (if path ! dlen \<noteq> 47 then None else Some (drop (dlen + 1) path))
        else None })"

fun listed :: "vfs_dirent list \<Rightarrow> u8 list \<Rightarrow> nat \<Rightarrow> bool option" where
  "listed [] nm sub_len = Some False"
| "listed (d # ds) nm sub_len = do {
     c \<leftarrow> strncmp (de_name d) nm sub_len;
     if c = 0 \<and> \<not> sub_len < length (de_name d) then None
     else if c = 0 \<and> de_name d ! sub_len = 0 \<and> de_kind d = VFS_NODE_DIR then Some True
     else listed ds nm sub_len }"

definition put_dirent :: "vfs_dirent list \<Rightarrow> nat \<Rightarrow> u8 list \<Rightarrow> nat \<Rightarrow> u8 \<Rightarrow> int \<Rightarrow> vfs_dirent list option" where
  "put_dirent buf count nm len kd sz =
     (if count < length buf then do {
        dn \<leftarrow> strncpy (de_name (buf ! count)) nm len;
        Some (buf[count := \<lparr>de_name = dn, de_kind = kd, de_size = sz\<rparr>]) }
      else None)"

fun readdir_loop ::
  "entry_ref \<Rightarrow> u8 list \<Rightarrow> nat \<Rightarrow> u32 \<Rightarrow> nat \<Rightarrow> ramfs_entry list \<Rightarrow> vfs_dirent list \<Rightarrow> nat \<Rightarrow> (vfs_dirent list \<times> nat) option" where
  "readdir_loop self dir dlen cp i [] buf count = Some (buf, count)"
| "readdir_loop self dir dlen cp i (e # es) buf count =
     (if \<not> count < unat cp then Some (buf, count)
      else if re_valid e = 0 \<or> self = Slot i then readdir_loop self dir dlen cp (Suc i) es buf count
      else do {
        nm \<leftarrow> child_name dir dlen (re_path e);
        (case nm of
           None \<Rightarrow> readdir_loop self dir dlen cp (Suc i) es buf count
         | Some nm \<Rightarrow> do {
             slash \<leftarrow> strrchr nm 47;
             (case slash of
                Some sub_len \<Rightarrow> do {
                  found \<leftarrow> listed (take count buf) nm sub_len;
                  if found then readdir_loop self dir dlen cp (Suc i) es buf count
                  else do {
                    buf \<leftarrow> put_dirent buf count nm (sub_len + 1) VFS_NODE_DIR 0;
                    readdir_loop self dir dlen cp (Suc i) es buf (count + 1) } }
              | None \<Rightarrow> do {
                  buf \<leftarrow> put_dirent buf count nm VFS_DIRENT_NAME_LEN (re_kind e) (sint (re_size e));
                  readdir_loop self dir dlen cp (Suc i) es buf (count + 1) }) }) })"

definition ramfs_readdir ::
  "nat option \<Rightarrow> u64 \<Rightarrow> vfs_dirent list \<Rightarrow> u32 \<Rightarrow> u32 option \<Rightarrow> fsw \<Rightarrow> (int \<times> vfs_dirent list \<times> u32 option \<times> fsw) option" where
  "ramfs_readdir ctx bctx buf cp n_out w =
     (if bctx = 0 then Some (VFS_EINVAL, buf, n_out, w)
      else do {
        f \<leftarrow> open_files (snd w) bctx;
        let k = rf_fs f;
        w \<leftarrow> fs_acquire k w;
        let dir = re_path (entry_of w k (rf_entry f));
        dlen \<leftarrow> strlen dir;
        (buf, count) \<leftarrow> readdir_loop (rf_entry f) dir dlen cp 0 (fs_entries (fs_of w k)) buf 0;
        _ \<leftarrow> n_out;
        Some (0, buf, Some (of_nat count), fs_release k w) })"

definition base_name_from_path :: "u8 list \<Rightarrow> u8 list \<Rightarrow> nat \<Rightarrow> u8 list option" where
  "base_name_from_path path out1 out_sz = do {
     sep \<leftarrow> strrchr path 47;
     strncpy out1 (case sep of Some k \<Rightarrow> drop (k + 1) path | None \<Rightarrow> path) out_sz }"

definition ramfs_stat :: "nat option \<Rightarrow> u8 list \<Rightarrow> stat_info \<Rightarrow> fsw \<Rightarrow> (int \<times> stat_info \<times> fsw) option" where
  "ramfs_stat ctx path out1 w =
     (case ctx of
        None \<Rightarrow> Some (VFS_ENODEV, out1, w)
      | Some k \<Rightarrow> do {
          w \<leftarrow> fs_acquire k w;
          e \<leftarrow> ramfs_find w k path;
          (case e of
             None \<Rightarrow> Some (VFS_ENOENT, out1, fs_release k w)
           | Some i \<Rightarrow> do {
               let e = entry_of w k (Slot i);
               nm \<leftarrow> base_name_from_path (re_path e) (si_name out1) VFS_PATH_MAX;
               Some (0, out1\<lparr>si_size := sint (re_size e), si_kind := re_kind e, si_mtime_ns := 0, si_name := nm\<rparr>, fs_release k w) }) })"

definition ramfs_unlink :: "nat option \<Rightarrow> u8 list \<Rightarrow> fsw \<Rightarrow> (int \<times> fsw) option" where
  "ramfs_unlink ctx path w = Some (VFS_EPERM, w)"

definition ramfs_mkdir :: "nat option \<Rightarrow> u8 list \<Rightarrow> fsw \<Rightarrow> (int \<times> fsw) option" where
  "ramfs_mkdir ctx path w =
     (case ctx of
        None \<Rightarrow> Some (VFS_ENODEV, w)
      | Some k \<Rightarrow> map_option (\<lambda>(rc, w). (if rc = 0 then 0 else VFS_ENOSPC, w)) (ramfs_add_dir k path w))"

definition ramfs_ops :: "fsw vfs_ops" where
  "ramfs_ops = \<lparr>op_open = Some ramfs_open, op_close = Some ramfs_close, op_read = Some ramfs_read,
     op_write = Some ramfs_write, op_seek = Some ramfs_seek, op_readdir = Some ramfs_readdir,
     op_stat = Some ramfs_stat, op_unlink = Some ramfs_unlink, op_mkdir = Some ramfs_mkdir\<rparr>"

subsection \<open>Mounting, and writing without a handle\<close>

definition empty_ramfs :: "u8 list \<Rightarrow> ramfs" where
  "empty_ramfs nm = \<lparr>fs_entries = replicate RAMFS_MAX_FILES zero_entry, fs_lock = 0, fs_name = nm\<rparr>"

definition reset_fs :: "nat \<Rightarrow> u8 list \<Rightarrow> fsw vfs \<Rightarrow> fsw vfs" where
  "reset_fs k nm st = st\<lparr>world := upd_fs k (\<lambda>_. empty_ramfs nm) (world st)\<rparr>"

definition ramfs_boot_init :: "fsw vfs \<Rightarrow> (u32 \<times> fsw vfs) option" where
  "ramfs_boot_init st = vfs_mount (reset_fs G_BOOT_FS (str ''/boot'') st) (Some (str ''/boot'')) ramfs_ops (Some G_BOOT_FS)"

definition ramfs_root_init :: "fsw vfs \<Rightarrow> u8 list option \<Rightarrow> u64 \<Rightarrow> (u32 \<times> fsw vfs) option" where
  "ramfs_root_init st initrd sz = do {
     let st = reset_fs G_ROOT_FS (str ''/root'') st;
     st \<leftarrow> (if initrd \<noteq> None \<and> sz > 0
            then map_option (\<lambda>(_, w). st\<lparr>world := w\<rparr>) (ramfs_add_file G_ROOT_FS (str ''/initrd'') initrd sz (world st))
            else Some st);
     vfs_mount st (Some (str ''/root'')) ramfs_ops (Some G_ROOT_FS) }"

definition ramfs_mount_root :: "fsw vfs \<Rightarrow> (u32 \<times> fsw vfs) option" where
  "ramfs_mount_root st = vfs_mount (reset_fs G_VFS_ROOT_FS (str ''/'') st) (Some (str ''/'')) ramfs_ops (Some G_VFS_ROOT_FS)"

definition ramfs_root_mkdir :: "u8 list \<Rightarrow> fsw \<Rightarrow> (int \<times> fsw) option" where
  "ramfs_root_mkdir path w = do {
     e \<leftarrow> ramfs_find w G_VFS_ROOT_FS path;
     if e \<noteq> None then Some (0, w) else ramfs_add_dir G_VFS_ROOT_FS path w }"

definition ramfs_root_writefile :: "u8 list \<Rightarrow> u8 list option \<Rightarrow> u64 \<Rightarrow> fsw \<Rightarrow> (int \<times> fsw) option" where
  "ramfs_root_writefile path data sz w = do {
     w \<leftarrow> fs_acquire G_VFS_ROOT_FS w;
     e \<leftarrow> ramfs_find w G_VFS_ROOT_FS path;
     (case e of
        None \<Rightarrow> ramfs_add_file G_VFS_ROOT_FS path data sz (fs_release G_VFS_ROOT_FS w)
      | Some i \<Rightarrow> do {
          (nb, w) \<leftarrow> (if sz > 0 then new_block sz w else Some (0, w));
          if nb = 0 \<and> sz > 0 then Some (-1, fs_release G_VFS_ROOT_FS w)
          else do {
            let old = re_data (entry_of w G_VFS_ROOT_FS (Slot i));
            w \<leftarrow> (if old \<noteq> 0 then free_block old w else Some w);
            let w = upd_entry G_VFS_ROOT_FS (Slot i) (\<lambda>e. e\<lparr>re_data := nb\<rparr>) w;
            w \<leftarrow> (case data of Some d \<Rightarrow> if sz > 0 then copy_in nb 0 d (unat sz) w else Some w | None \<Rightarrow> Some w);
            Some (0, fs_release G_VFS_ROOT_FS (upd_entry G_VFS_ROOT_FS (Slot i) (\<lambda>e. e\<lparr>re_size := sz\<rparr>) w)) } }) }"

end
