(* ===== verification/Ramfs_Inv.thy ===== *)
theory Ramfs_Inv
  imports Ramfs
begin

text \<open>
  The invariant of the memory file system: every entry's data block is an object of the kernel heap
  that belongs to it alone and has the size of the file, and every handle is a heap object of its
  own that refers to an existing entry. The steps the operations are made of keep it.
\<close>

subsection \<open>Entries under updates\<close>

definition ok_ref :: "nat \<Rightarrow> entry_ref \<Rightarrow> bool" where
  "ok_ref k r \<longleftrightarrow> k < 3 \<and> (case r of Slot i \<Rightarrow> i < 256 | SRoot \<Rightarrow> True)"

definition same_ref :: "nat \<Rightarrow> entry_ref \<Rightarrow> nat \<Rightarrow> entry_ref \<Rightarrow> bool" where
  "same_ref k r k' r' \<longleftrightarrow> r = r' \<and> (r = SRoot \<or> k = k')"

definition shape :: "ramfs_state \<Rightarrow> bool" where
  "shape rs \<longleftrightarrow> length (filesystems rs) = 3 \<and> (\<forall>fs\<in>set (filesystems rs). length (fs_entries fs) = 256)"

definition locks :: "fsw \<Rightarrow> u32 list" where
  "locks w = map fs_lock (filesystems (snd w))"

definition upd_ref :: "nat \<Rightarrow> entry_ref \<Rightarrow> ramfs_entry \<Rightarrow> (nat \<Rightarrow> entry_ref \<Rightarrow> ramfs_entry) \<Rightarrow> nat \<Rightarrow> entry_ref \<Rightarrow> ramfs_entry" where
  "upd_ref k r e E = (\<lambda>k' r'. if same_ref k r k' r' then e else E k' r')"

lemma same_ref_refl [simp]: "same_ref k r k r"
  by (simp add: same_ref_def)

lemma upd_ref_same [simp]: "upd_ref k r e E k r = e"
  by (simp add: upd_ref_def)

lemma shape_len: "shape rs \<Longrightarrow> k < 3 \<Longrightarrow> length (fs_entries (filesystems rs ! k)) = 256"
  by (simp add: shape_def)

lemma upd_fs_fields [simp]:
  "fst (upd_fs k f w) = fst w" "open_files (snd (upd_fs k f w)) = open_files (snd w)"
  "s_root (snd (upd_fs k f w)) = s_root (snd w)" "stale (snd (upd_fs k f w)) = stale (snd w)"
  by (simp_all add: upd_fs_def)

lemma upd_entry_fields [simp]:
  "fst (upd_entry k r f w) = fst w" "open_files (snd (upd_entry k r f w)) = open_files (snd w)"
  "stale (snd (upd_entry k r f w)) = stale (snd w)"
  by (simp_all add: upd_entry_def split: entry_ref.splits)

lemma entry_of_upd:
  assumes "shape (snd w)" "ok_ref k r"
  shows "entry_of (upd_entry k r f w) = upd_ref k r (f (entry_of w k r)) (entry_of w)"
  using assms shape_len[OF assms(1), of k]
  by (auto simp: fun_eq_iff upd_ref_def same_ref_def entry_of_def upd_entry_def upd_fs_def fs_of_def ok_ref_def shape_def nth_list_update
      split: entry_ref.splits)

lemma shape_upd_entry [simp]: "shape (snd (upd_entry k r f w)) = shape (snd w)"
proof (cases r)
  case (Slot i)
  let ?g = "\<lambda>fs. fs\<lparr>fs_entries := (fs_entries fs)[i := f (fs_entries fs ! i)]\<rparr>"
  have "(\<forall>fs\<in>set (xs[k := ?g (xs ! k)]). length (fs_entries fs) = 256) = (\<forall>fs\<in>set xs. length (fs_entries fs) = 256)" for xs :: "ramfs list"
    by (cases "k < length xs") (auto simp: all_set_conv_all_nth nth_list_update)
  then show ?thesis using Slot by (simp add: shape_def upd_entry_def upd_fs_def fs_of_def)
qed (simp add: shape_def upd_entry_def)

lemma locks_upd_entry [simp]: "locks (upd_entry k r f w) = locks w"
proof (cases r)
  case (Slot i)
  then show ?thesis
    by (auto simp: locks_def upd_entry_def upd_fs_def fs_of_def map_update intro!: list_update_same_conv[THEN iffD2] nth_equalityI)
      (cases "k < length (filesystems (snd w))", simp_all add: nth_list_update)
qed (simp add: locks_def upd_entry_def)

lemma lock_fields [simp]:
  "entry_of (upd_fs k (\<lambda>fs. fs\<lparr>fs_lock := g fs\<rparr>) w) = entry_of w"
  "shape (snd (upd_fs k (\<lambda>fs. fs\<lparr>fs_lock := g fs\<rparr>) w)) = shape (snd w)"
proof -
  show "entry_of (upd_fs k (\<lambda>fs. fs\<lparr>fs_lock := g fs\<rparr>) w) = entry_of w"
    by (cases "k < length (filesystems (snd w))")
      (auto simp: fun_eq_iff entry_of_def upd_fs_def fs_of_def nth_list_update list_update_beyond not_less split: entry_ref.splits)
  have "(\<forall>fs\<in>set (xs[k := (xs ! k)\<lparr>fs_lock := l\<rparr>]). length (fs_entries fs) = 256) = (\<forall>fs\<in>set xs. length (fs_entries fs) = 256)" for xs :: "ramfs list" and l
    by (cases "k < length xs") (auto simp: all_set_conv_all_nth nth_list_update)
  then show "shape (snd (upd_fs k (\<lambda>fs. fs\<lparr>fs_lock := g fs\<rparr>) w)) = shape (snd w)"
    by (simp add: shape_def upd_fs_def fs_of_def)
qed

lemma locks_upd_fs: "locks (upd_fs k (\<lambda>fs. fs\<lparr>fs_lock := g fs\<rparr>) w) = (locks w)[k := g (fs_of w k)]"
  by (simp add: locks_def upd_fs_def map_update)

lemma fs_acquire_free:
  assumes "locks w = replicate 3 0" "k < 3"
  shows "fs_acquire k w = Some (upd_fs k (\<lambda>fs. fs\<lparr>fs_lock := 1\<rparr>) w)"
proof -
  have "length (filesystems (snd w)) = 3" using assms(1) by (metis locks_def length_map length_replicate)
  then have "fs_lock (fs_of w k) = locks w ! k" using assms(2) by (simp add: locks_def fs_of_def)
  then show ?thesis using assms by (simp add: fs_acquire_def)
qed

lemma fs_release_fields [simp]:
  "fst (fs_release k w) = fst w" "open_files (snd (fs_release k w)) = open_files (snd w)" "entry_of (fs_release k w) = entry_of w"
  "shape (snd (fs_release k w)) = shape (snd w)" "locks (fs_release k w) = (locks w)[k := 0]"
  by (simp_all add: fs_release_def locks_upd_fs)

subsection \<open>The invariant\<close>

definition entry_ok :: "kheap \<Rightarrow> (u64 \<rightharpoonup> u8 list) \<Rightarrow> ramfs_entry \<Rightarrow> bool" where
  "entry_ok h kb e \<longleftrightarrow> length (re_path e) = 256 \<and> terminated (re_path e) \<and>
     (if re_data e = 0 then re_size e = 0
      else re_data e \<in> heap_owned h \<and> (\<exists>b. kb (re_data e) = Some b \<and> length b = unat (re_size e)))"

definition ram_inv4 :: "kheap \<Rightarrow> (u64 \<rightharpoonup> u8 list) \<Rightarrow> (nat \<Rightarrow> entry_ref \<Rightarrow> ramfs_entry) \<Rightarrow> (u64 \<rightharpoonup> ramfs_file) \<Rightarrow> bool" where
  "ram_inv4 h kb E F \<longleftrightarrow> heap_ok h \<and>
     (\<forall>k r. ok_ref k r \<longrightarrow> entry_ok h kb (E k r)) \<and>
     (\<forall>k r k' r'. ok_ref k r \<longrightarrow> ok_ref k' r' \<longrightarrow> re_data (E k r) \<noteq> 0 \<longrightarrow> re_data (E k r) = re_data (E k' r') \<longrightarrow> same_ref k r k' r') \<and>
     (\<forall>p f. F p = Some f \<longrightarrow> p \<noteq> 0 \<and> p \<in> heap_owned h \<and> ok_ref (rf_fs f) (rf_entry f) \<and>
        (\<forall>k r. ok_ref k r \<longrightarrow> re_data (E k r) \<noteq> p))"

definition ram_inv :: "fsw \<Rightarrow> bool" where
  "ram_inv w \<longleftrightarrow> shape (snd w) \<and> locks w = replicate 3 0 \<and>
     ram_inv4 (port_heap (fst w)) (kbufs (fst w)) (entry_of w) (open_files (snd w))"

lemma inv4_heap: "ram_inv4 h kb E F \<Longrightarrow> heap_ok h"
  by (simp add: ram_inv4_def)

lemma inv4_entry: "ram_inv4 h kb E F \<Longrightarrow> ok_ref k r \<Longrightarrow> entry_ok h kb (E k r)"
  by (simp add: ram_inv4_def)

lemma inv4_data: "ram_inv4 h kb E F \<Longrightarrow> ok_ref k r \<Longrightarrow> re_data (E k r) \<noteq> 0 \<Longrightarrow>
    re_data (E k r) \<in> heap_owned h \<and> (\<exists>b. kb (re_data (E k r)) = Some b \<and> length b = unat (re_size (E k r)))"
  using inv4_entry[of h kb E F k r] by (simp add: entry_ok_def)

lemma inv4_distinct: "ram_inv4 h kb E F \<Longrightarrow> ok_ref k r \<Longrightarrow> ok_ref k' r' \<Longrightarrow> re_data (E k r) \<noteq> 0 \<Longrightarrow>
    re_data (E k r) = re_data (E k' r') \<Longrightarrow> same_ref k r k' r'"
  unfolding ram_inv4_def by blast

lemma inv4_file: "ram_inv4 h kb E F \<Longrightarrow> F p = Some f \<Longrightarrow> p \<noteq> 0 \<and> p \<in> heap_owned h \<and> ok_ref (rf_fs f) (rf_entry f)"
  unfolding ram_inv4_def by blast

lemma inv4_file_data: "ram_inv4 h kb E F \<Longrightarrow> F p = Some f \<Longrightarrow> ok_ref k r \<Longrightarrow> re_data (E k r) \<noteq> p"
  unfolding ram_inv4_def by blast

lemma inv4_new_handle:
  assumes "ram_inv4 h kb E F" "p \<notin> heap_owned h" "p \<noteq> 0" "heap_ok h'" "heap_owned h' = insert p (heap_owned h)"
    "ok_ref (rf_fs f) (rf_entry f)"
  shows "ram_inv4 h' kb E (F(p \<mapsto> f))"
  using assms inv4_data[OF assms(1)] unfolding ram_inv4_def entry_ok_def by (auto split: if_splits)

lemma inv4_free_handle:
  assumes "ram_inv4 h kb E F" "F p = Some f" "heap_ok h'" "heap_owned h' = heap_owned h - {p}"
  shows "ram_inv4 h' kb E (F(p := None))"
  using assms inv4_file_data[OF assms(1,2)] unfolding ram_inv4_def entry_ok_def by (auto split: if_splits)

lemma inv4_retarget:
  assumes "ram_inv4 h kb E F" "F p = Some f" "rf_fs f' = rf_fs f" "rf_entry f' = rf_entry f"
  shows "ram_inv4 h kb E (F(p \<mapsto> f'))"
  using assms unfolding ram_inv4_def by (auto split: if_splits)

lemma inv4I:
  assumes "heap_ok h" "\<And>k r. ok_ref k r \<Longrightarrow> entry_ok h kb (E k r)"
    "\<And>k r k' r'. ok_ref k r \<Longrightarrow> ok_ref k' r' \<Longrightarrow> re_data (E k r) \<noteq> 0 \<Longrightarrow> re_data (E k r) = re_data (E k' r') \<Longrightarrow> same_ref k r k' r'"
    "\<And>p f. F p = Some f \<Longrightarrow> p \<noteq> 0 \<and> p \<in> heap_owned h \<and> ok_ref (rf_fs f) (rf_entry f)"
    "\<And>p f k r. F p = Some f \<Longrightarrow> ok_ref k r \<Longrightarrow> re_data (E k r) \<noteq> p"
  shows "ram_inv4 h kb E F"
  unfolding ram_inv4_def using assms by blast

lemma inv4_block_bytes:
  assumes "ram_inv4 h kb E F" "kb d = Some b" "length b' = length b"
  shows "ram_inv4 h (kb(d \<mapsto> b')) E F"
proof (rule inv4I)
  show "entry_ok h (kb(d \<mapsto> b')) (E k r)" if "ok_ref k r" for k r
    using inv4_entry[OF assms(1) that] assms(2,3) by (auto simp: entry_ok_def)
qed (use inv4_heap[OF assms(1)] inv4_distinct[OF assms(1)] inv4_file[OF assms(1)] inv4_file_data[OF assms(1)] in blast)+

lemma inv4_new_block:
  assumes "ram_inv4 h kb E F" "p \<notin> heap_owned h" "heap_ok h'" "heap_owned h' = insert p (heap_owned h)"
  shows "ram_inv4 h' (kb(p \<mapsto> b)) E F"
proof (rule inv4I)
  have ne: "re_data (E k r) \<noteq> p" if "ok_ref k r" "re_data (E k r) \<noteq> 0" for k r
    using inv4_data[OF assms(1) that] assms(2) by auto
  show "entry_ok h' (kb(p \<mapsto> b)) (E k r)" if "ok_ref k r" for k r
    using inv4_entry[OF assms(1) that] ne[OF that] assms(4) by (auto simp: entry_ok_def)
  show "q \<noteq> 0 \<and> q \<in> heap_owned h' \<and> ok_ref (rf_fs f) (rf_entry f)" if "F q = Some f" for q f
    using inv4_file[OF assms(1) that] assms(4) by simp
qed (use assms(3) inv4_distinct[OF assms(1)] inv4_file_data[OF assms(1)] in blast)+

text \<open>Changing one entry: its new data block, if it has one, must belong to nobody else.\<close>

lemma inv4_upd:
  assumes inv: "ram_inv4 h kb E F" and r: "ok_ref k r" and h': "heap_ok h'"
    and ent: "\<And>k' r'. ok_ref k' r' \<Longrightarrow> entry_ok h' kb' (upd_ref k r e E k' r')"
    and other: "\<And>k' r'. re_data e \<noteq> 0 \<Longrightarrow> ok_ref k' r' \<Longrightarrow> re_data (E k' r') \<noteq> re_data e"
    and nofile: "re_data e \<noteq> 0 \<Longrightarrow> F (re_data e) = None"
    and own: "\<And>q f. F q = Some f \<Longrightarrow> q \<in> heap_owned h'"
  shows "ram_inv4 h' kb' (upd_ref k r e E) F"
proof (rule inv4I)
  fix ka ra kb rb
  assume a: "ok_ref ka ra" "ok_ref kb rb" "re_data (upd_ref k r e E ka ra) \<noteq> 0"
    "re_data (upd_ref k r e E ka ra) = re_data (upd_ref k r e E kb rb)"
  consider "same_ref k r ka ra" "same_ref k r kb rb" | "same_ref k r ka ra" "\<not> same_ref k r kb rb"
    | "\<not> same_ref k r ka ra" "same_ref k r kb rb" | "\<not> same_ref k r ka ra" "\<not> same_ref k r kb rb" by blast
  then show "same_ref ka ra kb rb"
  proof cases
    case 1
    then show ?thesis by (auto simp: same_ref_def)
  next
    case 2
    then show ?thesis using a(3,4) other[OF _ a(2)] by (simp add: upd_ref_def)
  next
    case 3
    then show ?thesis using a(3,4) other[OF _ a(1)] by (simp add: upd_ref_def)
  next
    case 4
    then show ?thesis using a(3,4) inv4_distinct[OF inv a(1,2)] by (simp add: upd_ref_def)
  qed
next
  fix q f ka ra
  assume f: "F q = Some f" and a: "ok_ref ka ra"
  have "q \<noteq> 0" using inv4_file[OF inv f] by simp
  then show "re_data (upd_ref k r e E ka ra) \<noteq> q"
    using inv4_file_data[OF inv f a] nofile f by (cases "re_data e = 0") (auto simp: upd_ref_def)
next
  show "q \<noteq> 0 \<and> q \<in> heap_owned h' \<and> ok_ref (rf_fs f) (rf_entry f)" if "F q = Some f" for q f
    using inv4_file[OF inv that] own[OF that] by simp
qed (use h' ent in blast)+

lemma inv4_clear_entry:
  assumes "ram_inv4 h kb E F" "ok_ref k r" "length (re_path e) = 256" "terminated (re_path e)" "re_data e = 0" "re_size e = 0"
  shows "ram_inv4 h kb (upd_ref k r e E) F"
proof (rule inv4_upd[OF assms(1,2) inv4_heap[OF assms(1)]])
  show "entry_ok h kb (upd_ref k r e E k' r')" if "ok_ref k' r'" for k' r'
    using inv4_entry[OF assms(1) that] assms(3-6) by (simp add: upd_ref_def entry_ok_def)
qed (use assms(5) inv4_file[OF assms(1)] in auto)

lemma other_entry_ok:
  assumes "ram_inv4 h kb E F" "ok_ref k r" "ok_ref k' r'" "\<not> same_ref k r k' r'" "re_data (E k r) = d"
    "heap_owned h' = (if d = 0 then heap_owned h else heap_owned h - {d})"
  shows "entry_ok h' (if d = 0 then kb else kb(d := None)) (E k' r')"
proof -
  have ok: "entry_ok h kb (E k' r')" by (rule inv4_entry[OF assms(1,3)])
  show ?thesis
  proof (cases "d = 0")
    case True
    then show ?thesis using ok assms(6) by (simp add: entry_ok_def)
  next
    case False
    then have "re_data (E k' r') \<noteq> d" using inv4_distinct[OF assms(1-3)] assms(4,5) by metis
    then show ?thesis using ok assms(6) False by (simp add: entry_ok_def)
  qed
qed

text \<open>An entry gives up the block \<open>d\<close> it has and takes the block \<open>p\<close> that nobody has.\<close>

lemma inv4_replace_block:
  assumes inv: "ram_inv4 h kb E F" and r: "ok_ref k r" "re_data (E k r) = d"
    and e: "length (re_path e) = 256" "terminated (re_path e)" "re_data e = p" "kb p = Some b" "length b = unat (re_size e)"
    and p: "p \<in> heap_owned h" "p \<noteq> 0" "F p = None" "\<And>k r. ok_ref k r \<Longrightarrow> re_data (E k r) \<noteq> p"
    and h': "heap_ok h'" "heap_owned h' = (if d = 0 then heap_owned h else heap_owned h - {d})"
  shows "ram_inv4 h' (if d = 0 then kb else kb(d := None)) (upd_ref k r e E) F"
proof (rule inv4_upd[OF inv r(1) h'(1)])
  have dp: "d \<noteq> p" using p(4)[OF r(1)] r(2) by simp
  show "entry_ok h' (if d = 0 then kb else kb(d := None)) (upd_ref k r e E k' r')" if "ok_ref k' r'" for k' r'
    using other_entry_ok[OF inv r(1) that _ r(2) h'(2)] e p(1,2) h'(2) dp
    by (cases "same_ref k r k' r'") (auto simp: entry_ok_def upd_ref_def)
  show "q \<in> heap_owned h'" if "F q = Some f" for q f
    using inv4_file[OF inv that] inv4_file_data[OF inv that r(1)] r(2) h'(2) by auto
qed (use e(3) p in auto)

lemma inv4_release_block:
  assumes inv: "ram_inv4 h kb E F" and r: "ok_ref k r" "re_data (E k r) = d" "d \<noteq> 0"
    and e: "length (re_path e) = 256" "terminated (re_path e)" "re_data e = 0" "re_size e = 0"
    and h': "heap_ok h'" "heap_owned h' = heap_owned h - {d}"
  shows "ram_inv4 h' (kb(d := None)) (upd_ref k r e E) F"
proof (rule inv4_upd[OF inv r(1) h'(1)])
  have own: "heap_owned h' = (if d = 0 then heap_owned h else heap_owned h - {d})" using h'(2) r(3) by simp
  show "entry_ok h' (kb(d := None)) (upd_ref k r e E k' r')" if "ok_ref k' r'" for k' r'
  proof (cases "same_ref k r k' r'")
    case True
    then show ?thesis using e by (simp add: entry_ok_def upd_ref_def)
  next
    case False
    then show ?thesis using other_entry_ok[OF inv r(1) that False r(2) own] r(3) by (simp add: upd_ref_def)
  qed
  show "q \<in> heap_owned h'" if "F q = Some f" for q f
    using inv4_file[OF inv that] inv4_file_data[OF inv that r(1)] r(2) h'(2) by auto
qed (use e(3) in auto)

end
