(* ===== verification/Ramfs_Ops.thy ===== *)
theory Ramfs_Ops
  imports Ramfs_Inv
begin

text \<open>
  Every operation of the memory file system returns, keeps the invariant, and does to the file
  behind a handle what its name says.
\<close>

declare split_paired_Ex [simp del]

lemma of_nat_unat_id: "of_nat (unat x) = x" for x :: "'a::len word"
  by simp

lemma same_tables:
  assumes "filesystems (snd w') = filesystems (snd w)" "s_root (snd w') = s_root (snd w)"
  shows "entry_of w' = entry_of w" "locks w' = locks w" "shape (snd w') = shape (snd w)"
  using assms by (auto simp: fun_eq_iff entry_of_def fs_of_def locks_def shape_def split: entry_ref.splits)

definition ram_core :: "fsw \<Rightarrow> bool" where
  "ram_core w \<longleftrightarrow> shape (snd w) \<and> ram_inv4 (port_heap (fst w)) (kbufs (fst w)) (entry_of w) (open_files (snd w))"

definition ram_handles :: "fsw \<Rightarrow> u64 set" where
  "ram_handles w = dom (open_files (snd w))"

lemma ram_inv_core: "ram_inv w \<longleftrightarrow> ram_core w \<and> locks w = replicate 3 0"
  by (auto simp: ram_inv_def ram_core_def)

lemma core_lock [simp]: "ram_core (upd_fs k (\<lambda>fs. fs\<lparr>fs_lock := g fs\<rparr>) w) = ram_core w"
  by (simp add: ram_core_def)

lemma core_release [simp]: "ram_core (fs_release k w) = ram_core w"
  by (simp add: ram_core_def)

lemma core_entry: "ram_core w \<Longrightarrow> ok_ref k r \<Longrightarrow> entry_ok (port_heap (fst w)) (kbufs (fst w)) (entry_of w k r)"
  unfolding ram_core_def using inv4_entry by blast

lemma core_path: "ram_core w \<Longrightarrow> ok_ref k r \<Longrightarrow> length (re_path (entry_of w k r)) = 256 \<and> terminated (re_path (entry_of w k r))"
  using core_entry by (simp add: entry_ok_def)

lemma core_heap: "ram_core w \<Longrightarrow> heap_ok (port_heap (fst w))"
  unfolding ram_core_def using inv4_heap by blast

lemma locked_cycle: "locks w = replicate 3 0 \<Longrightarrow> k < 3 \<Longrightarrow> locks (upd_fs k (\<lambda>fs. fs\<lparr>fs_lock := 1\<rparr>) w) = (replicate 3 0)[k := 1]"
  by (simp add: locks_upd_fs)

lemma unlock_cycle: "k < 3 \<Longrightarrow> (replicate 3 (0::u32))[k := 1, k := 0] = replicate 3 0"
  by (metis list_update_overwrite list_update_same_conv length_replicate nth_replicate)

lemma zero_locks: "k < 3 \<Longrightarrow> (replicate 3 (0::u32))[k := 0] = replicate 3 0"
  using unlock_cycle by simp

subsection \<open>Lookup\<close>

lemma find_entry_total:
  assumes "\<forall>e\<in>set es. terminated (re_path e)" "terminated path"
  shows "\<exists>x. find_entry i es path = Some x \<and> (\<forall>j. x = Some j \<longrightarrow> i \<le> j \<and> j < i + length es \<and>
    re_valid (es ! (j - i)) \<noteq> 0 \<and> cstr (re_path (es ! (j - i))) = cstr path)"
  using assms(1)
proof (induction es arbitrary: i)
  case (Cons e es)
  obtain x where x: "find_entry (Suc i) es path = Some x" "\<forall>j. x = Some j \<longrightarrow> Suc i \<le> j \<and> j < Suc i + length es \<and>
      re_valid (es ! (j - Suc i)) \<noteq> 0 \<and> cstr (re_path (es ! (j - Suc i))) = cstr path"
    using Cons.IH[of "Suc i"] Cons.prems by auto
  have x': "\<forall>j. x = Some j \<longrightarrow> i \<le> j \<and> j < i + length (e # es) \<and>
      re_valid ((e # es) ! (j - i)) \<noteq> 0 \<and> cstr (re_path ((e # es) ! (j - i))) = cstr path"
    using x(2) by (auto simp: nth_Cons' Suc_diff_Suc)
  obtain c where c: "strcmp (re_path e) path = Some c" "c = 0 \<longleftrightarrow> cstr (re_path e) = cstr path"
    using strcmp_terminated[of "re_path e" path] Cons.prems assms(2) by auto
  show ?case using x(1) x' c by auto
qed simp

lemma ramfs_find_total:
  assumes "ram_core w" "k < 3" "terminated path"
  shows "\<exists>x. ramfs_find w k path = Some x \<and> (\<forall>i. x = Some i \<longrightarrow> ok_ref k (Slot i) \<and>
    cstr (re_path (entry_of w k (Slot i))) = cstr path)"
proof -
  have len: "length (fs_entries (fs_of w k)) = 256" using assms(1,2) by (simp add: ram_core_def shape_len fs_of_def)
  have "terminated (re_path e)" if e: "e \<in> set (fs_entries (fs_of w k))" for e
  proof -
    from e obtain i where i: "i < length (fs_entries (fs_of w k))" "e = fs_entries (fs_of w k) ! i" by (metis in_set_conv_nth)
    then have "ok_ref k (Slot i)" "e = entry_of w k (Slot i)" using len assms(2) by (simp_all add: ok_ref_def entry_of_def)
    then show ?thesis using core_path[OF assms(1)] by simp
  qed
  then show ?thesis
    using find_entry_total[OF _ assms(3), of "fs_entries (fs_of w k)" 0] len assms(2)
    by (auto simp: ramfs_find_def ok_ref_def entry_of_def)
qed

lemma free_slot_ok: "ram_core w \<Longrightarrow> k < 3 \<Longrightarrow> free_slot_of w k = Some i \<Longrightarrow> ok_ref k (Slot i)"
  using first_idx_bound[of _ "fs_entries (fs_of w k)" i]
  by (simp add: free_slot_of_def ok_ref_def ram_core_def shape_len fs_of_def)

lemma path_copy:
  assumes "terminated path" "length (cstr path) < 256" "length d = 256"
  shows "\<exists>np. strncpy d path RAMFS_NAME_LEN = Some np \<and> length np = 256 \<and> terminated np \<and> cstr np = cstr path"
proof -
  let ?np = "cstr path @ replicate (256 - length (cstr path)) 0"
  have "strncpy d path RAMFS_NAME_LEN = Some ?np"
    using assms by (simp add: strncpy_eq RAMFS_NAME_LEN_def)
  moreover have "terminated ?np" using assms(2) by (simp add: terminated_def)
  moreover have "cstr ?np = cstr path" using assms(2) cstr_append_nonzero[OF cstr_nonzero, of path]
    by (cases "256 - length (cstr path)") simp_all
  ultimately show ?thesis using assms(2) by auto
qed

subsection \<open>Opening and closing\<close>

lemma core_upd_clear:
  assumes "ram_core w" "ok_ref k r" "length (re_path (f (entry_of w k r))) = 256" "terminated (re_path (f (entry_of w k r)))"
    "re_data (f (entry_of w k r)) = 0" "re_size (f (entry_of w k r)) = 0"
  shows "ram_core (upd_entry k r f w)"
  using assms inv4_clear_entry[of "port_heap (fst w)" "kbufs (fst w)" "entry_of w" "open_files (snd w)" k r "f (entry_of w k r)"]
  by (simp add: ram_core_def entry_of_upd)

lemma open_entry_ok:
  assumes w: "ram_core w" "k < 3" and p: "terminated path" "length (cstr path) < 256"
  shows "\<exists>e w'. open_entry k path fl w = Some (e, w') \<and> ram_core w' \<and> locks w' = locks w \<and> fst w' = fst w \<and>
    open_files (snd w') = open_files (snd w) \<and> (\<forall>r. e = Some r \<longrightarrow> ok_ref k r)"
proof -
  obtain x where x: "ramfs_find w k path = Some x" "\<forall>i. x = Some i \<longrightarrow> ok_ref k (Slot i)"
    using ramfs_find_total[OF w p(1)] by blast
  have create: "\<exists>np. strncpy (re_path (entry_of w k (Slot i))) path RAMFS_NAME_LEN = Some np \<and>
     ram_core (upd_entry k (Slot i) (\<lambda>e. e\<lparr>re_path := np, re_data := 0, re_size := 0, re_kind := VFS_NODE_FILE, re_valid := 1\<rparr>) w)"
    if "free_slot_of w k = Some i" for i
  proof -
    have r: "ok_ref k (Slot i)" by (rule free_slot_ok[OF w that])
    obtain np where np: "strncpy (re_path (entry_of w k (Slot i))) path RAMFS_NAME_LEN = Some np" "length np = 256" "terminated np"
      using path_copy[OF p] core_path[OF w(1) r] by blast
    then show ?thesis using core_upd_clear[OF w(1) r] by simp
  qed
  show ?thesis
  proof (cases x)
    case (Some i)
    then show ?thesis using x w(1) by (simp add: open_entry_def)
  next
    case None
    show ?thesis
    proof (cases "fl AND VFS_O_DIR \<noteq> 0 \<and> take 2 path = [47, 0]")
      case True
      then show ?thesis using x None w by (simp add: open_entry_def ok_ref_def)
    next
      case False
      show ?thesis
      proof (cases "fl AND VFS_O_CREAT = 0")
        case True
        then show ?thesis using x None False w(1) by (intro exI[of _ None] exI[of _ w]) (auto simp: open_entry_def)
      next
        case c: False
        show ?thesis
        proof (cases "free_slot_of w k")
          case n: None
          then show ?thesis using x None False c w(1) by (intro exI[of _ None] exI[of _ w]) (auto simp: open_entry_def)
        next
          case (Some i)
          then show ?thesis using x None False c create[OF Some] free_slot_ok[OF w Some] by (auto simp: open_entry_def)
        qed
      qed
    qed
  qed
qed

definition truncate_step :: "nat \<Rightarrow> entry_ref \<Rightarrow> u32 \<Rightarrow> fsw \<Rightarrow> fsw option" where
  "truncate_step k r fl w =
     (if fl AND VFS_O_TRUNC \<noteq> 0 \<and> re_kind (entry_of w k r) = VFS_NODE_FILE \<and> re_data (entry_of w k r) \<noteq> 0
      then map_option (upd_entry k r (\<lambda>e. e\<lparr>re_data := 0, re_size := 0\<rparr>)) (free_block (re_data (entry_of w k r)) w)
      else Some w)"

lemma free_block_fields:
  assumes "free_block p w = Some w'"
  shows "snd w' = snd w" "entry_of w' = entry_of w" "locks w' = locks w"
proof -
  show s: "snd w' = snd w" using assms by (auto simp: free_block_def split: bind_splits)
  show "entry_of w' = entry_of w" "locks w' = locks w" using same_tables[of w' w] by (simp_all add: s)
qed

lemma truncate_step_ok:
  assumes w: "ram_core w" and r: "ok_ref k r"
  shows "\<exists>w'. truncate_step k r fl w = Some w' \<and> ram_core w' \<and> locks w' = locks w \<and> open_files (snd w') = open_files (snd w)"
proof (cases "fl AND VFS_O_TRUNC \<noteq> 0 \<and> re_kind (entry_of w k r) = VFS_NODE_FILE \<and> re_data (entry_of w k r) \<noteq> 0")
  case True
  let ?d = "re_data (entry_of w k r)"
  have inv: "ram_inv4 (port_heap (fst w)) (kbufs (fst w)) (entry_of w) (open_files (snd w))" and sh: "shape (snd w)"
    using w by (simp_all add: ram_core_def)
  obtain h' where h': "kfree (port_heap (fst w)) ?d = Some h'" "heap_ok h'" "heap_owned h' = heap_owned (port_heap (fst w)) - {?d}"
    using slab.free_owned[OF core_heap[OF w]] inv4_data[OF inv r] True by blast
  let ?w1 = "((fst w)\<lparr>port_heap := h', kbufs := (kbufs (fst w))(?d := None)\<rparr>, snd w)"
  let ?w' = "upd_entry k r (\<lambda>e. e\<lparr>re_data := 0, re_size := 0\<rparr>) ?w1"
  have fb: "free_block ?d w = Some ?w1" using h'(1) by (simp add: free_block_def)
  note ff = free_block_fields[OF fb]
  have "ram_inv4 h' ((kbufs (fst w))(?d := None)) (upd_ref k r ((entry_of w k r)\<lparr>re_data := 0, re_size := 0\<rparr>) (entry_of w)) (open_files (snd w))"
    using inv4_release_block[OF inv r refl _ _ _ _ _ h'(2,3), of "(entry_of w k r)\<lparr>re_data := 0, re_size := 0\<rparr>"] core_path[OF w r] True by simp
  then have "ram_core ?w'" using sh r ff(2) by (simp add: ram_core_def entry_of_upd)
  moreover have "truncate_step k r fl w = Some ?w'" using True fb by (simp add: truncate_step_def)
  ultimately show ?thesis using ff(3) by simp
next
  case False
  then show ?thesis using w by (auto simp: truncate_step_def)
qed

lemma ramfs_open_ok:
  assumes w: "ram_inv w" "k < 3" and p: "terminated path" "length (cstr path) < 256"
  shows "\<exists>x w'. ramfs_open (Some k) path fl w = Some (x, w') \<and> ram_inv w' \<and>
    (x = 0 \<and> ram_handles w' = ram_handles w \<or>
     x \<noteq> 0 \<and> x \<notin> ram_handles w \<and> ram_handles w' = insert x (ram_handles w))"
proof -
  have l: "locks w = replicate 3 0" and core: "ram_core w" using w by (simp_all add: ram_inv_core)
  let ?w1 = "upd_fs k (\<lambda>fs. fs\<lparr>fs_lock := 1\<rparr>) w"
  have acq: "fs_acquire k w = Some ?w1" by (rule fs_acquire_free[OF l w(2)])
  have c1: "ram_core ?w1" "locks ?w1 = (replicate 3 0)[k := 1]" using core l w(2) by (simp_all add: locked_cycle)
  obtain e w2 where e: "open_entry k path fl ?w1 = Some (e, w2)" "ram_core w2" "locks w2 = locks ?w1" "fst w2 = fst ?w1"
    "open_files (snd w2) = open_files (snd ?w1)" "\<And>r. e = Some r \<Longrightarrow> ok_ref k r"
    using open_entry_ok[OF c1(1) w(2) p] by blast
  have rel: "ram_inv (fs_release k w')" if "ram_core w'" "locks w' = locks w2" for w'
    using that e(3) c1(2) unlock_cycle[OF w(2)] by (simp add: ram_inv_core)
  have F: "open_files (snd w2) = open_files (snd w)" using e(5) by simp
  show ?thesis
  proof (cases e)
    case None
    then show ?thesis using acq e(1) rel[OF e(2)] F by (simp add: ramfs_open_def ram_handles_def)
  next
    case (Some r)
    have r: "ok_ref k r" by (rule e(6)[OF Some])
    obtain w3 where w3: "truncate_step k r fl w2 = Some w3" "ram_core w3" "locks w3 = locks w2" "open_files (snd w3) = open_files (snd w2)"
      using truncate_step_ok[OF e(2) r] by blast
    have body: "ramfs_open (Some k) path fl w = (if re_kind (entry_of w2 k r) = VFS_NODE_DIR \<and> fl AND VFS_O_DIR = 0 then Some (0, fs_release k w2)
        else do {
          (f, h) \<leftarrow> kmalloc (port_heap (fst w3)) 24;
          let w = ((fst w3)\<lparr>port_heap := h\<rparr>, snd w3);
          if f = 0 then Some (0, fs_release k w)
          else
            let w = (fst w, (snd w)\<lparr>open_files := (open_files (snd w))(f \<mapsto> \<lparr>rf_fs = k, rf_entry = r, rf_offset = 0\<rparr>)\<rparr>) in
            Some (f, fs_release k w) })"
      using acq e(1) Some w3(1) by (simp add: ramfs_open_def truncate_step_def)
    show ?thesis
    proof (cases "re_kind (entry_of w2 k r) = VFS_NODE_DIR \<and> fl AND VFS_O_DIR = 0")
      case True
      then show ?thesis using body rel[OF e(2)] F by (simp add: ram_handles_def)
    next
      case False
      note inv3 = w3(2)[unfolded ram_core_def]
      consider (fail) "kmalloc (port_heap (fst w3)) 24 = Some (0, port_heap (fst w3))"
        | (ok) f h' where "kmalloc (port_heap (fst w3)) 24 = Some (f, h')" "f \<noteq> 0" "f \<notin> heap_owned (port_heap (fst w3))" "heap_ok h'"
            "heap_owned h' = insert f (heap_owned (port_heap (fst w3)))"
        using slab.alloc_cases[OF core_heap[OF w3(2)], of 24] by auto
      then show ?thesis
      proof cases
        case fail
        have "((fst w3)\<lparr>port_heap := port_heap (fst w3)\<rparr>, snd w3) = w3" by (cases w3) simp
        then show ?thesis using body False fail rel[OF w3(2,3)] F w3(4) by (simp add: ram_handles_def Let_def)
      next
        case ok
        let ?f = "\<lparr>rf_fs = k, rf_entry = r, rf_offset = 0\<rparr>"
        let ?w4 = "((fst w3)\<lparr>port_heap := h'\<rparr>, (snd w3)\<lparr>open_files := (open_files (snd w3))(f \<mapsto> ?f)\<rparr>)"
        have E: "entry_of ?w4 = entry_of w3" "locks ?w4 = locks w3" "shape (snd ?w4) = shape (snd w3)"
          using same_tables[of ?w4 w3] by simp_all
        have "ram_core ?w4"
          using inv4_new_handle[OF conjunct2[OF inv3] ok(3,2,4,5), of ?f] r conjunct1[OF inv3] E by (simp add: ram_core_def)
        then have "ram_inv (fs_release k ?w4)" using rel E(2) w3(3) by simp
        moreover have "f \<notin> ram_handles w"
          using inv4_file[OF conjunct2[OF inv3]] ok(3) F w3(4) by (fastforce simp: ram_handles_def)
        ultimately show ?thesis using body False ok(1,2) F w3(4) by (simp add: ram_handles_def Let_def)
      qed
    qed
  qed
qed

lemma ramfs_close_ok:
  assumes w: "ram_inv w" and x: "x \<in> ram_handles w"
  shows "\<exists>w'. ramfs_close ctx x w = Some w' \<and> ram_inv w' \<and> ram_handles w' = ram_handles w - {x}"
proof -
  have core: "ram_core w" and l: "locks w = replicate 3 0" using w by (simp_all add: ram_inv_core)
  note inv = core[unfolded ram_core_def]
  obtain f where f: "open_files (snd w) x = Some f" using x by (auto simp: ram_handles_def)
  have x0: "x \<noteq> 0" "x \<in> heap_owned (port_heap (fst w))" using inv4_file[OF conjunct2[OF inv] f] by simp_all
  obtain h' where h': "kfree (port_heap (fst w)) x = Some h'" "heap_ok h'" "heap_owned h' = heap_owned (port_heap (fst w)) - {x}"
    using slab.free_owned[OF core_heap[OF core] x0(2)] by blast
  let ?w' = "((fst w)\<lparr>port_heap := h'\<rparr>, (snd w)\<lparr>open_files := (open_files (snd w))(x := None)\<rparr>)"
  have E: "entry_of ?w' = entry_of w" "locks ?w' = locks w" "shape (snd ?w') = shape (snd w)"
    using same_tables[of ?w' w] by simp_all
  have "ram_core ?w'" using inv4_free_handle[OF conjunct2[OF inv] f h'(2,3)] conjunct1[OF inv] E by (simp add: ram_core_def)
  then show ?thesis using h'(1) x0(1) l E(2) by (auto simp: ramfs_close_def ram_inv_core ram_handles_def)
qed

subsection \<open>The file behind a handle\<close>

definition entry_content :: "fsw \<Rightarrow> nat \<Rightarrow> entry_ref \<Rightarrow> u8 list" where
  "entry_content w k r = (let d = re_data (entry_of w k r) in if d = 0 then [] else the (kbufs (fst w) d))"

definition ram_content :: "fsw \<Rightarrow> u64 \<Rightarrow> u8 list" where
  "ram_content w x = (case open_files (snd w) x of None \<Rightarrow> [] | Some f \<Rightarrow> entry_content w (rf_fs f) (rf_entry f))"

definition ram_pos :: "fsw \<Rightarrow> u64 \<Rightarrow> nat" where
  "ram_pos w x = (case open_files (snd w) x of None \<Rightarrow> 0 | Some f \<Rightarrow> unat (rf_offset f))"

lemma content_length: "ram_core w \<Longrightarrow> ok_ref k r \<Longrightarrow> length (entry_content w k r) = unat (re_size (entry_of w k r))"
  using core_entry[of w k r] by (auto simp: entry_ok_def entry_content_def Let_def split: if_splits)

lemma content_block:
  "ram_core w \<Longrightarrow> ok_ref k r \<Longrightarrow> re_data (entry_of w k r) \<noteq> 0 \<Longrightarrow> kbufs (fst w) (re_data (entry_of w k r)) = Some (entry_content w k r)"
  using core_entry[of w k r] by (auto simp: entry_ok_def entry_content_def Let_def)

lemma content_nonempty: "entry_content w k r \<noteq> [] \<Longrightarrow> re_data (entry_of w k r) \<noteq> 0"
  by (auto simp: entry_content_def)

lemma handle_cases:
  assumes "ram_core w" "x \<in> ram_handles w"
  obtains f where "open_files (snd w) x = Some f" "x \<noteq> 0" "ok_ref (rf_fs f) (rf_entry f)"
    "ram_content w x = entry_content w (rf_fs f) (rf_entry f)" "ram_pos w x = unat (rf_offset f)"
proof -
  obtain f where f: "open_files (snd w) x = Some f" using assms(2) by (auto simp: ram_handles_def)
  have "x \<noteq> 0 \<and> ok_ref (rf_fs f) (rf_entry f)" using inv4_file assms(1) f unfolding ram_core_def by blast
  then show thesis using that f by (simp add: ram_content_def ram_pos_def)
qed

lemma upd_file_fields [simp]:
  "fst (upd_file x g w) = fst w" "filesystems (snd (upd_file x g w)) = filesystems (snd w)" "s_root (snd (upd_file x g w)) = s_root (snd w)"
  by (simp_all add: upd_file_def)

lemma upd_file_ok:
  assumes "ram_core w" "open_files (snd w) x = Some f" "rf_fs (g f) = rf_fs f" "rf_entry (g f) = rf_entry f"
  shows "ram_core (upd_file x g w)" "locks (upd_file x g w) = locks w" "ram_handles (upd_file x g w) = ram_handles w"
    "entry_of (upd_file x g w) = entry_of w" "ram_pos (upd_file x g w) x = unat (rf_offset (g f))"
    "ram_content (upd_file x g w) x = ram_content w x"
proof -
  have t: "entry_of (upd_file x g w) = entry_of w" "locks (upd_file x g w) = locks w" "shape (snd (upd_file x g w)) = shape (snd w)"
    using same_tables[of "upd_file x g w" w] by simp_all
  have F: "open_files (snd (upd_file x g w)) = (open_files (snd w))(x \<mapsto> g f)" using assms(2) by (simp add: upd_file_def)
  show "ram_core (upd_file x g w)"
    using assms inv4_retarget[where F = "open_files (snd w)" and p = x and f = f and f' = "g f"] t F by (simp add: ram_core_def)
  show "locks (upd_file x g w) = locks w" "entry_of (upd_file x g w) = entry_of w" using t by simp_all
  show "ram_handles (upd_file x g w) = ram_handles w" using F assms(2) by (auto simp: ram_handles_def)
  show "ram_pos (upd_file x g w) x = unat (rf_offset (g f))" using F by (simp add: ram_pos_def)
  show "ram_content (upd_file x g w) x = ram_content w x" using F assms t by (simp add: ram_content_def entry_content_def Let_def)
qed

subsection \<open>Reading and seeking\<close>

lemma ramfs_read_ok:
  assumes w: "ram_inv w" and x: "x \<in> ram_handles w" and n: "unat n \<le> length buf"
  shows "\<exists>w'. let m = min (unat n) (length (ram_content w x) - ram_pos w x) in
    ramfs_read ctx x buf n (Some g) w = Some (0, take m (drop (ram_pos w x) (ram_content w x)) @ drop m buf, Some (of_nat m), w') \<and>
    ram_inv w' \<and> ram_handles w' = ram_handles w \<and> ram_content w' x = ram_content w x \<and> ram_pos w' x = ram_pos w x + m"
proof -
  have core: "ram_core w" and l: "locks w = replicate 3 0" using w by (simp_all add: ram_inv_core)
  obtain f where f: "open_files (snd w) x = Some f" "x \<noteq> 0" "ok_ref (rf_fs f) (rf_entry f)"
    "ram_content w x = entry_content w (rf_fs f) (rf_entry f)" "ram_pos w x = unat (rf_offset f)"
    using handle_cases[OF core x] by blast
  let ?e = "entry_of w (rf_fs f) (rf_entry f)" and ?c = "ram_content w x" and ?p = "ram_pos w x"
  have len: "length ?c = unat (re_size ?e)" using content_length[OF core f(3)] f(4) by simp
  show ?thesis
  proof (cases "rf_offset f \<ge> re_size ?e")
    case True
    then have "length ?c - ?p = 0" using len f(5) by (simp add: word_le_nat_alt)
    then show ?thesis using True f w by (simp add: ramfs_read_def Let_def) 
  next
    case False
    define m where "m = min (unat n) (length ?c - ?p)"
    let ?av = "re_size ?e - rf_offset f"
    let ?tr = "if n < ?av then n else ?av"
    have p: "?p < length ?c" using False len f(5) by (simp add: word_le_nat_alt)
    have av: "unat ?av = length ?c - ?p" using False len f(5) by (simp add: unat_sub word_le_nat_alt)
    then have tr: "unat ?tr = m" by (simp add: m_def word_less_nat_alt)
    have blk: "kbufs (fst w) (re_data ?e) = Some ?c"
    proof -
      have "entry_content w (rf_fs f) (rf_entry f) \<noteq> []" using p f(4) by (metis length_0_conv not_less_zero)
      then show ?thesis using content_block[OF core f(3) content_nonempty] f(4) by simp
    qed
    have mb: "?p + m \<le> length ?c" "m \<le> length buf" using p n by (simp_all add: m_def)
    let ?g = "\<lambda>f. f\<lparr>rf_offset := rf_offset f + ?tr\<rparr>"
    note u = upd_file_ok[OF core f(1), of ?g]
    have "unat (re_size ?e) < 2 ^ 64" using unsigned_less[of "re_size ?e"] by simp
    then have "?p + m < 2 ^ 64" using mb(1) len by linarith
    then have off: "unat (rf_offset f + ?tr) = ?p + m" using tr f(5) by (simp add: unat_word_ariths)
    have rd: "buf_read ?c ?p m = Some (take m (drop ?p ?c))" using mb by (simp add: buf_read_def)
    have lm: "length (take m (drop ?p ?c)) = m" using mb by simp
    have wr: "buf_write buf 0 (take m (drop ?p ?c)) = Some (take m (drop ?p ?c) @ drop m buf)"
      using mb lm by (simp add: buf_write_def)
    have tm: "?tr = of_nat m" unfolding tr[symmetric] by (rule of_nat_unat_id[symmetric])
    have step: "ramfs_read ctx x buf n (Some g) w = Some (0, take m (drop ?p ?c) @ drop m buf, Some (of_nat m), upd_file x ?g w)"
      using f(1,2,5) False blk rd wr tr tm by (simp add: ramfs_read_def block_def Let_def)
    show ?thesis
      unfolding m_def[symmetric] Let_def
      by (intro exI[of _ "upd_file x ?g w"]) (use step u off l in \<open>simp add: ram_inv_core\<close>)
  qed
qed

lemma ramfs_seek_set:
  assumes w: "ram_inv w" and x: "x \<in> ram_handles w" and o1: "0 \<le> off" "nat off \<le> length (ram_content w x)"
  shows "\<exists>w'. ramfs_seek ctx x off VFS_SEEK_SET w = Some (off, w') \<and> ram_inv w' \<and> ram_handles w' = ram_handles w \<and>
    ram_content w' x = ram_content w x \<and> ram_pos w' x = nat off"
proof -
  have core: "ram_core w" and l: "locks w = replicate 3 0" using w by (simp_all add: ram_inv_core)
  obtain f where f: "open_files (snd w) x = Some f" "x \<noteq> 0" "ok_ref (rf_fs f) (rf_entry f)"
    "ram_content w x = entry_content w (rf_fs f) (rf_entry f)" "ram_pos w x = unat (rf_offset f)"
    using handle_cases[OF core x] by blast
  let ?e = "entry_of w (rf_fs f) (rf_entry f)"
  have len: "length (ram_content w x) = unat (re_size ?e)" using content_length[OF core f(3)] f(4) by simp
  have "unat (re_size ?e) < 2 ^ 64" using unsigned_less[of "re_size ?e"] by simp
  then have "nat off < 2 ^ 64" using o1(2) len by linarith
  then have u: "unat (of_int off :: u64) = nat off"
    unfolding of_nat_nat[OF o1(1), symmetric] by (simp only: unsigned_of_nat) (simp add: take_bit_nat_eq_self)
  then have le: "\<not> (of_int off :: u64) > re_size ?e" using o1(2) len by (simp add: word_less_nat_alt)
  let ?g = "\<lambda>f. f\<lparr>rf_offset := of_int off\<rparr>"
  note uf = upd_file_ok[OF core f(1), of ?g]
  have "ramfs_seek ctx x off VFS_SEEK_SET w = Some (off, upd_file x ?g w)"
    using f(1,2) o1(1) le by (simp add: ramfs_seek_def Let_def VFS_SEEK_SET_def)
  then show ?thesis using uf u l by (intro exI[of _ "upd_file x ?g w"]) (simp add: ram_inv_core)
qed

subsection \<open>Writing\<close>

lemma set_block_fields [simp]:
  "snd (set_block p b w) = snd w" "port_heap (fst (set_block p b w)) = port_heap (fst w)" "kbufs (fst (set_block p b w)) = (kbufs (fst w))(p \<mapsto> b)"
  "entry_of (set_block p b w) = entry_of w" "locks (set_block p b w) = locks w"
  using same_tables[of "set_block p b w" w] by (simp_all add: set_block_def)

text \<open>Growing an entry: a new block that begins with the old content.\<close>

lemma grow_new_block:
  assumes w: "ram_core w" and r: "ok_ref k r" and n: "8 < n" "n \<le> 1024"
    and big: "n > re_size (entry_of w k r)"
  shows "grow_entry k r n w = Some (False, w) \<and> kmalloc (port_heap (fst w)) n = Some (0, port_heap (fst w)) \<or>
    (\<exists>w'. grow_entry k r n w = Some (True, w') \<and> ram_core w' \<and> locks w' = locks w \<and> open_files (snd w') = open_files (snd w) \<and>
       length (entry_content w' k r) = unat n \<and> take (length (entry_content w k r)) (entry_content w' k r) = entry_content w k r \<and>
       re_data (entry_of w' k r) \<noteq> 0)"
proof -
  let ?e = "entry_of w k r" and ?c = "entry_content w k r" and ?h = "port_heap (fst w)" and ?d = "re_data (entry_of w k r)"
  note inv = conjunct2[OF w[unfolded ram_core_def]] and sh = conjunct1[OF w[unfolded ram_core_def]]
  have len: "length ?c = unat (re_size ?e)" by (rule content_length[OF w r])
  consider (fail) "kmalloc ?h n = Some (0, ?h)"
    | (ok) p h' where "kmalloc ?h n = Some (p, h')" "p \<noteq> 0" "p \<notin> heap_owned ?h" "heap_ok h'" "heap_owned h' = insert p (heap_owned ?h)"
    using slab.alloc_cases[OF core_heap[OF w] n] by auto
  then show ?thesis
  proof cases
    case fail
    have "((fst w)\<lparr>port_heap := ?h\<rparr>, snd w) = w" by (cases w) simp
    then show ?thesis using fail big by (simp add: grow_entry_def new_block_def Let_def)
  next
    case ok
    define b0 where "b0 = map (stale (snd w) p) [0..<unat n]"
    define b1 where "b1 = (if ?d \<noteq> 0 \<and> re_size ?e > 0 then ?c @ drop (length ?c) b0 else b0)"
    define kb1 where "kb1 = (kbufs (fst w))(p \<mapsto> b1)"
    let ?w1 = "((fst w)\<lparr>port_heap := h', kbufs := (kbufs (fst w))(p \<mapsto> b0)\<rparr>, snd w)"
    let ?w2 = "((fst w)\<lparr>port_heap := h', kbufs := kb1\<rparr>, snd w)"
    have nb: "new_block n w = Some (p, ?w1)" using ok(1,2) by (simp add: new_block_def b0_def)
    have dp: "?d \<noteq> p" using inv4_data[OF inv r] ok(2,3) by (cases "?d = 0") auto
    have lb: "length b0 = unat n" "length ?c \<le> unat n" using big len by (simp_all add: b0_def word_less_nat_alt)
    have lb1: "length b1 = unat n" using lb by (simp add: b1_def)
    have copy: "(if ?d \<noteq> 0 \<and> re_size ?e > 0 then do { d \<leftarrow> block ?w1 ?d; copy_in p 0 d (unat (re_size ?e)) ?w1 } else Some ?w1) = Some ?w2"
    proof (cases "?d \<noteq> 0 \<and> re_size ?e > 0")
      case True
      then have c: "kbufs (fst w) ?d = Some ?c" by (intro content_block[OF w r]) simp
      have "unat (re_size ?e) \<noteq> 0" using True by (simp add: unat_eq_zero word_gt_0)
      then show ?thesis
        using True c dp lb len by (simp add: block_def copy_in_def buf_read_def buf_write_def set_block_def kb1_def b1_def)
    next
      case False
      then show ?thesis by (auto simp: kb1_def b1_def)
    qed
    have inv1: "ram_inv4 h' kb1 (entry_of w) (open_files (snd w))"
      unfolding kb1_def by (rule inv4_new_block[OF inv ok(3,4,5)])
    obtain h2 where h2: "heap_ok h2" "heap_owned h2 = (if ?d = 0 then heap_owned h' else heap_owned h' - {?d})"
      "(if ?d \<noteq> 0 then free_block ?d ?w2 else Some ?w2) = Some ((fst w)\<lparr>port_heap := h2, kbufs := (if ?d = 0 then kb1 else kb1(?d := None))\<rparr>, snd w)"
    proof (cases "?d = 0")
      case True
      then show thesis using that[of h'] ok(4) by simp
    next
      case False
      then have "?d \<in> heap_owned h'" using inv4_data[OF inv r] ok(5) by simp
      then obtain h2 where "kfree h' ?d = Some h2" "heap_ok h2" "heap_owned h2 = heap_owned h' - {?d}"
        using slab.free_owned[OF ok(4)] by blast
      then show thesis using that[of h2] False by (simp add: free_block_def)
    qed
    let ?kb2 = "if ?d = 0 then kb1 else kb1(?d := None)"
    let ?w3 = "((fst w)\<lparr>port_heap := h2, kbufs := ?kb2\<rparr>, snd w)"
    let ?w4 = "upd_entry k r (\<lambda>e. e\<lparr>re_data := p, re_size := n\<rparr>) ?w3"
    have E3: "entry_of ?w3 = entry_of w" "locks ?w3 = locks w" using same_tables[of ?w3 w] by simp_all
    have g: "grow_entry k r n w = Some (True, ?w4)"
      using big nb ok(2) copy h2(3) by (simp add: grow_entry_def Let_def)
    have E4: "entry_of ?w4 = upd_ref k r (?e\<lparr>re_data := p, re_size := n\<rparr>) (entry_of w)"
      using entry_of_upd[of ?w3 k r] sh r E3 by simp
    have fresh: "re_data (entry_of w k' r') \<noteq> p" if "ok_ref k' r'" for k' r'
      using inv4_data[OF inv that] ok(2,3) by (cases "re_data (entry_of w k' r') = 0") auto
    have np: "open_files (snd w) p = None" using inv4_file[OF inv] ok(3) by (cases "open_files (snd w) p") auto
    have "ram_inv4 h2 ?kb2 (upd_ref k r (?e\<lparr>re_data := p, re_size := n\<rparr>) (entry_of w)) (open_files (snd w))"
      using inv4_replace_block[OF inv1 r refl _ _ _ _ _ _ ok(2) np fresh h2(1,2), of "?e\<lparr>re_data := p, re_size := n\<rparr>" b1]
        core_path[OF w r] lb1 ok(5) by (simp add: kb1_def)
    then have core4: "ram_core ?w4" using sh E4 by (simp add: ram_core_def)
    have c4: "entry_content ?w4 k r = b1"
      using E4 ok(2) dp by (simp add: entry_content_def kb1_def)
    have "take (length ?c) b1 = ?c" using len by (auto simp: b1_def entry_content_def unat_eq_zero word_gt_0)
    then show ?thesis using g core4 c4 lb1 E3(2) E4 ok(2) by (intro disjI2 exI[of _ ?w4]) simp
  qed
qed

lemma copy_in_content:
  assumes w: "ram_core w" and r: "ok_ref k r" "re_data (entry_of w k r) \<noteq> 0" and n: "off + n \<le> length (entry_content w k r)" "n \<le> length buf"
  shows "\<exists>w'. copy_in (re_data (entry_of w k r)) off buf n w = Some w' \<and> ram_core w' \<and> locks w' = locks w \<and> open_files (snd w') = open_files (snd w) \<and>
    entry_content w' k r = take off (entry_content w k r) @ take n buf @ drop (off + n) (entry_content w k r)"
proof (cases "n = 0")
  case True
  then show ?thesis using w by (intro exI[of _ w]) (simp add: copy_in_def)
next
  case False
  let ?d = "re_data (entry_of w k r)" and ?c = "entry_content w k r"
  let ?b = "take off ?c @ take n buf @ drop (off + n) ?c"
  have blk: "kbufs (fst w) ?d = Some ?c" by (rule content_block[OF w r])
  have lb: "length ?b = length ?c" using n by simp
  have "ram_core (set_block ?d ?b w)"
    using w inv4_block_bytes[where kb = "kbufs (fst w)" and d = ?d and b = ?c and b' = ?b] blk lb by (simp add: ram_core_def)
  moreover have "copy_in ?d off buf n w = Some (set_block ?d ?b w)"
    using False blk n by (simp add: copy_in_def block_def buf_read_def buf_write_def min_def)
  moreover have "entry_content (set_block ?d ?b w) k r = ?b" using r(2) by (simp add: entry_content_def Let_def)
  ultimately show ?thesis by (intro exI[of _ "set_block ?d ?b w"]) simp
qed

definition ram_full :: "fsw \<Rightarrow> nat \<Rightarrow> bool" where
  "ram_full w k \<longleftrightarrow> (\<exists>h. kmalloc (port_heap (fst w)) (of_nat k) = Some (0, h))"

lemma entry_content_cong: "fst w' = fst w \<Longrightarrow> entry_of w' = entry_of w \<Longrightarrow> entry_content w' = entry_content w"
  by (intro ext) (simp add: entry_content_def Let_def)

lemma fst_upd_fs [simp]: "fst (upd_fs k g w) = fst w" "open_files (snd (upd_fs k g w)) = open_files (snd w)"
  by (simp_all add: upd_fs_def)

lemma content_locked [simp]:
  "entry_content (upd_fs k (\<lambda>fs. fs\<lparr>fs_lock := g fs\<rparr>) w) = entry_content w" "entry_content (fs_release k w) = entry_content w"
  by (rule entry_content_cong; simp)+

lemma released [simp]:
  "ram_handles (fs_release k w) = ram_handles w" "ram_content (fs_release k w) = ram_content w" "ram_pos (fs_release k w) = ram_pos w"
  by (simp_all add: ram_handles_def ram_content_def ram_pos_def fun_eq_iff split: option.split)

lemma ramfs_write_ok:
  assumes w: "ram_inv w" and x: "x \<in> ram_handles w" and n: "unat n \<le> length buf"
    and p: "ram_pos w x \<le> length (ram_content w x)" "8 < ram_pos w x + unat n" "ram_pos w x + unat n \<le> 1024"
  shows "\<exists>rc w'. ramfs_write ctx x buf n w = Some (rc, w') \<and> ram_inv w' \<and> ram_handles w' = ram_handles w \<and>
    (rc = 0 \<and> ram_pos w' x = ram_pos w x + unat n \<and>
       ram_content w' x = take (ram_pos w x) (ram_content w x) @ take (unat n) buf @ drop (ram_pos w x + unat n) (ram_content w x) \<or>
     rc = VFS_ENOSPC \<and> ram_full w (ram_pos w x + unat n) \<and> ram_pos w' x = ram_pos w x \<and> ram_content w' x = ram_content w x)"
proof -
  have core: "ram_core w" and l: "locks w = replicate 3 0" using w by (simp_all add: ram_inv_core)
  obtain f where f: "open_files (snd w) x = Some f" "x \<noteq> 0" "ok_ref (rf_fs f) (rf_entry f)"
    "ram_content w x = entry_content w (rf_fs f) (rf_entry f)" "ram_pos w x = unat (rf_offset f)"
    using handle_cases[OF core x] by blast
  define k where "k = rf_fs f"
  define r where "r = rf_entry f"
  let ?c = "ram_content w x" and ?p = "ram_pos w x" and ?ne = "rf_offset f + n"
  have r: "ok_ref k r" and k: "k < 3" using f(3) by (auto simp: k_def r_def ok_ref_def)
  have ne: "unat ?ne = ?p + unat n" using p(3) f(5) by (simp add: unat_word_ariths)
  then have nowrap: "\<not> ?ne < rf_offset f" using f(5) by (simp add: word_less_nat_alt)
  have ne8: "8 < ?ne" "?ne \<le> 1024" using ne p(2,3) by (simp_all add: word_less_nat_alt word_le_nat_alt)
  let ?w1 = "upd_fs k (\<lambda>fs. fs\<lparr>fs_lock := 1\<rparr>) w"
  have core1: "ram_core ?w1" using core by simp
  have l1: "locks ?w1 = (replicate 3 0)[k := 1]" by (rule locked_cycle[OF l k])
  have acq: "fs_acquire k w = Some ?w1" by (rule fs_acquire_free[OF l k])
  have c1: "entry_content ?w1 k r = ?c" using f(4) by (simp add: k_def r_def)
  have len1: "length ?c = unat (re_size (entry_of ?w1 k r))" using content_length[OF core1 r] c1 by simp
  have rel: "ram_inv (fs_release k v)" if "ram_core v" "locks v = (replicate 3 0)[k := 1]" for v
    using that k by (simp add: ram_inv_core zero_locks)
  have grown: "grow_entry k r ?ne ?w1 = Some (False, ?w1) \<and> kmalloc (port_heap (fst w)) ?ne = Some (0, port_heap (fst w)) \<or>
    (\<exists>w2. grow_entry k r ?ne ?w1 = Some (True, w2) \<and> ram_core w2 \<and> locks w2 = locks ?w1 \<and> open_files (snd w2) = open_files (snd ?w1) \<and>
       re_data (entry_of w2 k r) \<noteq> 0 \<and> ?p + unat n \<le> length (entry_content w2 k r) \<and> take ?p (entry_content w2 k r) = take ?p ?c \<and>
       drop (?p + unat n) (entry_content w2 k r) = drop (?p + unat n) ?c)"
  proof (cases "?ne > re_size (entry_of ?w1 k r)")
    case True
    then have big: "length ?c < ?p + unat n" using len1 ne by (simp add: word_less_nat_alt)
    have tk: "take ?p ec = take ?p ?c" if "take (length ?c) ec = ?c" for ec
      using that p(1) by (metis min.absorb1 take_take)
    from grow_new_block[OF core1 r ne8 True, unfolded c1] show ?thesis
    proof (elim disjE exE conjE)
      fix w2
      assume w2: "length (entry_content w2 k r) = unat ?ne" "take (length ?c) (entry_content w2 k r) = ?c" and
        rest: "grow_entry k r ?ne ?w1 = Some (True, w2)" "ram_core w2" "locks w2 = locks ?w1" "open_files (snd w2) = open_files (snd ?w1)"
          "re_data (entry_of w2 k r) \<noteq> 0"
      show ?thesis
        using rest w2(1) ne big tk[OF w2(2)] by (intro disjI2 exI[of _ w2] conjI) simp_all
    qed (rule disjI1, simp)
  next
    case False
    then have "?p + unat n \<le> length ?c" using len1 ne by (simp add: word_less_nat_alt)
    moreover from this have "?c \<noteq> []" using p(2) by auto
    ultimately show ?thesis
      using False core1 c1 content_nonempty[of ?w1 k r] by (intro disjI2 exI[of _ ?w1]) (simp add: grow_entry_def Let_def)
  qed
  then show ?thesis
  proof (elim disjE exE conjE)
    assume g: "grow_entry k r ?ne ?w1 = Some (False, ?w1)" and full: "kmalloc (port_heap (fst w)) ?ne = Some (0, port_heap (fst w))"
    have "ramfs_write ctx x buf n w = Some (VFS_ENOSPC, fs_release k ?w1)"
      using f(1,2) nowrap acq g by (simp add: ramfs_write_def Let_def k_def r_def)
    moreover have "open_files (snd (fs_release k ?w1)) = open_files (snd w)" "entry_content (fs_release k ?w1) k r = ?c"
      using c1 by simp_all
    moreover have "ram_full w (ram_pos w x + unat n)"
      using full unfolding ram_full_def ne[symmetric] of_nat_unat_id by blast
    ultimately show ?thesis
      using rel[OF core1 l1] f(1) by (simp add: ram_handles_def ram_content_def ram_pos_def k_def r_def)
  next
    fix w2
    assume g: "grow_entry k r ?ne ?w1 = Some (True, w2)" and w2: "ram_core w2" "locks w2 = locks ?w1" "open_files (snd w2) = open_files (snd ?w1)"
      "re_data (entry_of w2 k r) \<noteq> 0" "?p + unat n \<le> length (entry_content w2 k r)" "take ?p (entry_content w2 k r) = take ?p ?c"
      "drop (?p + unat n) (entry_content w2 k r) = drop (?p + unat n) ?c"
    obtain w3 where w3: "copy_in (re_data (entry_of w2 k r)) ?p buf (unat n) w2 = Some w3" "ram_core w3" "locks w3 = locks w2"
      "open_files (snd w3) = open_files (snd w2)" "entry_content w3 k r = take ?p ?c @ take (unat n) buf @ drop (?p + unat n) ?c"
      using copy_in_content[OF w2(1) r w2(4,5) n] w2(6,7) by auto
    let ?g = "\<lambda>f. f\<lparr>rf_offset := rf_offset f + n\<rparr>"
    have f3: "open_files (snd w3) x = Some f" using w3(4) w2(3) f(1) by simp
    note u = upd_file_ok[OF w3(2) f3, of ?g, simplified]
    let ?w4 = "fs_release k (upd_file x ?g w3)"
    have "ramfs_write ctx x buf n w = Some (0, ?w4)"
      using f(1,2,5) nowrap acq g w3(1) by (simp add: ramfs_write_def Let_def k_def r_def)
    moreover have "ram_inv ?w4" by (rule rel) (use u w3 w2 l1 in simp_all)
    moreover have "ram_handles w3 = ram_handles w" "ram_content w3 x = entry_content w3 k r"
      using w3(4) w2(3) f3 by (simp_all add: ram_handles_def ram_content_def k_def r_def)
    ultimately show ?thesis
      using u(3,5,6) ne w3(5) by (intro exI[of _ 0] exI[of _ ?w4]) simp
  qed
qed

lemma terminated_drop:
  assumes "terminated p" "j \<le> length (cstr p)"
  shows "terminated (drop j p)" "cstr (drop j p) = drop j (cstr p)"
proof -
  obtain q where q: "p = cstr p @ 0 # q" using terminated_split[OF assms(1)] .
  then have d: "drop j p = drop j (cstr p) @ 0 # q" using assms(2) by (metis append_eq_append_conv_if drop_append drop_0 diff_is_0_eq)
  then show "terminated (drop j p)" by simp
  have "0 \<notin> set (drop j (cstr p))" using cstr_nonzero[of p] by (meson in_set_dropD)
  then show "cstr (drop j p) = drop j (cstr p)" unfolding d by (rule cstr_of_literal)
qed

lemma base_name_total:
  assumes "terminated p" "n \<le> length out1"
  shows "\<exists>s. base_name_from_path p out1 n = Some s"
proof -
  have "terminated (drop (Suc i) p)" if "last_idx (\<lambda>x. x = 47) (cstr p) = Some i" for i
    using last_idx_SomeD[OF that] by (intro terminated_drop(1)[OF assms(1)]) simp
  then show ?thesis using assms by (auto simp: base_name_from_path_def strrchr_eq strncpy_eq split: option.splits)
qed

lemma ramfs_stat_ok:
  assumes w: "ram_inv w" and k: "k < 3" and p: "terminated path" and nm: "length (si_name info) = 256"
  shows "\<exists>rc info' w'. ramfs_stat (Some k) path info w = Some (rc, info', w') \<and> ram_inv w' \<and> ram_handles w' = ram_handles w"
proof -
  have core: "ram_core w" and l: "locks w = replicate 3 0" using w by (simp_all add: ram_inv_core)
  let ?w1 = "upd_fs k (\<lambda>fs. fs\<lparr>fs_lock := 1\<rparr>) w"
  have acq: "fs_acquire k w = Some ?w1" by (rule fs_acquire_free[OF l k])
  have inv: "ram_inv (fs_release k ?w1)" "ram_handles (fs_release k ?w1) = ram_handles w"
    using core locked_cycle[OF l k] k by (simp_all add: ram_inv_core zero_locks ram_handles_def)
  obtain x where x: "ramfs_find ?w1 k path = Some x" "\<And>i. x = Some i \<Longrightarrow> ok_ref k (Slot i)"
    using ramfs_find_total[of ?w1 k path] core k p by auto
  show ?thesis
  proof (cases x)
    case None
    then show ?thesis using acq x(1) inv by (simp add: ramfs_stat_def)
  next
    case (Some i)
    let ?p = "re_path (entry_of ?w1 k (Slot i))"
    have t: "terminated ?p" using core_path[OF core x(2)[OF Some]] by simp
    have "\<exists>s. base_name_from_path ?p (si_name info) VFS_PATH_MAX = Some s"
      using base_name_total[OF t] nm by (auto simp: VFS_PATH_MAX_def)
    then obtain s where "base_name_from_path ?p (si_name info) VFS_PATH_MAX = Some s" by blast
    then show ?thesis using acq x(1) Some inv by (simp add: ramfs_stat_def Let_def)
  qed
qed

end
