(* ===== verification/Vfs_Fd.thy ===== *)
theory Vfs_Fd
  imports Ramfs_Ops
begin

text \<open>
  The descriptor tables of the file system layer. The reference count of a node is the number of
  table entries that point to it, plus one if the kernel holds the node by number; a node with no
  reference is free, and every live node that came from a backend has an open handle of its own.
  \<open>fd_inv\<close> states this, and the lemmas show that the descriptor operations keep it. They are
  proved over the interface \<open>file_backend\<close>, which says what opening and closing must promise; the
  memory file system is an instance.
\<close>

subsection \<open>Counting references\<close>

definition refs :: "nat option list list \<Rightarrow> nat \<Rightarrow> nat" where
  "refs ts n = count_list (concat ts) (Some n)"

lemma count_list_update:
  "i < length xs \<Longrightarrow> count_list (xs[i := v]) y + of_bool (xs ! i = y) = count_list xs y + of_bool (v = y)"
proof (induction xs arbitrary: i)
  case (Cons x xs)
  then show ?case by (cases i) auto
qed simp

lemma count_concat_update:
  "p < length ts \<Longrightarrow> count_list (concat (ts[p := t])) y + count_list (ts ! p) y = count_list (concat ts) y + count_list t y"
proof (induction ts arbitrary: p)
  case (Cons u ts)
  then show ?case by (cases p) auto
qed simp

lemma refs_set:
  assumes "p < length ts" "i < length (ts ! p)"
  shows "refs (ts[p := (ts ! p)[i := v]]) n + of_bool (ts ! p ! i = Some n) = refs ts n + of_bool (v = Some n)"
  using count_concat_update[OF assms(1), of "(ts ! p)[i := v]" "Some n"] count_list_update[OF assms(2), of v "Some n"]
  unfolding refs_def by linarith

lemma refs_pos: "p < length ts \<Longrightarrow> i < length (ts ! p) \<Longrightarrow> ts ! p ! i = Some n \<Longrightarrow> 0 < refs ts n"
  unfolding refs_def by (metis concat_eq_Nil_conv count_list_0_iff gr0I in_set_conv_nth nth_mem UN_I set_concat)

lemma refs_bound: "\<forall>t\<in>set ts. length t = m \<Longrightarrow> refs ts n \<le> length ts * m"
proof -
  assume "\<forall>t\<in>set ts. length t = m"
  then have "length (concat ts) = length ts * m" by (induction ts) auto
  then show ?thesis unfolding refs_def by (metis count_le_length)
qed

subsection \<open>The invariant\<close>

definition node_ok :: "'w vfs_backend list \<Rightarrow> u64 set \<Rightarrow> nat \<Rightarrow> nat \<Rightarrow> vfsnode \<Rightarrow> bool" where
  "node_ok B H n r x \<longleftrightarrow> node_id x = of_nat n \<and> unat (vn_refcount x) = r \<and>
     (\<forall>b. vn_backend x = Some b \<longrightarrow> b < length B \<and> be_id (B ! b) \<noteq> 0 \<and> vn_bctx x \<in> H \<and>
        vn_ring x = 0 \<and> vn_port_id x = 0)"

definition nodes_ok :: "'w vfs_backend list \<Rightarrow> u64 set \<Rightarrow> (nat \<Rightarrow> nat) \<Rightarrow> vfsnode list \<Rightarrow> bool" where
  "nodes_ok B H R N \<longleftrightarrow> length N = 1024 \<and> (\<forall>n. 0 < R n \<longrightarrow> n < 1024 \<and> n \<noteq> 0) \<and>
     (\<forall>n<1024. if R n = 0 then node_id (N ! n) = 0 else node_ok B H n (R n) (N ! n)) \<and>
     (\<forall>m n. 0 < R m \<longrightarrow> 0 < R n \<longrightarrow> vn_backend (N ! m) \<noteq> None \<longrightarrow> vn_backend (N ! n) \<noteq> None \<longrightarrow>
        vn_bctx (N ! m) = vn_bctx (N ! n) \<longrightarrow> m = n)"

text \<open>
  \<open>good\<close>, \<open>winv\<close> and \<open>handles\<close> describe the backends: which operations and private pointers belong to
  one, the invariant of their state, and their open handles.
\<close>

definition vfs_core ::
  "('w vfs_ops \<Rightarrow> nat option \<Rightarrow> bool) \<Rightarrow> ('w \<Rightarrow> bool) \<Rightarrow> ('w \<Rightarrow> u64 set) \<Rightarrow> (nat \<Rightarrow> nat) \<Rightarrow> 'w vfs \<Rightarrow> bool" where
  "vfs_core good winv handles R st \<longleftrightarrow> winv (world st) \<and> length (g_backends st) = 16 \<and>
     (\<forall>be\<in>set (g_backends st). be_id be \<noteq> 0 \<longrightarrow> good (be_ops be) (be_ctx be) \<and> terminated (mount_pt be)) \<and>
     nodes_ok (g_backends st) (handles (world st)) R (g_nodes st)"

definition tables_ok :: "'w vfs \<Rightarrow> bool" where
  "tables_ok st \<longleftrightarrow> (\<forall>t\<in>set (fd_tables st). length t = 256) \<and> length (fd_tables st) * 256 + 1 < 2 ^ 32 \<and>
     (\<forall>p. sched_current st = Some p \<longrightarrow> p < length (fd_tables st))"

definition all_refs :: "nat set \<Rightarrow> 'w vfs \<Rightarrow> nat \<Rightarrow> nat" where
  "all_refs K st n = refs (fd_tables st) n + of_bool (n \<in> K)"

definition fd_core ::
  "('w vfs_ops \<Rightarrow> nat option \<Rightarrow> bool) \<Rightarrow> ('w \<Rightarrow> bool) \<Rightarrow> ('w \<Rightarrow> u64 set) \<Rightarrow> nat set \<Rightarrow> 'w vfs \<Rightarrow> bool" where
  "fd_core good winv handles K st \<longleftrightarrow> tables_ok st \<and> vfs_core good winv handles (all_refs K st) st"

definition fd_inv ::
  "('w vfs_ops \<Rightarrow> nat option \<Rightarrow> bool) \<Rightarrow> ('w \<Rightarrow> bool) \<Rightarrow> ('w \<Rightarrow> u64 set) \<Rightarrow> nat set \<Rightarrow> 'w vfs \<Rightarrow> bool" where
  "fd_inv good winv handles K st \<longleftrightarrow> fd_core good winv handles K st \<and> g_vfs_lock st = 0"

subsection \<open>One node changes\<close>

lemma nodes_okD:
  assumes "nodes_ok B H R N"
  shows "length N = 1024" "0 < R n \<Longrightarrow> n < 1024 \<and> n \<noteq> 0" "0 < R n \<Longrightarrow> node_ok B H n (R n) (N ! n)"
    "R n = 0 \<Longrightarrow> n < 1024 \<Longrightarrow> node_id (N ! n) = 0"
    "0 < R m \<Longrightarrow> 0 < R n \<Longrightarrow> vn_backend (N ! m) \<noteq> None \<Longrightarrow> vn_backend (N ! n) \<noteq> None \<Longrightarrow> vn_bctx (N ! m) = vn_bctx (N ! n) \<Longrightarrow> m = n"
  using assms unfolding nodes_ok_def by (auto split: if_splits)

lemma nodes_upd:
  assumes N: "nodes_ok B H R N" and n: "n < 1024" "n \<noteq> 0"
    and x: "if r = 0 then node_id x = 0 else node_ok B H' n r x"
    and others: "\<And>m. m \<noteq> n \<Longrightarrow> 0 < R m \<Longrightarrow> vn_backend (N ! m) \<noteq> None \<Longrightarrow>
      vn_bctx (N ! m) \<in> H' \<and> (0 < r \<longrightarrow> vn_backend x \<noteq> None \<longrightarrow> vn_bctx (N ! m) \<noteq> vn_bctx x)"
  shows "nodes_ok B H' (R(n := r)) (N[n := x])"
proof -
  have keep: "node_ok B H' m (R m) (N ! m)" if m: "m \<noteq> n" "0 < R m" for m
  proof -
    have "node_ok B H m (R m) (N ! m)" using nodes_okD(3)[OF N m(2)] .
    then show ?thesis using others[OF m] by (auto simp: node_ok_def)
  qed
  show ?thesis
    unfolding nodes_ok_def
  proof (intro conjI allI impI)
    fix i j
    assume a: "0 < (R(n := r)) i" "0 < (R(n := r)) j" "vn_backend (N[n := x] ! i) \<noteq> None" "vn_backend (N[n := x] ! j) \<noteq> None"
      "vn_bctx (N[n := x] ! i) = vn_bctx (N[n := x] ! j)"
    show "i = j"
    proof (rule ccontr)
      assume ij: "i \<noteq> j"
      consider "i = n" "j \<noteq> n" | "j = n" "i \<noteq> n" | "i \<noteq> n" "j \<noteq> n" using ij by blast
      then show False
      proof cases
        case 1
        then show False using a others[of j] n nodes_okD(1)[OF N] by simp
      next
        case 2
        then show False using a others[of i] n nodes_okD(1)[OF N] by simp
      next
        case 3
        then show False using a ij nodes_okD(5)[OF N, of i j] by simp
      qed
    qed
  next
    fix m :: nat
    assume m: "m < 1024"
    show "if (R(n := r)) m = 0 then node_id (N[n := x] ! m) = 0 else node_ok B H' m ((R(n := r)) m) (N[n := x] ! m)"
      using x keep[of m] nodes_okD(4)[OF N _ m] nodes_okD(1)[OF N] n by (cases "m = n") auto
  qed (use nodes_okD(1)[OF N] nodes_okD(2)[OF N] n in \<open>auto split: if_splits\<close>)
qed

lemma nodes_same:
  assumes "\<And>x. node_id (g x) = node_id x" "\<And>x. vn_refcount (g x) = vn_refcount x" "\<And>x. vn_backend (g x) = vn_backend x"
    "\<And>x. vn_bctx (g x) = vn_bctx x" "\<And>x. vn_ring (g x) = vn_ring x" "\<And>x. vn_port_id (g x) = vn_port_id x"
  shows "nodes_ok B H R (N[n := g (N ! n)]) = nodes_ok B H R N"
proof -
  have f: "node_id (N[n := g (N ! n)] ! m) = node_id (N ! m)" "vn_refcount (N[n := g (N ! n)] ! m) = vn_refcount (N ! m)"
    "vn_backend (N[n := g (N ! n)] ! m) = vn_backend (N ! m)" "vn_bctx (N[n := g (N ! n)] ! m) = vn_bctx (N ! m)"
    "vn_ring (N[n := g (N ! n)] ! m) = vn_ring (N ! m)" "vn_port_id (N[n := g (N ! n)] ! m) = vn_port_id (N ! m)" for m
    by (cases "n < length N"; cases "m = n"; simp add: list_update_beyond assms)+
  show ?thesis unfolding nodes_ok_def node_ok_def by (simp add: f)
qed

text \<open>What the descriptor operations leave alone.\<close>

definition same_env :: "'w vfs \<Rightarrow> 'w vfs \<Rightarrow> bool" where
  "same_env st st' \<longleftrightarrow> fd_tables st' = fd_tables st \<and> sched_current st' = sched_current st \<and>
     g_backends st' = g_backends st \<and> g_vfs_lock st' = g_vfs_lock st"

subsection \<open>What a backend promises\<close>

locale file_backend =
  fixes good :: "'w vfs_ops \<Rightarrow> nat option \<Rightarrow> bool"
    and winv :: "'w \<Rightarrow> bool"
    and handles :: "'w \<Rightarrow> u64 set"
  assumes open_law: "good ops ctx \<Longrightarrow> winv w \<Longrightarrow> terminated path \<Longrightarrow> length (cstr path) < 256 \<Longrightarrow>
      \<exists>f x w'. op_open ops = Some f \<and> f ctx path fl w = Some (x, w') \<and> winv w' \<and>
        (x = 0 \<and> handles w' = handles w \<or> x \<noteq> 0 \<and> x \<notin> handles w \<and> handles w' = insert x (handles w))"
    and close_law: "good ops ctx \<Longrightarrow> winv w \<Longrightarrow> x \<in> handles w \<Longrightarrow>
      \<exists>f w'. op_close ops = Some f \<and> f ctx x w = Some w' \<and> winv w' \<and> handles w' = handles w - {x}"
    and stat_law: "good ops ctx \<Longrightarrow> winv w \<Longrightarrow> terminated path \<Longrightarrow> length (si_name info) = 256 \<Longrightarrow>
      \<exists>f rc info' w'. op_stat ops = Some f \<and> f ctx path info w = Some (rc, info', w') \<and> winv w' \<and> handles w' = handles w"
begin

lemma core_node: "vfs_core good winv handles R st \<Longrightarrow> nodes_ok (g_backends st) (handles (world st)) R (g_nodes st)"
  by (simp add: vfs_core_def)

lemma core_backend:
  assumes "vfs_core good winv handles R st" "b < length (g_backends st)" "be_id (g_backends st ! b) \<noteq> 0"
  shows "good (be_ops (g_backends st ! b)) (be_ctx (g_backends st ! b))"
  using assms by (simp add: vfs_core_def)

text \<open>Closing the handle of a node that is given up, in either order of the two updates.\<close>

lemma release_node:
  assumes st: "vfs_core good winv handles R st" and n: "0 < R n"
    and x: "vn_backend x = vn_backend (g_nodes st ! n)" "vn_bctx x = vn_bctx (g_nodes st ! n)"
  shows "\<exists>w'. backend_close (vn_backend x) (vn_bctx x) (st\<lparr>g_nodes := N\<rparr>) = Some (st\<lparr>g_nodes := N, world := w'\<rparr>) \<and> winv w' \<and>
    nodes_ok (g_backends st) (handles w') (R(n := 0)) ((g_nodes st)[n := x\<lparr>node_id := 0\<rparr>])"
proof -
  note N = core_node[OF st]
  note n2 = nodes_okD(2)[OF N n] and nk = nodes_okD(3)[OF N n]
  have zero: "if (0::nat) = 0 then node_id (x\<lparr>node_id := 0\<rparr>) = 0 else node_ok (g_backends st) H' n 0 (x\<lparr>node_id := 0\<rparr>)" for H'
    by simp
  have keep: "vn_bctx (g_nodes st ! m) \<in> handles (world st)" if "0 < R m" "vn_backend (g_nodes st ! m) \<noteq> None" for m
    using nodes_okD(3)[OF N that(1)] that(2) by (auto simp: node_ok_def)
  show ?thesis
  proof (cases "vn_backend x")
    case None
    have "nodes_ok (g_backends st) (handles (world st)) (R(n := 0)) ((g_nodes st)[n := x\<lparr>node_id := 0\<rparr>])"
      by (rule nodes_upd[OF N conjunct1[OF n2] conjunct2[OF n2] zero]) (use keep in simp)
    then show ?thesis using None st by (intro exI[of _ "world st"]) (simp add: backend_close_def vfs_core_def)
  next
    case (Some b)
    have b: "b < length (g_backends st)" "be_id (g_backends st ! b) \<noteq> 0" "vn_bctx x \<in> handles (world st)"
      using nk Some x by (auto simp: node_ok_def)
    obtain f w' where c: "op_close (be_ops (g_backends st ! b)) = Some f"
      "f (be_ctx (g_backends st ! b)) (vn_bctx x) (world st) = Some w'" "winv w'" "handles w' = handles (world st) - {vn_bctx x}"
      using close_law[OF core_backend[OF st b(1,2)] _ b(3)] st by (auto simp: vfs_core_def)
    have diff: "vn_bctx (g_nodes st ! m) \<noteq> vn_bctx x" if "m \<noteq> n" "0 < R m" "vn_backend (g_nodes st ! m) \<noteq> None" for m
      using nodes_okD(5)[OF N that(2) n that(3)] that(1) Some x by auto
    have "nodes_ok (g_backends st) (handles w') (R(n := 0)) ((g_nodes st)[n := x\<lparr>node_id := 0\<rparr>])"
      by (rule nodes_upd[OF N conjunct1[OF n2] conjunct2[OF n2] zero]) (use keep diff c(4) in simp)
    then show ?thesis using Some c by (intro exI[of _ w']) (simp add: backend_close_def)
  qed
qed

lemma drop_ref_ok:
  assumes st: "vfs_core good winv handles R st" and n: "0 < R n"
  shows "\<exists>st'. drop_ref n st = Some st' \<and> vfs_core good winv handles (R(n := R n - 1)) st' \<and> same_env st st'"
proof -
  note N = core_node[OF st]
  note n2 = nodes_okD(2)[OF N n] and nk = nodes_okD(3)[OF N n] and len = nodes_okD(1)[OF N]
  let ?x = "(g_nodes st ! n)\<lparr>vn_refcount := vn_refcount (g_nodes st ! n) - 1\<rparr>"
  have r: "unat (vn_refcount ?x) = R n - 1"
    using nk n by (simp add: node_ok_def unat_sub word_le_nat_alt)
  have be: "(\<forall>be\<in>set (g_backends st). be_id be \<noteq> 0 \<longrightarrow> good (be_ops be) (be_ctx be) \<and> terminated (mount_pt be))"
    using st by (simp add: vfs_core_def)
  show ?thesis
  proof (cases "R n = 1")
    case True
    then have z: "vn_refcount ?x = 0" using r by (simp add: unat_eq_zero)
    obtain w' where w': "backend_close (vn_backend ?x) (vn_bctx ?x) (st\<lparr>g_nodes := (g_nodes st)[n := ?x]\<rparr>) =
        Some (st\<lparr>g_nodes := (g_nodes st)[n := ?x], world := w'\<rparr>)" "winv w'"
      "nodes_ok (g_backends st) (handles w') (R(n := 0)) ((g_nodes st)[n := ?x\<lparr>node_id := 0\<rparr>])"
      using release_node[OF st n, of ?x "(g_nodes st)[n := ?x]"] by auto
    show ?thesis
      using w' z n2 len True be st by (simp add: drop_ref_def upd_node_def vfs_core_def same_env_def)
  next
    case False
    then have z: "vn_refcount ?x \<noteq> 0" using r n by auto
    have "nodes_ok (g_backends st) (handles (world st)) (R(n := R n - 1)) ((g_nodes st)[n := ?x])"
    proof (rule nodes_upd[OF N conjunct1[OF n2] conjunct2[OF n2]])
      show "if R n - 1 = 0 then node_id ?x = 0 else node_ok (g_backends st) (handles (world st)) n (R n - 1) ?x"
        using nk r False n by (auto simp: node_ok_def)
      fix m assume m: "m \<noteq> n" "0 < R m" "vn_backend (g_nodes st ! m) \<noteq> None"
      show "vn_bctx (g_nodes st ! m) \<in> handles (world st) \<and> (0 < R n - 1 \<longrightarrow> vn_backend ?x \<noteq> None \<longrightarrow> vn_bctx (g_nodes st ! m) \<noteq> vn_bctx ?x)"
        using nodes_okD(3)[OF N m(2)] m nodes_okD(5)[OF N m(2) n m(3)] by (auto simp: node_ok_def)
    qed
    then show ?thesis using z n2 len be st by (simp add: drop_ref_def upd_node_def vfs_core_def same_env_def)
  qed
qed

lemma add_ref_ok:
  assumes st: "vfs_core good winv handles R st" and n: "0 < R n" "R n + 1 < 2 ^ 32"
  shows "vfs_core good winv handles (R(n := R n + 1)) (upd_node n (\<lambda>x. x\<lparr>vn_refcount := vn_refcount x + 1\<rparr>) st)"
proof -
  note N = core_node[OF st]
  note n2 = nodes_okD(2)[OF N n(1)] and nk = nodes_okD(3)[OF N n(1)]
  let ?x = "(g_nodes st ! n)\<lparr>vn_refcount := vn_refcount (g_nodes st ! n) + 1\<rparr>"
  have r: "unat (vn_refcount ?x) = R n + 1"
    using nk n(2) by (simp add: node_ok_def unat_word_ariths)
  have "nodes_ok (g_backends st) (handles (world st)) (R(n := R n + 1)) ((g_nodes st)[n := ?x])"
  proof (rule nodes_upd[OF N conjunct1[OF n2] conjunct2[OF n2]])
    show "if R n + 1 = 0 then node_id ?x = 0 else node_ok (g_backends st) (handles (world st)) n (R n + 1) ?x"
      using nk r by (auto simp: node_ok_def)
    fix m assume m: "m \<noteq> n" "0 < R m" "vn_backend (g_nodes st ! m) \<noteq> None"
    show "vn_bctx (g_nodes st ! m) \<in> handles (world st) \<and> (0 < R n + 1 \<longrightarrow> vn_backend ?x \<noteq> None \<longrightarrow> vn_bctx (g_nodes st ! m) \<noteq> vn_bctx ?x)"
      using nodes_okD(3)[OF N m(2)] m nodes_okD(5)[OF N m(2) n(1) m(3)] by (auto simp: node_ok_def)
  qed
  then show ?thesis using st by (simp add: upd_node_def vfs_core_def)
qed

text \<open>The table side: clearing a slot gives up one reference, filling an empty one adds one.\<close>

lemma core_set_fd [simp]: "vfs_core good winv handles R (set_fd p i v st) = vfs_core good winv handles R st"
  by (simp add: vfs_core_def set_fd_def)

lemma close_slot_ok:
  assumes st: "fd_core good winv handles K st" and s: "p < length (fd_tables st)" "i < 256" "fd_tables st ! p ! i = Some n"
  shows "\<exists>st'. drop_ref n (set_fd p i None st) = Some st' \<and> fd_core good winv handles K st' \<and> same_env (set_fd p i None st) st'"
proof -
  have len: "length (fd_tables st ! p) = 256" using st s(1) by (simp add: fd_core_def tables_ok_def)
  let ?st = "set_fd p i None st"
  have core: "vfs_core good winv handles (all_refs K st) ?st" using st by (simp add: fd_core_def)
  have "0 < all_refs K st n" using refs_pos[OF s(1) _ s(3)] s(2) len by (simp add: all_refs_def)
  then obtain st' where d: "drop_ref n ?st = Some st'" "vfs_core good winv handles ((all_refs K st)(n := all_refs K st n - 1)) st'" "same_env ?st st'"
    using drop_ref_ok[OF core] by blast
  have "all_refs K st' = (all_refs K st)(n := all_refs K st n - 1)"
  proof
    fix m
    show "all_refs K st' m = ((all_refs K st)(n := all_refs K st n - 1)) m"
      using refs_set[OF s(1), of i None m] s(2,3) len d(3) by (auto simp: all_refs_def same_env_def set_fd_def)
  qed
  moreover have "tables_ok st'"
    using st d(3) s(1) len by (auto simp: fd_core_def tables_ok_def same_env_def set_fd_def dest!: set_update_subset_insert[THEN subsetD])
  ultimately show ?thesis using d by (auto simp: fd_core_def)
qed

lemma share_slot_ok:
  assumes st: "fd_core good winv handles K st" and s: "p < length (fd_tables st)" "i < 256" "fd_tables st ! p ! i = None" and n: "0 < all_refs K st n"
  shows "fd_core good winv handles K (upd_node n (\<lambda>x. x\<lparr>vn_refcount := vn_refcount x + 1\<rparr>) (set_fd p i (Some n) st))"
proof -
  have tb: "\<forall>t\<in>set (fd_tables st). length t = 256" "length (fd_tables st) * 256 + 1 < 2 ^ 32" using st by (simp_all add: fd_core_def tables_ok_def)
  then have len: "length (fd_tables st ! p) = 256" using s(1) by simp
  let ?st = "set_fd p i (Some n) st"
  have tb': "\<forall>t\<in>set (fd_tables ?st). length t = 256" "length (fd_tables ?st) = length (fd_tables st)"
    using tb(1) len by (auto simp: set_fd_def dest!: set_update_subset_insert[THEN subsetD])
  have R: "all_refs K ?st = (all_refs K st)(n := all_refs K st n + 1)"
  proof
    fix m
    show "all_refs K ?st m = ((all_refs K st)(n := all_refs K st n + 1)) m"
      using refs_set[OF s(1), of i "Some n" m] s(2,3) len by (auto simp: all_refs_def set_fd_def)
  qed
  have "all_refs K ?st n < 2 ^ 32"
    using refs_bound[OF tb'(1), of n] tb(2) tb'(2) by (simp add: all_refs_def)
  then have "all_refs K st n + 1 < 2 ^ 32" unfolding R by simp
  then have "vfs_core good winv handles (all_refs K ?st) (upd_node n (\<lambda>x. x\<lparr>vn_refcount := vn_refcount x + 1\<rparr>) ?st)"
    unfolding R using add_ref_ok[of "all_refs K st" ?st n] st n by (simp add: fd_core_def)
  moreover have "tables_ok ?st" using st tb' by (simp add: fd_core_def tables_ok_def set_fd_def)
  ultimately show ?thesis by (simp add: fd_core_def tables_ok_def all_refs_def[abs_def] upd_node_def)
qed

end

end
