(* ===== verification/Vfs_Fd_Ops.thy ===== *)
theory Vfs_Fd_Ops
  imports Vfs_Fd
begin

text \<open>
  The descriptor operations over any backend that keeps the promises of \<open>file_backend\<close>: closing,
  duplicating, inheriting and opening never fault and keep the invariant of the tables.
\<close>

lemma core_lock_upd [simp]:
  "fd_core good winv handles K (st\<lparr>g_vfs_lock := l\<rparr>) = fd_core good winv handles K st"
  "fd_core good winv handles K (vfs_unlock st) = fd_core good winv handles K st"
  by (simp_all add: fd_core_def tables_ok_def vfs_core_def all_refs_def[abs_def] vfs_unlock_def)

lemma vfs_unlock_fields [simp]:
  "g_vfs_lock (vfs_unlock st) = 0" "fd_tables (vfs_unlock st) = fd_tables st" "sched_current (vfs_unlock st) = sched_current st"
  "g_nodes (vfs_unlock st) = g_nodes st" "g_backends (vfs_unlock st) = g_backends st" "world (vfs_unlock st) = world st"
  "rings (vfs_unlock st) = rings st"
  by (simp_all add: vfs_unlock_def)

lemma vfs_acquire_free: "g_vfs_lock st = 0 \<Longrightarrow> vfs_acquire st = Some (st\<lparr>g_vfs_lock := 1\<rparr>)"
  by (simp add: vfs_acquire_def)

lemma fd_inv_locked:
  assumes "fd_inv good winv handles K st"
  shows "vfs_acquire st = Some (st\<lparr>g_vfs_lock := 1\<rparr>)" "fd_core good winv handles K (st\<lparr>g_vfs_lock := 1\<rparr>)"
  using assms by (simp_all add: fd_inv_def vfs_acquire_free)

lemma fd_inv_unlock [simp]: "fd_inv good winv handles K (vfs_unlock st) = fd_core good winv handles K st"
  by (simp add: fd_inv_def)

lemma slot_refs:
  assumes "tables_ok st" "p < length (fd_tables st)" "i < 256" "fd_tables st ! p ! i = Some n"
  shows "0 < all_refs K st n"
  using refs_pos[OF assms(2) _ assms(4)] assms(1-3) by (simp add: all_refs_def tables_ok_def)

context file_backend
begin

text \<open>A node held by number: giving it up.\<close>

lemma drop_kernel_ref:
  assumes st: "fd_core good winv handles K st" and n: "n \<in> K"
  shows "\<exists>st'. drop_ref n st = Some st' \<and> fd_core good winv handles (K - {n}) st'"
proof -
  have core: "vfs_core good winv handles (all_refs K st) st" and tb: "tables_ok st" using st by (simp_all add: fd_core_def)
  obtain st' where d: "drop_ref n st = Some st'" "vfs_core good winv handles ((all_refs K st)(n := all_refs K st n - 1)) st'" "same_env st st'"
    using drop_ref_ok[OF core, of n] n by (auto simp: all_refs_def)
  have "all_refs (K - {n}) st' = (all_refs K st)(n := all_refs K st n - 1)"
    using d(3) n by (auto simp: fun_eq_iff all_refs_def same_env_def)
  then show ?thesis using d tb by (auto simp: fd_core_def tables_ok_def same_env_def)
qed

lemma close_ok:
  assumes st: "fd_inv good winv handles K st" and g: "256 \<le> unat fd \<Longrightarrow> unat fd - 256 \<in> K \<or> 1280 \<le> unat fd"
  shows "\<exists>rc st'. vfs_close st fd = Some (rc, st') \<and> fd_inv good winv handles (if 256 \<le> unat fd then K - {unat fd - 256} else K) st'"
proof (cases "fd \<le> 2")
  case True
  then have "unat fd \<le> 2" by (simp add: word_le_nat_alt)
  then show ?thesis using True st by (simp add: vfs_close_def)
next
  case False
  note l = fd_inv_locked[OF st]
  let ?st = "st\<lparr>g_vfs_lock := 1\<rparr>"
  have tb: "tables_ok ?st" and core: "vfs_core good winv handles (all_refs K ?st) ?st" using l(2) unfolding fd_core_def by blast+
  note N = core_node[OF core]
  show ?thesis
  proof (cases "256 \<le> unat fd")
    case True
    let ?n = "unat fd - 256"
    show ?thesis
    proof (cases "1280 \<le> unat fd")
      case big: True
      have k: "?n \<notin> K" using nodes_okD(2)[OF N, of ?n] big by (auto simp: all_refs_def)
      have "1024 \<le> ?n" using big by linarith
      then show ?thesis
        using False True k l by (simp add: vfs_close_def fd_node_def MAX_FDS_def MAX_VFSNODES_def Let_def)
    next
      case low: False
      then have k: "?n \<in> K" using g True by simp
      then have "node_id (g_nodes st ! ?n) = of_nat ?n"
        using nodes_okD(3)[OF N, of ?n] by (simp add: all_refs_def node_ok_def)
      then have f: "fd_node ?st fd = Some (Some ?n)"
        using True low by (auto simp: fd_node_def MAX_FDS_def MAX_VFSNODES_def Let_def)
      obtain st' where "drop_ref ?n ?st = Some st'" "fd_core good winv handles (K - {?n}) st'"
        using drop_kernel_ref[OF l(2) k] by blast
      then show ?thesis using False True l(1) f by (simp add: vfs_close_def MAX_FDS_def)
    qed
  next
    case small_fd: False
    show ?thesis
    proof (cases "sched_current st")
      case None
      then show ?thesis using False small_fd l by (simp add: vfs_close_def fd_node_def MAX_FDS_def)
    next
      case (Some p)
      then have p: "p < length (fd_tables st)" using tb by (simp add: tables_ok_def)
      have f: "fd_node ?st fd = Some (fd_tables st ! p ! unat fd)"
        using Some p small_fd by (simp add: fd_node_def MAX_FDS_def pcb_fd_table_def)
      show ?thesis
      proof (cases "fd_tables st ! p ! unat fd")
        case None
        then show ?thesis using False small_fd l f by (simp add: vfs_close_def)
      next
        case (Some n)
        obtain st' where "drop_ref n (set_fd p (unat fd) None ?st) = Some st'" "fd_core good winv handles K st'"
          using close_slot_ok[OF l(2), of p "unat fd" n] p small_fd Some by auto
        then show ?thesis
          using False small_fd l(1) f Some \<open>sched_current st = Some p\<close> by (simp add: vfs_close_def MAX_FDS_def)
      qed
    qed
  qed
qed

lemma close_from_ok:
  assumes "fd_core good winv handles K st" "p < length (fd_tables st)" "\<forall>i\<in>set is. i < 256"
  shows "\<exists>st'. close_from p is st = Some st' \<and> fd_core good winv handles K st'"
  using assms
proof (induction "is" arbitrary: st)
  case (Cons i js)
  show ?case
  proof (cases "fd_tables st ! p ! i")
    case None
    then show ?thesis using Cons by (simp add: pcb_fd_table_def)
  next
    case (Some n)
    obtain st1 where s1: "drop_ref n (set_fd p i None st) = Some st1" "fd_core good winv handles K st1" "same_env (set_fd p i None st) st1"
      using close_slot_ok[OF Cons.prems(1,2), of i n] Cons.prems(3) Some by auto
    then have "p < length (fd_tables st1)" using Cons.prems(2) by (simp add: same_env_def set_fd_def)
    then show ?thesis using Cons.IH[OF s1(2)] s1(1) Some Cons.prems by (simp add: pcb_fd_table_def)
  qed
qed simp

lemma close_all_ok:
  assumes st: "fd_inv good winv handles K st" and p: "p < length (fd_tables st)"
  shows "\<exists>st'. vfs_close_all st (Some p) = Some st' \<and> fd_inv good winv handles K st'"
proof -
  note l = fd_inv_locked[OF st]
  obtain st' where "close_from p [3..<MAX_FDS] (st\<lparr>g_vfs_lock := 1\<rparr>) = Some st'" "fd_core good winv handles K st'"
    using close_from_ok[OF l(2), of p "[3..<MAX_FDS]"] p by (auto simp: MAX_FDS_def)
  then show ?thesis using l(1) by (simp add: vfs_close_all_def)
qed

lemma dup2_ok:
  assumes st: "fd_inv good winv handles K st" and ne: "oldfd \<noteq> newfd"
  shows "\<exists>rc st'. vfs_dup2 st oldfd newfd = Some (rc, st') \<and> fd_inv good winv handles K st'"
proof (cases "256 \<le> unat newfd \<or> sched_current st = None")
  case True
  then show ?thesis using st by (auto simp: vfs_dup2_def MAX_FDS_def)
next
  case False
  then obtain p where cur: "sched_current st = Some p" and new: "unat newfd < 256" by auto
  note l = fd_inv_locked[OF st]
  let ?st = "st\<lparr>g_vfs_lock := 1\<rparr>" and ?t = "fd_tables st ! p"
  have tb: "tables_ok ?st" using l(2) unfolding fd_core_def by blast
  have p: "p < length (fd_tables st)" "length ?t = 256" using tb cur by (auto simp: tables_ok_def)
  show ?thesis
  proof (cases "if unat oldfd < 256 then ?t ! unat oldfd else None")
    case None
    then show ?thesis using cur p new l by (simp add: vfs_dup2_def MAX_FDS_def pcb_fd_table_def)
  next
    case (Some n)
    then have old: "unat oldfd < 256" "?t ! unat oldfd = Some n" by (auto split: if_splits)
    have un: "unat oldfd \<noteq> unat newfd" using ne by (metis unsigned_word_eqI)
    obtain st1 where s1: "(case ?t ! unat newfd of None \<Rightarrow> Some ?st | Some old \<Rightarrow> drop_ref old (set_fd p (unat newfd) None ?st)) = Some st1"
      "fd_core good winv handles K st1" "fd_tables st1 ! p = ?t[unat newfd := None]" "length (fd_tables st1) = length (fd_tables st)"
    proof (cases "?t ! unat newfd")
      case None
      then have "?t[unat newfd := None] = ?t" by (metis list_update_id)
      then show thesis using that[of ?st] None l(2) by simp
    next
      case (Some m)
      then obtain st1 where "drop_ref m (set_fd p (unat newfd) None ?st) = Some st1" "fd_core good winv handles K st1"
        "same_env (set_fd p (unat newfd) None ?st) st1"
        using close_slot_ok[OF l(2), of p "unat newfd" m] p(1) new by auto
      then show thesis using that[of st1] Some p(1) by (simp add: same_env_def set_fd_def)
    qed
    have "0 < all_refs K st1 n"
      using slot_refs[of st1 p "unat oldfd" n] s1 p old un by (simp add: fd_core_def)
    then have "fd_core good winv handles K (upd_node n (\<lambda>x. x\<lparr>vn_refcount := vn_refcount x + 1\<rparr>) (set_fd p (unat newfd) (Some n) st1))"
      using share_slot_ok[OF s1(2)] s1(3,4) p new by simp
    then show ?thesis
      using s1(1) cur p new old l(1) by (auto simp: vfs_dup2_def MAX_FDS_def pcb_fd_table_def Let_def)
  qed
qed

lemma inherit_from_ok:
  assumes "fd_core good winv handles K st" "c < length (fd_tables st)" "p < length (fd_tables st)" "c \<noteq> p"
    "\<forall>i\<in>set js. i < 256 \<and> fd_tables st ! c ! i = None" "distinct js"
  shows "\<exists>st'. inherit_from c p js st = Some st' \<and> fd_core good winv handles K st' \<and> length (fd_tables st') = length (fd_tables st) \<and>
    (\<forall>i. fd_tables st' ! c ! i = (if i \<in> set js then fd_tables st ! p ! i else fd_tables st ! c ! i))"
  using assms
proof (induction js arbitrary: st)
  case (Cons i js)
  have i: "i < 256" "fd_tables st ! c ! i = None" "i \<notin> set js" "distinct js" using Cons.prems(5,6) by simp_all
  have tb: "length (fd_tables st ! c) = 256" "tables_ok st" using Cons.prems(1,2) by (simp_all add: fd_core_def tables_ok_def)
  show ?case
  proof (cases "fd_tables st ! p ! i")
    case None
    obtain st' where "inherit_from c p js st = Some st'" "fd_core good winv handles K st'" "length (fd_tables st') = length (fd_tables st)"
      "\<forall>j. fd_tables st' ! c ! j = (if j \<in> set js then fd_tables st ! p ! j else fd_tables st ! c ! j)"
      using Cons.IH[OF Cons.prems(1-4) _ i(4)] Cons.prems(5) by auto
    then show ?thesis using None i(2) Cons.prems(2,3) by (simp add: pcb_fd_table_def)
  next
    case (Some n)
    define st1 where "st1 = upd_node n (\<lambda>x. x\<lparr>vn_refcount := vn_refcount x + 1\<rparr>) (set_fd c i (Some n) st)"
    have "0 < all_refs K st n" using slot_refs[OF tb(2) Cons.prems(3) i(1) Some] .
    then have core: "fd_core good winv handles K st1" using share_slot_ok[OF Cons.prems(1,2) i(1,2)] by (simp add: st1_def)
    have T: "fd_tables st1 = (fd_tables st)[c := (fd_tables st ! c)[i := Some n]]" by (simp add: st1_def upd_node_def set_fd_def)
    have C: "fd_tables st1 ! c ! j = (if j = i then Some n else fd_tables st ! c ! j)" for j
      using T Cons.prems(2) i(1) tb(1) by (simp add: nth_list_update)
    have P: "fd_tables st1 ! p = fd_tables st ! p" using T Cons.prems(4) by simp
    have js: "\<forall>j\<in>set js. j < 256 \<and> fd_tables st1 ! c ! j = None" using Cons.prems(5) i(3) C by auto
    obtain st' where st': "inherit_from c p js st1 = Some st'" "fd_core good winv handles K st'" "length (fd_tables st') = length (fd_tables st1)"
      "\<forall>j. fd_tables st' ! c ! j = (if j \<in> set js then fd_tables st1 ! p ! j else fd_tables st1 ! c ! j)"
      using Cons.IH[OF core _ _ Cons.prems(4) js i(4)] Cons.prems(2,3) T by auto
    have "inherit_from c p (i # js) st = Some st'" using st'(1) Some Cons.prems(2,3) by (simp add: pcb_fd_table_def st1_def)
    then show ?thesis using st'(2,3,4) C P T Some i(3) by auto
  qed
qed simp

lemma inherit_ok:
  assumes st: "fd_inv good winv handles K st" and c: "c < length (fd_tables st)" "p < length (fd_tables st)" "c \<noteq> p"
    and empty: "\<forall>i<256. fd_tables st ! c ! i = None"
  shows "\<exists>st'. vfs_fd_inherit st (Some c) (Some p) = Some st' \<and> fd_inv good winv handles K st' \<and> (\<forall>i<256. fd_tables st' ! c ! i = fd_tables st ! p ! i)"
proof -
  note l = fd_inv_locked[OF st]
  have "\<forall>i\<in>set [0..<MAX_FDS]. i < 256 \<and> fd_tables (st\<lparr>g_vfs_lock := 1\<rparr>) ! c ! i = None" using empty by (simp add: MAX_FDS_def)
  from inherit_from_ok[OF l(2) _ _ c(3) this distinct_upt] c
  obtain st' where s: "inherit_from c p [0..<MAX_FDS] (st\<lparr>g_vfs_lock := 1\<rparr>) = Some st'" "fd_core good winv handles K st'"
    "\<forall>i. fd_tables st' ! c ! i = (if i \<in> set [0..<MAX_FDS] then fd_tables st ! p ! i else fd_tables st ! c ! i)" by auto
  show ?thesis using l(1) s(1,2) s(3) by (simp add: vfs_fd_inherit_def) (simp add: MAX_FDS_def)
qed

end

end
