(* ===== verification/Vfs_Open.thy ===== *)
theory Vfs_Open
  imports Vfs_Fd_Ops
begin

text \<open>
  Opening a path: the mount table always names a backend that is mounted and a rest of the path
  that is a string, the node that is taken is free, and the new descriptor, the node and the handle
  agree, on every way out.
\<close>

subsection \<open>The mount table\<close>

definition mounts_ok :: "'w vfs_backend list \<Rightarrow> bool" where
  "mounts_ok bes \<longleftrightarrow> (\<forall>be\<in>set bes. be_id be \<noteq> 0 \<longrightarrow> terminated (mount_pt be))"

lemma mount_matches_ok:
  assumes "terminated path" "terminated mp"
  shows "\<exists>m. mount_matches path mp (length (cstr mp)) = Some m \<and> (m \<longrightarrow> length (cstr mp) \<le> length (cstr path))"
proof (cases "length (cstr mp) = 1 \<and> hd mp = 47")
  case True
  have "path \<noteq> []" using assms(1) by auto
  moreover have "hd path = 47 \<longrightarrow> 1 \<le> length (cstr path)" using \<open>path \<noteq> []\<close> by (cases path) auto
  ultimately show ?thesis using True by (auto simp: mount_matches_def)
next
  case False
  let ?l = "length (cstr mp)"
  obtain r where r: "strncmp path mp ?l = Some r" "r = 0 \<longleftrightarrow> take ?l (cstr path) = take ?l (cstr mp)"
    using strncmp_terminated[OF assms] by blast
  show ?thesis
  proof (cases "r = 0")
    case True
    then have "take ?l (cstr path) = cstr mp" using r(2) by simp
    then have "?l \<le> length (cstr path)" by (metis length_take min.cobounded1)
    moreover from this have "?l < length path" using terminated_length[OF assms(1)] by linarith
    ultimately show ?thesis using True False r(1) by (auto simp: mount_matches_def)
  next
    case nz: False
    then show ?thesis using False r(1) by (intro exI[of _ False]) (auto simp: mount_matches_def)
  qed
qed

lemma best_backend_ok:
  assumes "terminated path" "mounts_ok bes" "best_len \<le> length (cstr path)"
    and "\<And>b. best = Some b \<Longrightarrow> b < i \<and> P b" and "\<And>j. j < length bes \<Longrightarrow> be_id (bes ! j) \<noteq> 0 \<Longrightarrow> P (i + j)"
  shows "\<exists>b l. best_backend path i bes best best_len = Some (b, l) \<and> l \<le> length (cstr path) \<and>
    (\<forall>k. b = Some k \<longrightarrow> k < i + length bes \<and> P k)"
  using assms(2-)
proof (induction bes arbitrary: i best best_len)
  case Nil
  then show ?case by auto
next
  case (Cons be bes)
  have rest: "mounts_ok bes" using Cons.prems(1) by (simp add: mounts_ok_def)
  have P: "P (Suc i + j)" if "j < length bes" "be_id (bes ! j) \<noteq> 0" for j
    using Cons.prems(4)[of "Suc j"] that by simp
  have old: "b < Suc i \<and> P b" if "best = Some b" for b using Cons.prems(3)[OF that] by simp
  show ?case
  proof (cases "be_id be = 0")
    case True
    then show ?thesis using Cons.IH[OF rest Cons.prems(2) old P] by simp
  next
    case False
    then have mt: "terminated (mount_pt be)" using Cons.prems(1) by (simp add: mounts_ok_def)
    obtain m where m: "mount_matches path (mount_pt be) (length (cstr (mount_pt be))) = Some m"
      "m \<longrightarrow> length (cstr (mount_pt be)) \<le> length (cstr path)" using mount_matches_ok[OF assms(1) mt] by blast
    have new: "b < Suc i \<and> P b" if "Some i = Some b" for b using Cons.prems(4)[of 0] False that by simp
    show ?thesis
    proof (cases "m \<and> best_len \<le> length (cstr (mount_pt be))")
      case True
      then show ?thesis
        using Cons.IH[where best = "Some i" and i = "Suc i" and best_len = "length (cstr (mount_pt be))", OF rest _ new P] False m mt by (simp add: strlen_eq)
    next
      case no: False
      then show ?thesis using Cons.IH[OF rest Cons.prems(2) old P] False m(1) mt by (auto simp: strlen_eq)
    qed
  qed
qed

lemma find_backend_ok:
  assumes p: "terminated path" "length (cstr path) < 256" and m: "mounts_ok (g_backends st)"
  shows "\<exists>r. find_backend st path = Some r \<and> (\<forall>b rel. r = Some (b, rel) \<longrightarrow> b < length (g_backends st) \<and> be_id (g_backends st ! b) \<noteq> 0 \<and>
    terminated rel \<and> length (cstr rel) < 256)"
proof -
  obtain b l where b: "best_backend path 0 (g_backends st) None 0 = Some (b, l)" "l \<le> length (cstr path)"
    "\<forall>k. b = Some k \<longrightarrow> k < length (g_backends st) \<and> be_id (g_backends st ! k) \<noteq> 0"
    using best_backend_ok[OF p(1) m, of 0 None 0 "\<lambda>k. be_id (g_backends st ! k) \<noteq> 0"] by auto
  have rel: "terminated (drop l path)" "length (cstr (drop l path)) < 256" "drop l path \<noteq> []"
    using terminated_drop[OF p(1) b(2)] p(2) by (auto simp: terminated_def)
  show ?thesis
  proof (cases b)
    case None
    then show ?thesis using b(1) by (simp add: find_backend_def)
  next
    case (Some k)
    then show ?thesis using b(1,3) rel p by (auto simp: find_backend_def Let_def)
  qed
qed

lemma canon_path_ok:
  assumes "terminated path"
  shows "\<exists>r. canon_path path = Some r \<and> (\<forall>c. r = Some c \<longrightarrow> terminated c \<and> length (cstr c) < 256)"
proof -
  obtain rc b where c: "vfs_canonicalize (Some path) (replicate 256 0) 256 = Some (rc, b)" "length b = 256"
    "if length (cstr path) < 256 \<and> fits 256 (resolve (cstr path)) then rc = 0 \<and> terminated b \<and> cstr b = canonical (cstr path) else rc = -1"
    using canonicalize_ok[OF assms, of "replicate 256 0" 256] by auto
  have "terminated b" if "rc = 0" using c(3) that by (auto split: if_splits)
  moreover have "length (cstr b) < 256" if "terminated b" using terminated_length[OF that] c(2) by simp
  ultimately show ?thesis using c(1) by (auto simp: canon_path_def VFS_PATH_MAX_def)
qed

lemma node_path_ok:
  assumes "terminated path"
  shows "\<exists>np. node_path path = Some np"
proof -
  obtain d where d: "strncpy (vn_path zero_node) path (VFS_PATH_MAX - 1) = Some d" "length d = 256"
    using strncpy_eq[OF assms, of "VFS_PATH_MAX - 1" "vn_path zero_node"] by (auto simp: zero_node_def VFS_PATH_MAX_def)
  then show ?thesis by (simp add: node_path_def buf_write_def VFS_PATH_MAX_def)
qed

text \<open>What the kernel holds by number after opening: a successful result names the node.\<close>

definition open_refs :: "nat set \<Rightarrow> nat option \<Rightarrow> u32 \<Rightarrow> nat set" where
  "open_refs K caller rc = (if caller = None \<and> unat rc < 1280 then insert (unat rc - 256) K else K)"

lemma open_refs_error [simp]: "rc \<in> {of_int VFS_EINVAL, of_int VFS_ENOENT, of_int VFS_EMFILE} \<Longrightarrow> open_refs K caller rc = K"
  by (auto simp: open_refs_def vfs_errors)

lemma open_refs_some [simp]: "open_refs K (Some p) rc = K"
  by (simp add: open_refs_def)

lemma open_refs_node: "n < 1024 \<Longrightarrow> open_refs K None (of_nat (n + 256)) = insert n K"
  by (simp add: open_refs_def unat_of_nat take_bit_nat_eq_self del: of_nat_add)

subsection \<open>A free node\<close>

lemma alloc_node_id_ok:
  obtains n st' where "alloc_node_id st = (n, st')" "n \<noteq> 0 \<Longrightarrow> n < 1024 \<and> node_id (g_nodes st ! n) = 0"
    "\<exists>k. st' = st\<lparr>g_next_node_id := k\<rparr>"
proof (cases "List.find (\<lambda>c. c \<noteq> 0 \<and> node_id (g_nodes st ! c) = 0)
    (map (\<lambda>i. unat (g_next_node_id st + of_nat i) mod MAX_VFSNODES) [0..<MAX_VFSNODES])")
  case None
  have "\<exists>k. st = st\<lparr>g_next_node_id := k\<rparr>" by (rule exI[of _ "g_next_node_id st"]) simp
  then show thesis using that[of 0 st] None by (auto simp: alloc_node_id_def Let_def)
next
  case (Some c)
  then have "node_id (g_nodes st ! c) = 0" "c < 1024" by (auto simp: find_Some_iff MAX_VFSNODES_def)
  then show thesis using that[of c] Some by (auto simp: alloc_node_id_def Let_def)
qed

lemma of_nat_node_id: "n < 1024 \<Longrightarrow> n \<noteq> 0 \<Longrightarrow> (of_nat n :: u32) \<noteq> 0"
  by (auto simp: word_of_nat_eq_0_iff dest: dvd_imp_le)

lemma nodes_handles:
  assumes N: "nodes_ok B H R N" and H: "\<And>m. 0 < R m \<Longrightarrow> vn_backend (N ! m) \<noteq> None \<Longrightarrow> vn_bctx (N ! m) \<in> H'"
  shows "nodes_ok B H' R N"
proof -
  have "node_ok B H' n (R n) (N ! n)" if "0 < R n" for n
    using nodes_okD(3)[OF N that] H[OF that] by (auto simp: node_ok_def)
  then show ?thesis using N unfolding nodes_ok_def by simp
qed

text \<open>A handle that no node has yet goes into a free node, or is closed again.\<close>

definition unused :: "u64 set \<Rightarrow> (nat \<Rightarrow> nat) \<Rightarrow> vfsnode list \<Rightarrow> u64 \<Rightarrow> bool" where
  "unused H R N x \<longleftrightarrow> x \<in> H \<and> (\<forall>m. 0 < R m \<longrightarrow> vn_backend (N ! m) \<noteq> None \<longrightarrow> vn_bctx (N ! m) \<noteq> x)"

context file_backend
begin

lemma core_mounts: "vfs_core good winv handles R st \<Longrightarrow> mounts_ok (g_backends st)"
  by (auto simp: vfs_core_def mounts_ok_def)

lemma node_handle:
  "vfs_core good winv handles R st \<Longrightarrow> 0 < R m \<Longrightarrow> vn_backend (g_nodes st ! m) \<noteq> None \<Longrightarrow> vn_bctx (g_nodes st ! m) \<in> handles (world st)"
  using nodes_okD(3)[OF core_node] by (auto simp: node_ok_def)

lemma core_world:
  assumes st: "vfs_core good winv handles R st" and w: "winv w" "handles (world st) \<subseteq> handles w"
  shows "vfs_core good winv handles R (st\<lparr>world := w\<rparr>)"
proof -
  have "nodes_ok (g_backends st) (handles w) R (g_nodes st)"
    using w(2) by (intro nodes_handles[OF core_node[OF st]]) (use node_handle[OF st] in blast)
  then show ?thesis using st w(1) by (simp add: vfs_core_def)
qed

lemma close_unused:
  assumes st: "vfs_core good winv handles R st" "unused (handles (world st)) R (g_nodes st) x" and b: "b < length (g_backends st)" "be_id (g_backends st ! b) \<noteq> 0"
  shows "\<exists>w. backend_close (Some b) x st = Some (st\<lparr>world := w\<rparr>) \<and> vfs_core good winv handles R (st\<lparr>world := w\<rparr>)"
proof -
  obtain f w where c: "op_close (be_ops (g_backends st ! b)) = Some f" "f (be_ctx (g_backends st ! b)) x (world st) = Some w" "winv w"
    "handles w = handles (world st) - {x}"
    using close_law[OF core_backend[OF st(1) b], of "world st" x] st by (auto simp: vfs_core_def unused_def)
  have "nodes_ok (g_backends st) (handles w) R (g_nodes st)"
    using st(2) c(4) by (intro nodes_handles[OF core_node[OF st(1)]]) (use node_handle[OF st(1)] in \<open>simp add: unused_def\<close>)
  then show ?thesis using c st(1) by (auto simp: backend_close_def vfs_core_def)
qed

lemma take_node:
  assumes st: "vfs_core good winv handles R st" "unused (handles (world st)) R (g_nodes st) x" and b: "b < length (g_backends st)" "be_id (g_backends st ! b) \<noteq> 0"
    and n: "n < 1024" "n \<noteq> 0" and y: "node_id y = of_nat n" "vn_refcount y = 1" "vn_backend y = Some b" "vn_bctx y = x" "vn_ring y = 0" "vn_port_id y = 0"
  shows "vfs_core good winv handles (R(n := 1)) (upd_node n (\<lambda>_. y) st)"
proof -
  have "nodes_ok (g_backends st) (handles (world st)) (R(n := 1)) ((g_nodes st)[n := y])"
  proof (rule nodes_upd[OF core_node[OF st(1)] n])
    show "if (1::nat) = 0 then node_id y = 0 else node_ok (g_backends st) (handles (world st)) n 1 y"
      using y b st(2) by (simp add: node_ok_def unused_def)
    fix m assume m: "m \<noteq> n" "0 < R m" "vn_backend (g_nodes st ! m) \<noteq> None"
    show "vn_bctx (g_nodes st ! m) \<in> handles (world st) \<and> (0 < (1::nat) \<longrightarrow> vn_backend y \<noteq> None \<longrightarrow> vn_bctx (g_nodes st ! m) \<noteq> vn_bctx y)"
      using nodes_okD(3)[OF core_node[OF st(1)] m(2)] m st(2) y(4) by (auto simp: node_ok_def unused_def)
  qed
  then show ?thesis using st(1) by (simp add: vfs_core_def upd_node_def)
qed

lemma backend_size_ok:
  assumes st: "vfs_core good winv handles R st" and b: "b < length (g_backends st)" "be_id (g_backends st ! b) \<noteq> 0" and rel: "terminated rel"
  shows "\<exists>sz w. backend_size b rel st = Some (sz, st\<lparr>world := w\<rparr>) \<and> vfs_core good winv handles R (st\<lparr>world := w\<rparr>)"
proof -
  have "winv (world st)" using st by (simp add: vfs_core_def)
  then obtain f rc i w where s: "op_stat (be_ops (g_backends st ! b)) = Some f" "f (be_ctx (g_backends st ! b)) rel zero_stat (world st) = Some (rc, i, w)"
    "winv w" "handles w = handles (world st)"
    using stat_law[OF core_backend[OF st b] _ rel, of "world st" zero_stat] by (auto simp: zero_stat_def VFS_PATH_MAX_def)
  then show ?thesis using core_world[OF st s(3)] by (auto simp: backend_size_def)
qed

lemma size_node_ok:
  assumes st: "vfs_core good winv handles R st"
  shows "vfs_core good winv handles R (upd_node n (\<lambda>y. y\<lparr>vn_size := s\<rparr>) st)"
  using st by (simp add: vfs_core_def upd_node_def nodes_same[where g = "\<lambda>y. y\<lparr>vn_size := s\<rparr>"])

text \<open>The descriptor: a slot of the caller's table, or the node's number for the kernel.\<close>

lemma install_fd_ok:
  assumes tb: "tables_ok st" and p: "p < length (fd_tables st)"
    and core: "vfs_core good winv handles ((all_refs K st)(n := 1)) st" and n: "all_refs K st n = 0"
  shows "install_fd p n st = Some (0, st) \<or> (\<exists>fd st'. install_fd p n st = Some (fd, st') \<and> fd \<noteq> 0 \<and> fd < 256 \<and> fd_core good winv handles K st')"
proof (cases "first_idx (\<lambda>x. x = None) (drop 3 (fd_tables st ! p))")
  case None
  then show ?thesis using p by (simp add: install_fd_def pcb_fd_table_def)
next
  case (Some i)
  have len: "length (fd_tables st ! p) = 256" using tb p by (simp add: tables_ok_def)
  then have i: "3 + i < 256" "fd_tables st ! p ! (3 + i) = None"
    using first_idx_bound[OF Some] first_idx_holds[OF Some] by simp_all
  let ?st = "set_fd p (3 + i) (Some n) st"
  have "all_refs K ?st = (all_refs K st)(n := 1)"
  proof
    fix m
    show "all_refs K ?st m = ((all_refs K st)(n := 1)) m"
      using refs_set[OF p, of "3 + i" "Some n" m] i len n by (auto simp: all_refs_def set_fd_def)
  qed
  moreover have "tables_ok ?st"
    using tb p len by (auto simp: tables_ok_def set_fd_def dest!: set_update_subset_insert[THEN subsetD])
  ultimately have "fd_core good winv handles K ?st" using core by (simp add: fd_core_def)
  then show ?thesis using Some p i by (simp add: install_fd_def pcb_fd_table_def)
qed

lemma kernel_fd_ok:
  assumes "tables_ok st" "vfs_core good winv handles ((all_refs K st)(n := 1)) st" "all_refs K st n = 0"
  shows "fd_core good winv handles (insert n K) st"
proof -
  have "all_refs (insert n K) st = (all_refs K st)(n := 1)" using assms(3) by (auto simp: fun_eq_iff all_refs_def)
  then show ?thesis using assms(1,2) by (simp add: fd_core_def)
qed

lemma refs_same [simp]:
  "all_refs K (upd_node n f st) = all_refs K st" "all_refs K (st\<lparr>world := w\<rparr>) = all_refs K st" "all_refs K (st\<lparr>g_next_node_id := i\<rparr>) = all_refs K st"
  "tables_ok (upd_node n f st) = tables_ok st" "tables_ok (st\<lparr>world := w\<rparr>) = tables_ok st" "tables_ok (st\<lparr>g_next_node_id := i\<rparr>) = tables_ok st"
  by (simp_all add: all_refs_def[abs_def] upd_node_def tables_ok_def)

lemma give_back_ok:
  assumes st: "vfs_core good winv handles (R(n := 1)) st" and n: "n < 1024" "R n = 0" and b: "vn_backend (g_nodes st ! n) = Some b"
  shows "\<exists>st'. backend_close (Some b) (vn_bctx (g_nodes st ! n)) (upd_node n (\<lambda>y. y\<lparr>node_id := 0\<rparr>) (vfs_unlock st)) = Some st' \<and>
    vfs_core good winv handles R st' \<and> same_env (vfs_unlock st) st'"
proof -
  have st2: "vfs_core good winv handles (R(n := 1)) (vfs_unlock st)" using st by (simp add: vfs_core_def)
  obtain w where "backend_close (Some b) (vn_bctx (g_nodes st ! n)) ((vfs_unlock st)\<lparr>g_nodes := (g_nodes st)[n := (g_nodes st ! n)\<lparr>node_id := 0\<rparr>]\<rparr>) =
      Some ((vfs_unlock st)\<lparr>g_nodes := (g_nodes st)[n := (g_nodes st ! n)\<lparr>node_id := 0\<rparr>], world := w\<rparr>)" "winv w"
    "nodes_ok (g_backends st) (handles w) (R(n := 0)) ((g_nodes st)[n := (g_nodes st ! n)\<lparr>node_id := 0\<rparr>])"
    using release_node[OF st2, of n "g_nodes st ! n" "(g_nodes st)[n := (g_nodes st ! n)\<lparr>node_id := 0\<rparr>]"] b by auto
  moreover have "R(n := 0) = R" using n(2) by auto
  ultimately show ?thesis using st by (simp add: upd_node_def vfs_core_def same_env_def)
qed

text \<open>The second half of \<^verbatim>\<open>vfs_open\<close>, from where the backend has given out \<open>x\<close> and a node is found.\<close>

lemma finish_open:
  assumes st: "fd_core good winv handles K st" and x: "unused (handles (world st)) (all_refs K st) (g_nodes st) x"
    and b: "b < length (g_backends st)" "be_id (g_backends st ! b) \<noteq> 0" and rel: "terminated rel"
    and n: "n < 1024" "n \<noteq> 0" "all_refs K st n = 0" and c: "\<And>p. caller = Some p \<Longrightarrow> p < length (fd_tables st)"
    and y: "node_id y = of_nat n" "vn_refcount y = 1" "vn_backend y = Some b" "vn_bctx y = x" "vn_ring y = 0" "vn_port_id y = 0"
  shows "\<exists>rc st'. do {
      let st = upd_node n (\<lambda>_. y) st;
      (sz, st) \<leftarrow> backend_size b rel st;
      let st = upd_node n (\<lambda>n. n\<lparr>vn_size := sz\<rparr>) st;
      (fd, st) \<leftarrow> (case caller of Some p \<Rightarrow> install_fd p n st | None \<Rightarrow> Some (n + MAX_FDS, st));
      let st = vfs_unlock st;
      if fd = 0 then do {
        let st = upd_node n (\<lambda>n. n\<lparr>node_id := 0\<rparr>) st;
        st \<leftarrow> backend_close (Some b) x st;
        Some (of_int VFS_EMFILE, st) }
      else Some (of_nat fd, st) } = Some (rc, st') \<and> fd_inv good winv handles (open_refs K caller rc) st'"
proof -
  have tb: "tables_ok st" and core: "vfs_core good winv handles (all_refs K st) st" using st by (simp_all add: fd_core_def)
  note len = nodes_okD(1)[OF core_node[OF core]]
  let ?st1 = "upd_node n (\<lambda>_. y) st"
  have st1: "vfs_core good winv handles ((all_refs K st)(n := 1)) ?st1" by (rule take_node[OF core x b n(1,2) y])
  obtain sz w where s2: "backend_size b rel ?st1 = Some (sz, ?st1\<lparr>world := w\<rparr>)" "vfs_core good winv handles ((all_refs K st)(n := 1)) (?st1\<lparr>world := w\<rparr>)"
    using backend_size_ok[OF st1 _ _ rel, of b] b by (auto simp: upd_node_def)
  define st3 where "st3 = upd_node n (\<lambda>n. n\<lparr>vn_size := sz\<rparr>) (?st1\<lparr>world := w\<rparr>)"
  have core3: "vfs_core good winv handles ((all_refs K st3)(n := 1)) st3" and tb3: "tables_ok st3" "all_refs K st3 n = 0"
    using size_node_ok[OF s2(2)] tb n(3) by (simp_all add: st3_def)
  have y3: "vn_backend (g_nodes st3 ! n) = Some b" "vn_bctx (g_nodes st3 ! n) = x" "fd_tables st3 = fd_tables st"
    using n(1) len y by (simp_all add: st3_def upd_node_def)
  show ?thesis
  proof (cases caller)
    case None
    have "fd_core good winv handles (insert n K) st3" by (rule kernel_fd_ok[OF tb3(1) core3 tb3(2)])
    then show ?thesis using None s2(1) n(1,2) by (simp add: st3_def[symmetric] MAX_FDS_def open_refs_node del: of_nat_add)
  next
    case (Some p)
    have "p < length (fd_tables st3)" using c[OF Some] y3(3) by simp
    from install_fd_ok[OF tb3(1) this core3 tb3(2)] show ?thesis
    proof (elim disjE exE conjE)
      assume i: "install_fd p n st3 = Some (0, st3)"
      obtain st4 where st4: "backend_close (Some b) x (upd_node n (\<lambda>y. y\<lparr>node_id := 0\<rparr>) (vfs_unlock st3)) = Some st4"
        "vfs_core good winv handles (all_refs K st3) st4" "same_env (vfs_unlock st3) st4"
        using give_back_ok[OF core3 n(1) tb3(2) y3(1)] y3(2) by auto
      have "fd_inv good winv handles K st4"
        using st4(2,3) tb3(1) by (simp add: fd_inv_def fd_core_def same_env_def tables_ok_def all_refs_def[abs_def])
      then show ?thesis using i st4(1) Some s2(1) by (simp add: st3_def[symmetric])
    next
      fix fd st4
      assume "install_fd p n st3 = Some (fd, st4)" "fd \<noteq> 0" "fd_core good winv handles K st4"
      then show ?thesis using Some s2(1) by (simp add: st3_def[symmetric])
    qed
  qed
qed

lemma open_ok:
  assumes st: "fd_inv good winv handles K st" and path: "terminated path" and c: "\<And>p. caller = Some p \<Longrightarrow> p < length (fd_tables st)"
  shows "\<exists>rc st'. vfs_open st (Some path) fl caller = Some (rc, st') \<and> fd_inv good winv handles (open_refs K caller rc) st'"
proof -
  have ne: "path \<noteq> []" using path by auto
  obtain r where r: "canon_path path = Some r" "\<And>q. r = Some q \<Longrightarrow> terminated q \<and> length (cstr q) < 256"
    using canon_path_ok[OF path] by auto
  show ?thesis
  proof (cases "hd path = 0 \<or> r = None")
    case True
    then show ?thesis using r(1) ne st by (auto simp: vfs_open_def)
  next
    case False
    then obtain q where q: "r = Some q" "hd path \<noteq> 0" by auto
    note q2 = r(2)[OF q(1)]
    let ?fl = "if fl AND (VFS_O_READ OR VFS_O_WRITE) = 0 then fl OR VFS_O_READ else fl"
    note l = fd_inv_locked[OF st]
    define s1 where "s1 = st\<lparr>g_vfs_lock := 1\<rparr>"
    have core: "vfs_core good winv handles (all_refs K s1) s1" and tb: "tables_ok s1" using l(2) by (simp_all add: fd_core_def s1_def)
    obtain be where be: "find_backend s1 q = Some be" "\<And>b rel. be = Some (b, rel) \<Longrightarrow> b < length (g_backends s1) \<and> be_id (g_backends s1 ! b) \<noteq> 0 \<and>
      terminated rel \<and> length (cstr rel) < 256"
      using find_backend_ok[of q s1] q2 core_mounts[OF core] by auto
    show ?thesis
    proof (cases be)
      case None
      then show ?thesis using q r(1) ne l be(1) by (auto simp: vfs_open_def s1_def)
    next
      case (Some br)
      obtain b rel where br: "br = (b, rel)" by fastforce
      note b = be(2)[OF Some[unfolded br]]
      obtain f x w where o: "op_open (be_ops (g_backends s1 ! b)) = Some f" "f (be_ctx (g_backends s1 ! b)) rel ?fl (world s1) = Some (x, w)" "winv w"
        "x = 0 \<and> handles w = handles (world s1) \<or> x \<noteq> 0 \<and> x \<notin> handles (world s1) \<and> handles w = insert x (handles (world s1))"
        using open_law[OF core_backend[OF core], of b "world s1" rel ?fl] b core by (auto simp: vfs_core_def)
      define s2 where "s2 = s1\<lparr>world := w\<rparr>"
      have core2: "fd_core good winv handles K s2" using core_world[OF core o(3)] o(4) tb by (auto simp: fd_core_def s2_def)
      have opened: "vfs_open st (Some path) fl caller =
          (if x = 0 then Some (of_int VFS_ENOENT, vfs_unlock s2)
           else do {
             let (nid, st) = alloc_node_id s2;
             if nid = 0 then do { st \<leftarrow> backend_close (Some b) x st; Some (of_int VFS_EMFILE, vfs_unlock st) }
             else do {
               np \<leftarrow> node_path q;
               let st = upd_node nid (\<lambda>_. zero_node\<lparr>node_id := of_nat nid, vn_refcount := 1, vn_flags := ?fl,
                 vn_size := -1, vn_path := np, vn_backend := Some b, vn_bctx := x, vn_pcb := caller\<rparr>) st;
               (sz, st) \<leftarrow> backend_size b rel st;
               let st = upd_node nid (\<lambda>n. n\<lparr>vn_size := sz\<rparr>) st;
               (fd, st) \<leftarrow> (case caller of Some p \<Rightarrow> install_fd p nid st | None \<Rightarrow> Some (nid + MAX_FDS, st));
               let st = vfs_unlock st;
               if fd = 0 then do {
                 let st = upd_node nid (\<lambda>n. n\<lparr>node_id := 0\<rparr>) st;
                 st \<leftarrow> backend_close (Some b) x st;
                 Some (of_int VFS_EMFILE, st) }
               else Some (of_nat fd, st) } })"
        using ne q r(1) l(1) be(1) Some br o(1,2) by (simp add: vfs_open_def s1_def s2_def Let_def cong: if_cong)
      show ?thesis
      proof (cases "x = 0")
        case True
        then show ?thesis using opened core2 by auto
      next
        case False
        then have x: "x \<notin> handles (world s1)" "handles w = insert x (handles (world s1))" using o(4) by auto
        obtain n s3 where a: "alloc_node_id s2 = (n, s3)" "n \<noteq> 0 \<Longrightarrow> n < 1024 \<and> node_id (g_nodes s2 ! n) = 0" "\<exists>k. s3 = s2\<lparr>g_next_node_id := k\<rparr>"
          using alloc_node_id_ok[of s2] by blast
        obtain k where k: "s3 = s2\<lparr>g_next_node_id := k\<rparr>" using a(3) by blast
        have core3: "fd_core good winv handles K s3" using core2 by (simp add: k fd_core_def vfs_core_def)
        have un: "unused (handles (world s3)) (all_refs K s3) (g_nodes s3) x"
          using x node_handle[OF core] by (auto simp: unused_def k s2_def)
        have b3: "b < length (g_backends s3)" "be_id (g_backends s3 ! b) \<noteq> 0" using b by (simp_all add: k s2_def)
        show ?thesis
        proof (cases "n = 0")
          case True
          obtain w' where "backend_close (Some b) x s3 = Some (s3\<lparr>world := w'\<rparr>)" "vfs_core good winv handles (all_refs K s3) (s3\<lparr>world := w'\<rparr>)"
            using close_unused[OF _ un b3] core3 by (auto simp: fd_core_def)
          then show ?thesis using opened False True a(1) core3 by (auto simp: fd_core_def)
        next
          case n0: False
          have n: "n < 1024" "node_id (g_nodes s3 ! n) = 0" using a(2)[OF n0] by (simp_all add: k)
          have "all_refs K s3 n = 0"
          proof (rule ccontr)
            assume "all_refs K s3 n \<noteq> 0"
            then have "node_id (g_nodes s3 ! n) = of_nat n"
              using nodes_okD(3)[OF core_node, of "all_refs K s3" s3 n] core3 by (simp add: fd_core_def node_ok_def)
            then show False using n of_nat_node_id[OF n(1) n0] by simp
          qed
          note fin = finish_open[OF core3 un b3 _ n(1) n0 this, of rel caller]
          obtain np where np: "node_path q = Some np" using node_path_ok q2 by blast
          have "p < length (fd_tables s3)" if "caller = Some p" for p using c[OF that] by (simp add: k s2_def s1_def)
          with fin[of "zero_node\<lparr>node_id := of_nat n, vn_refcount := 1, vn_flags := ?fl, vn_size := -1, vn_path := np, vn_backend := Some b, vn_bctx := x, vn_pcb := caller\<rparr>"] b
          obtain rc st' where "vfs_open st (Some path) fl caller = Some (rc, st')" and inv: "fd_inv good winv handles (open_refs K caller rc) st'"
            unfolding opened using False n0 a(1) np by (auto simp: zero_node_def)
          then show ?thesis by blast
        qed
      qed
    qed
  qed
qed

end

end
