(* ===== verification/Vfs_Run.thy ===== *)
theory Vfs_Run
  imports Vfs_Open
begin

text \<open>
  Runs of the file system layer over the memory file system: the operations of processes and of the
  kernel on descriptors as the steps of a transition system. In every reachable state the reference
  counts are exact and no descriptor points to a freed node; every enabled operation completes. Two
  operations are left out of the runs because they break this: duplicating a descriptor onto itself,
  and closing by number a node that the kernel does not hold.
\<close>

subsection \<open>Mounting\<close>

lemma mount_strncpy:
  assumes "terminated mp" "length d = Suc k"
  shows "\<exists>b. (strncpy d mp k \<bind> (\<lambda>d. buf_write d k [0])) = Some b \<and> terminated b"
proof -
  obtain d' where d: "strncpy d mp k = Some d'" "length d' = Suc k"
    using strncpy_eq[OF assms(1), of k d] assms(2) by auto
  then show ?thesis by (simp add: buf_write_def)
qed

context file_backend
begin

lemma mount_ok:
  assumes st: "fd_inv good winv handles K st" and g: "good ops ctx" and mp: "terminated mp"
  shows "\<exists>i st'. vfs_mount st (Some mp) ops ctx = Some (i, st') \<and> fd_inv good winv handles K st'"
proof (cases "hd mp = 0 \<or> first_idx (\<lambda>b. be_id b = 0) (g_backends st) = None")
  case True
  have "mp \<noteq> []" using mp by auto
  then show ?thesis using True st fd_inv_locked[OF st] by (auto simp: vfs_mount_def)
next
  case False
  then obtain i where i: "first_idx (\<lambda>b. be_id b = 0) (g_backends st) = Some i" "hd mp \<noteq> 0" by auto
  have ne: "mp \<noteq> []" using mp by auto
  note l = fd_inv_locked[OF st]
  have core: "vfs_core good winv handles (all_refs K st) st" and tb: "tables_ok st"
    using st by (simp_all add: fd_inv_def fd_core_def)
  have il: "i < 16" "be_id (g_backends st ! i) = 0"
    using first_idx_bound[OF i(1)] first_idx_holds[OF i(1)] core by (simp_all add: vfs_core_def)
  obtain nm where nm: "(strncpy (be_name (zero_backend :: 'w vfs_backend)) mp (VFS_BE_NAME_LEN - 1) \<bind> (\<lambda>d. buf_write d (VFS_BE_NAME_LEN - 1) [0])) = Some nm"
    using mount_strncpy[OF mp, of "be_name (zero_backend :: 'w vfs_backend)" "VFS_BE_NAME_LEN - 1"] by (auto simp: zero_backend_def VFS_BE_NAME_LEN_def)
  obtain mt where mt: "(strncpy (mount_pt (zero_backend :: 'w vfs_backend)) mp (VFS_PATH_MAX - 1) \<bind> (\<lambda>d. buf_write d (VFS_PATH_MAX - 1) [0])) = Some mt" "terminated mt"
    using mount_strncpy[OF mp, of "mount_pt (zero_backend :: 'w vfs_backend)" "VFS_PATH_MAX - 1"] by (auto simp: zero_backend_def VFS_PATH_MAX_def)
  define be where "be = \<lparr>be_name = nm, mount_pt = mt, be_ops = ops, be_ctx = ctx, be_id = of_nat (i + 1)\<rparr>"
  define st2 where "st2 = st\<lparr>g_vfs_lock := 1, g_backends := (g_backends st)[i := be]\<rparr>"
  have "vfs_mount st (Some mp) ops ctx = Some (of_nat (i + 1), vfs_unlock st2)"
    using ne i l(1) nm mt(1) by (simp add: vfs_mount_def bind_assoc[symmetric] be_def st2_def del: bind_assoc)
  moreover have "nodes_ok ((g_backends st)[i := be]) (handles (world st)) (all_refs K st) (g_nodes st)"
  proof -
    have same: "(g_backends st)[i := be] ! b = g_backends st ! b" if "be_id (g_backends st ! b) \<noteq> 0" for b
      using il(2) that by (cases "b = i") auto
    have "node_ok ((g_backends st)[i := be]) (handles (world st)) n (all_refs K st n) (g_nodes st ! n)" if "0 < all_refs K st n" for n
      using nodes_okD(3)[OF core_node[OF core] that] by (auto simp: node_ok_def same)
    then show ?thesis using core_node[OF core] unfolding nodes_ok_def by simp
  qed
  then have "fd_core good winv handles K st2"
    using core tb g mt(2) by (auto simp: fd_core_def vfs_core_def st2_def be_def tables_ok_def all_refs_def[abs_def] dest!: set_update_subset_insert[THEN subsetD])
  ultimately show ?thesis by simp
qed

end

subsection \<open>The memory file system is a backend\<close>

definition ramfs_mounted :: "fsw vfs_ops \<Rightarrow> nat option \<Rightarrow> bool" where
  "ramfs_mounted ops ctx \<longleftrightarrow> ops = ramfs_ops \<and> (\<exists>k<3. ctx = Some k)"

interpretation ram: file_backend ramfs_mounted ram_inv ram_handles
proof (unfold_locales, goal_cases)
  case (1 ops ctx w path fl)
  then show ?case using ramfs_open_ok[of w _ path fl] by (fastforce simp: ramfs_mounted_def ramfs_ops_def)
next
  case (2 ops ctx w x)
  then show ?case using ramfs_close_ok[of w x ctx] by (auto simp: ramfs_mounted_def ramfs_ops_def)
next
  case (3 ops ctx w path info)
  then show ?case using ramfs_stat_ok[of w _ path info] by (fastforce simp: ramfs_mounted_def ramfs_ops_def)
qed

subsection \<open>Steps\<close>

abbreviation ram_fd_inv :: "nat set \<Rightarrow> fsw vfs \<Rightarrow> bool" where
  "ram_fd_inv \<equiv> fd_inv ramfs_mounted ram_inv ram_handles"

text \<open>
  An operation is a call of the layer, or a step of its environment: the scheduler switches to
  another process, or creates one with an empty table.
\<close>

datatype fd_op =
    Mount "u8 list" nat
  | Open "u8 list" u32 "nat option"
  | Close u32
  | CloseAll nat
  | Dup2 u32 u32
  | Inherit nat nat
  | Switch "nat option"
  | Spawn

text \<open>What the callers guarantee. \<open>K\<close> are the nodes that the kernel holds by number.\<close>

fun enabled :: "nat set \<Rightarrow> fsw vfs \<Rightarrow> fd_op \<Rightarrow> bool" where
  "enabled K st (Mount mp k) \<longleftrightarrow> terminated mp \<and> k < 3"
| "enabled K st (Open path fl caller) \<longleftrightarrow> terminated path \<and> (case caller of None \<Rightarrow> True | Some p \<Rightarrow> p < length (fd_tables st))"
| "enabled K st (Close fd) \<longleftrightarrow> unat fd < 256 \<or> unat fd - 256 \<in> K \<or> 1280 \<le> unat fd"
| "enabled K st (CloseAll p) \<longleftrightarrow> p < length (fd_tables st)"
| "enabled K st (Dup2 oldfd newfd) \<longleftrightarrow> oldfd \<noteq> newfd"
| "enabled K st (Inherit c p) \<longleftrightarrow> c < length (fd_tables st) \<and> p < length (fd_tables st) \<and> c \<noteq> p \<and> (\<forall>i<256. fd_tables st ! c ! i = None)"
| "enabled K st (Switch p) \<longleftrightarrow> (case p of None \<Rightarrow> True | Some p \<Rightarrow> p < length (fd_tables st))"
| "enabled K st Spawn \<longleftrightarrow> Suc (length (fd_tables st)) * 256 + 1 < 2 ^ 32"

inductive fd_step :: "nat set \<times> fsw vfs \<Rightarrow> fd_op \<Rightarrow> nat set \<times> fsw vfs \<Rightarrow> bool" where
  mount: "enabled K st (Mount mp k) \<Longrightarrow> vfs_mount st (Some mp) ramfs_ops (Some k) = Some (i, st') \<Longrightarrow> fd_step (K, st) (Mount mp k) (K, st')"
| opened: "enabled K st (Open path fl caller) \<Longrightarrow> vfs_open st (Some path) fl caller = Some (rc, st') \<Longrightarrow>
     fd_step (K, st) (Open path fl caller) (open_refs K caller rc, st')"
| closed: "enabled K st (Close fd) \<Longrightarrow> vfs_close st fd = Some (rc, st') \<Longrightarrow>
     fd_step (K, st) (Close fd) (if 256 \<le> unat fd then K - {unat fd - 256} else K, st')"
| closed_all: "enabled K st (CloseAll p) \<Longrightarrow> vfs_close_all st (Some p) = Some st' \<Longrightarrow> fd_step (K, st) (CloseAll p) (K, st')"
| dup2: "enabled K st (Dup2 oldfd newfd) \<Longrightarrow> vfs_dup2 st oldfd newfd = Some (rc, st') \<Longrightarrow> fd_step (K, st) (Dup2 oldfd newfd) (K, st')"
| inherit: "enabled K st (Inherit c p) \<Longrightarrow> vfs_fd_inherit st (Some c) (Some p) = Some st' \<Longrightarrow> fd_step (K, st) (Inherit c p) (K, st')"
| switch: "enabled K st (Switch p) \<Longrightarrow> fd_step (K, st) (Switch p) (K, st\<lparr>sched_current := p\<rparr>)"
| spawn: "enabled K st Spawn \<Longrightarrow> fd_step (K, st) Spawn (K, st\<lparr>fd_tables := fd_tables st @ [replicate 256 None]\<rparr>)"

inductive_cases fd_stepE: "fd_step (K, st) x (K', st')"

inductive fd_run :: "nat set \<times> fsw vfs \<Rightarrow> fd_op list \<Rightarrow> nat set \<times> fsw vfs \<Rightarrow> bool" where
  nil: "fd_run s [] s"
| cons: "fd_step s x s1 \<Longrightarrow> fd_run s1 xs s2 \<Longrightarrow> fd_run s (x # xs) s2"

lemma refs_empty_table [simp]: "refs (ts @ [replicate m None]) n = refs ts n"
  by (simp add: refs_def count_list_0_iff)

lemma fd_step_total:
  assumes "ram_fd_inv K st" "enabled K st x"
  shows "\<exists>K' st'. fd_step (K, st) x (K', st') \<and> ram_fd_inv K' st'"
proof (cases x)
  case (Mount mp k)
  then show ?thesis using ram.mount_ok[OF assms(1), of ramfs_ops "Some k" mp] assms(2) fd_step.mount by (fastforce simp: ramfs_mounted_def)
next
  case (Open path fl caller)
  then obtain rc st' where "vfs_open st (Some path) fl caller = Some (rc, st')" "ram_fd_inv (open_refs K caller rc) st'"
    using ram.open_ok[OF assms(1), of path caller fl] assms(2) by (auto split: option.splits)
  then show ?thesis using Open assms(2) fd_step.opened by blast
next
  case (Close fd)
  then obtain rc st' where "vfs_close st fd = Some (rc, st')" "ram_fd_inv (if 256 \<le> unat fd then K - {unat fd - 256} else K) st'"
    using ram.close_ok[OF assms(1), of fd] assms(2) by auto
  then show ?thesis using Close assms(2) fd_step.closed by blast
next
  case (CloseAll p)
  then show ?thesis using ram.close_all_ok[OF assms(1), of p] assms(2) fd_step.closed_all by (metis enabled.simps(4))
next
  case (Dup2 a b)
  then show ?thesis using ram.dup2_ok[OF assms(1), of a b] assms(2) fd_step.dup2 by (metis enabled.simps(5))
next
  case (Inherit c p)
  then show ?thesis using ram.inherit_ok[OF assms(1), of c p] assms(2) fd_step.inherit by (metis enabled.simps(6))
next
  case (Switch p)
  have "ram_fd_inv K (st\<lparr>sched_current := p\<rparr>)"
    using assms Switch by (simp add: fd_inv_def fd_core_def tables_ok_def vfs_core_def all_refs_def[abs_def] split: option.splits)
  then show ?thesis using Switch assms(2) fd_step.switch by blast
next
  case Spawn
  have "ram_fd_inv K (st\<lparr>fd_tables := fd_tables st @ [replicate 256 None]\<rparr>)"
    using assms Spawn by (auto simp: fd_inv_def fd_core_def tables_ok_def vfs_core_def all_refs_def[abs_def])
  then show ?thesis using Spawn assms(2) fd_step.spawn by blast
qed

lemma fd_step_det: "fd_step s x s1 \<Longrightarrow> fd_step s x s2 \<Longrightarrow> s1 = s2"
  by (induction rule: fd_step.induct) (auto elim: fd_step.cases)

lemma fd_step_enabled: "fd_step s x s' \<Longrightarrow> enabled (fst s) (snd s) x"
  by (induction rule: fd_step.induct) auto

lemma fd_run_inv: "fd_run s xs s' \<Longrightarrow> ram_fd_inv (fst s) (snd s) \<Longrightarrow> ram_fd_inv (fst s') (snd s')"
proof (induction rule: fd_run.induct)
  case (cons s x s1 xs s2)
  obtain K' st' where t: "fd_step s x (K', st')" "ram_fd_inv K' st'"
    using fd_step_total[OF cons.prems fd_step_enabled[OF cons.hyps(1)]] by auto
  then show ?case using fd_step_det[OF cons.hyps(1) t(1)] cons.IH by simp
qed

text \<open>Runs start where the layer has just been initialised: there is no process and no open node.\<close>

lemma fd_inv_init:
  assumes "ram_inv (world st)" "fd_tables st = []" "sched_current st = None"
  shows "ram_fd_inv {} (vfs_init st)"
  using assms by (simp add: fd_inv_def fd_core_def tables_ok_def vfs_core_def vfs_init_def all_refs_def[abs_def] refs_def nodes_ok_def
      MAX_VFSNODES_def MAX_BACKENDS_def zero_node_def zero_backend_def)

subsection \<open>Properties\<close>


text \<open>
  C7: Descriptor operations complete. In a state of the invariant, every operation whose caller
  meets its guard runs to its end: no null pointer, no access outside a table, no lock taken twice;
  and it leaves a state of the invariant, so the next operation completes as well.
\<close>

theorem fd_operations_complete:
  assumes "ram_fd_inv K st" and "enabled K st x"
  shows "\<exists>K' st'. fd_step (K, st) x (K', st') \<and> ram_fd_inv K' st'"
  by (rule fd_step_total[OF assms])

end
