(* ===== verification/Vfs_Misuse.thy ===== *)
theory Vfs_Misuse
  imports Vfs_Run
begin

text \<open>
  The two descriptor operations that the runs leave out, and a concrete state with one process and
  one open file on which the theorems about descriptors are exercised.
\<close>

context file_backend
begin

lemma drop_last_ref:
  assumes st: "vfs_core good winv handles R st" and n: "R n = 1" and b: "vn_backend (g_nodes st ! n) = Some b"
  shows "\<exists>w'. drop_ref n st = Some (st\<lparr>g_nodes := (g_nodes st)[n := (g_nodes st ! n)\<lparr>vn_refcount := 0, node_id := 0\<rparr>], world := w'\<rparr>) \<and>
    n < length (g_nodes st) \<and> winv w' \<and> vn_bctx (g_nodes st ! n) \<notin> handles w'"
proof -
  note N = core_node[OF st]
  have pos: "0 < R n" using n by simp
  note n2 = nodes_okD(2)[OF N pos] and nk = nodes_okD(3)[OF N pos] and len = nodes_okD(1)[OF N]
  have "unat (vn_refcount (g_nodes st ! n)) = unat (1 :: u32)" using nk n by (simp add: node_ok_def)
  then have r: "vn_refcount (g_nodes st ! n) = 1" by (rule unsigned_word_eqI)
  have bo: "b < length (g_backends st)" "be_id (g_backends st ! b) \<noteq> 0" "vn_bctx (g_nodes st ! n) \<in> handles (world st)"
    using nk b by (auto simp: node_ok_def)
  obtain f w' where c: "op_close (be_ops (g_backends st ! b)) = Some f"
    "f (be_ctx (g_backends st ! b)) (vn_bctx (g_nodes st ! n)) (world st) = Some w'" "winv w'" "handles w' = handles (world st) - {vn_bctx (g_nodes st ! n)}"
    using close_law[OF core_backend[OF st bo(1,2)] _ bo(3)] st by (auto simp: vfs_core_def)
  then show ?thesis using r n2 len b by (intro exI[of _ w']) (simp add: drop_ref_def upd_node_def backend_close_def)
qed

end

text \<open>
  C0: Duplicating a descriptor onto itself frees the file. If descriptor \<open>fd\<close> is the only reference
  to a node, \<^verbatim>\<open>vfs_dup2(fd, fd)\<close> reports success, but it has closed the backend handle and marked the
  node free before taking the new reference: the descriptor still points to the node, whose number
  is 0 and whose handle no longer exists.
\<close>

theorem vfs_dup2_self_frees_node:
  assumes inv: "ram_fd_inv K st" and cur: "sched_current st = Some p" and fd: "unat fd < 256"
    and slot: "fd_tables st ! p ! unat fd = Some n" and only: "refs (fd_tables st) n = 1" "n \<notin> K"
    and be: "vn_backend (g_nodes st ! n) \<noteq> None"
  shows "\<exists>st'. vfs_dup2 st fd fd = Some (int (unat fd), st') \<and> fd_tables st' ! p ! unat fd = Some n \<and>
    node_id (g_nodes st' ! n) = 0 \<and> vn_refcount (g_nodes st' ! n) = 1 \<and> vn_bctx (g_nodes st' ! n) \<notin> ram_handles (world st')"
proof -
  note l = fd_inv_locked[OF inv]
  let ?st = "st\<lparr>g_vfs_lock := 1\<rparr>"
  have tb: "tables_ok st" and core: "vfs_core ramfs_mounted ram_inv ram_handles (all_refs K st) (set_fd p (unat fd) None ?st)"
    using inv by (simp_all add: fd_inv_def fd_core_def vfs_core_def set_fd_def)
  have p: "p < length (fd_tables st)" "length (fd_tables st ! p) = 256" using tb cur by (auto simp: tables_ok_def)
  have one: "all_refs K st n = 1" using only by (simp add: all_refs_def)
  obtain b where b: "vn_backend (g_nodes st ! n) = Some b" using be by auto
  have g: "g_nodes (set_fd p (unat fd) None ?st) = g_nodes st" by (simp add: set_fd_def)
  obtain w' where d: "drop_ref n (set_fd p (unat fd) None ?st) = Some ((set_fd p (unat fd) None ?st)\<lparr>g_nodes := (g_nodes st)[n := (g_nodes st ! n)\<lparr>vn_refcount := 0, node_id := 0\<rparr>], world := w'\<rparr>)"
    "n < length (g_nodes st)" "vn_bctx (g_nodes st ! n) \<notin> ram_handles w'"
    using ram.drop_last_ref[OF core one, unfolded g, OF b] by blast
  show ?thesis
    using cur p fd slot l(1) d by (simp add: vfs_dup2_def MAX_FDS_def pcb_fd_table_def Let_def) (simp add: set_fd_def upd_node_def vfs_unlock_def)
qed

text \<open>
  C38: Any process can close any file. A descriptor number from 256 on names a node directly, with no
  check that the caller owns it. If a node is referred to once, from the table of some process, then
  closing its number from any other process succeeds, and the owner's descriptor is left pointing to
  a freed node and a closed handle.
\<close>

theorem vfs_close_by_number_frees_foreign_node:
  assumes inv: "ram_fd_inv K st" and slot: "p < length (fd_tables st)" "i < 256" "fd_tables st ! p ! i = Some n"
    and only: "refs (fd_tables st) n = 1" "n \<notin> K" and be: "vn_backend (g_nodes st ! n) \<noteq> None"
  shows "\<exists>st'. vfs_close (st\<lparr>sched_current := q\<rparr>) (of_nat (256 + n)) = Some (0, st') \<and> fd_tables st' ! p ! i = Some n \<and>
    node_id (g_nodes st' ! n) = 0 \<and> vn_bctx (g_nodes st' ! n) \<notin> ram_handles (world st')"
proof -
  let ?st = "st\<lparr>sched_current := q, g_vfs_lock := 1\<rparr>"
  have l: "vfs_acquire (st\<lparr>sched_current := q\<rparr>) = Some ?st" using inv by (simp add: fd_inv_def vfs_acquire_free)
  have core: "vfs_core ramfs_mounted ram_inv ram_handles (all_refs K st) ?st"
    using inv by (simp add: fd_inv_def fd_core_def vfs_core_def)
  have one: "all_refs K st n = 1" using only by (simp add: all_refs_def)
  have pos: "0 < all_refs K st n" using one by simp
  note N = ram.core_node[OF core]
  note n = nodes_okD(2)[OF N pos] nodes_okD(3)[OF N pos]
  obtain b where b: "vn_backend (g_nodes ?st ! n) = Some b" using be by auto
  obtain w' where d: "drop_ref n ?st = Some (?st\<lparr>g_nodes := (g_nodes st)[n := (g_nodes st ! n)\<lparr>vn_refcount := 0, node_id := 0\<rparr>], world := w'\<rparr>)"
    "n < length (g_nodes st)" "vn_bctx (g_nodes st ! n) \<notin> ram_handles w'"
    using ram.drop_last_ref[OF core one b] by auto
  have u: "unat (of_nat (256 + n) :: u32) = 256 + n" using n(1) by (simp add: unat_of_nat take_bit_nat_eq_self del: of_nat_add)
  have f: "fd_node ?st (of_nat (256 + n)) = Some (Some n)" using n u by (simp add: fd_node_def MAX_FDS_def MAX_VFSNODES_def node_ok_def del: of_nat_add)
  have "\<not> (of_nat (256 + n) :: u32) \<le> 2" using u by (simp add: word_le_nat_alt del: of_nat_add)
  then show ?thesis using l f d slot u by (simp add: vfs_close_def MAX_FDS_def vfs_unlock_def del: of_nat_add)
qed

subsection \<open>A state with one open file\<close>

definition demo_file :: u64 where
  "demo_file = obj_ptr (demo_slab, 4, 0)"

definition demo_world :: fsw where
  "demo_world = (\<lparr>port_table = [], g_port_lock = 0, port_heap = demo_heap, kbufs = (\<lambda>_. None), wakeups = []\<rparr>,
     \<lparr>filesystems = replicate 3 (empty_ramfs (str ''/'')), s_root = zero_entry,
      open_files = [demo_file \<mapsto> \<lparr>rf_fs = 1, rf_entry = Slot 0, rf_offset = 0\<rparr>], stale = (\<lambda>_ _. 0)\<rparr>)"

definition demo_node :: vfsnode where
  "demo_node = zero_node\<lparr>node_id := 1, vn_refcount := 1, vn_flags := VFS_O_READ OR VFS_O_WRITE, vn_size := 0, vn_backend := Some 0, vn_bctx := demo_file\<rparr>"

definition demo_vfs :: "fsw vfs" where
  "demo_vfs = \<lparr>g_nodes = (replicate 1024 zero_node)[1 := demo_node],
     g_backends = (replicate 16 zero_backend)[0 := \<lparr>be_name = replicate 64 0, mount_pt = str ''/'', be_ops = ramfs_ops, be_ctx = Some 1, be_id = 1\<rparr>],
     g_vfs_lock = 0, g_next_node_id = 2, fd_tables = [(replicate 256 None)[3 := Some 1]], sched_current = Some 0,
     rings = (\<lambda>_. None), world = demo_world\<rparr>"

lemma demo_handle: "heap_ok demo_heap" "heap_owned demo_heap = {demo_file}" "demo_file \<noteq> 0"
proof -
  show "heap_ok demo_heap" using demo_heap_inv by (auto simp: heap_ok_def)
  have "{x \<in> live demo_heap. small x} = {(demo_slab, 4, 0)}" by (auto simp: demo_live small_def)
  then show "heap_owned demo_heap = {demo_file}" by (simp add: heap_owned_def demo_file_def)
  show "demo_file \<noteq> 0" by code_simp
qed

lemma demo_entry: "ok_ref k r \<Longrightarrow> entry_of demo_world k r = zero_entry"
  by (cases r) (simp_all add: ok_ref_def entry_of_def fs_of_def demo_world_def empty_ramfs_def RAMFS_MAX_FILES_def)

lemma demo_ram_inv: "ram_inv demo_world" "ram_handles demo_world = {demo_file}"
proof -
  have z: "entry_ok h kb zero_entry" for h kb
    by (simp add: entry_ok_def zero_entry_def RAMFS_NAME_LEN_def terminated_def)
  have d0: "re_data zero_entry = 0" by (simp add: zero_entry_def)
  have "ram_inv4 (port_heap (fst demo_world)) (kbufs (fst demo_world)) (entry_of demo_world) (open_files (snd demo_world))"
    unfolding ram_inv4_def using demo_handle
    by (auto simp: demo_entry z d0) (auto simp: demo_world_def ok_ref_def split: if_splits)
  moreover have "shape (snd demo_world)" "locks demo_world = replicate 3 0"
    by (simp_all add: shape_def locks_def demo_world_def empty_ramfs_def RAMFS_MAX_FILES_def)
  ultimately show "ram_inv demo_world" by (simp add: ram_inv_def)
  show "ram_handles demo_world = {demo_file}" by (simp add: ram_handles_def demo_world_def)
qed

lemma demo_tables: "refs (fd_tables demo_vfs) n = of_bool (n = 1)" "fd_tables demo_vfs ! 0 ! 3 = Some 1" "length (fd_tables demo_vfs) = 1"
proof -
  have "refs [(replicate 256 None)[3 := Some (1::nat)]] n = of_bool (n = 1)"
    using refs_set[of 0 "[replicate 256 None]" 3 "Some 1" n] by (auto simp: refs_def count_list_0_iff)
  then show "refs (fd_tables demo_vfs) n = of_bool (n = 1)" by (simp add: demo_vfs_def)
  show "fd_tables demo_vfs ! 0 ! 3 = Some 1" "length (fd_tables demo_vfs) = 1" by (simp_all add: demo_vfs_def)
qed

lemma demo_nodes: "n < 1024 \<Longrightarrow> g_nodes demo_vfs ! n = (if n = 1 then demo_node else zero_node)" "length (g_nodes demo_vfs) = 1024"
  by (simp_all add: demo_vfs_def nth_list_update)

lemma demo_fd_inv: "ram_fd_inv {} demo_vfs"
proof -
  have R: "all_refs {} demo_vfs = (\<lambda>n. of_bool (n = 1))" by (simp add: fun_eq_iff all_refs_def demo_tables(1))
  have B: "g_backends demo_vfs ! 0 = \<lparr>be_name = replicate 64 0, mount_pt = str ''/'', be_ops = ramfs_ops, be_ctx = Some 1, be_id = 1\<rparr>"
    "length (g_backends demo_vfs) = 16" "world demo_vfs = demo_world" "g_vfs_lock demo_vfs = 0"
    by (simp_all add: demo_vfs_def)
  have "nodes_ok (g_backends demo_vfs) (ram_handles (world demo_vfs)) (all_refs {} demo_vfs) (g_nodes demo_vfs)"
    unfolding nodes_ok_def R
    by (auto simp: demo_nodes node_ok_def demo_node_def zero_node_def B demo_ram_inv(2))
  moreover have "be_id be \<noteq> 0 \<longrightarrow> ramfs_mounted (be_ops be) (be_ctx be) \<and> terminated (mount_pt be)" if be: "be \<in> set (g_backends demo_vfs)" for be
  proof -
    obtain i where i: "i < 16" "be = g_backends demo_vfs ! i" using be unfolding in_set_conv_nth B(2) by blast
    then have "i = 0 \<or> be = zero_backend" by (cases i) (simp_all add: demo_vfs_def)
    then show ?thesis using i(2) B(1) by (auto simp: ramfs_mounted_def terminated_def str_def zero_backend_def)
  qed
  moreover have "tables_ok demo_vfs"
    by (simp add: tables_ok_def demo_vfs_def)
  ultimately show ?thesis using B demo_ram_inv(1) by (simp add: fd_inv_def fd_core_def vfs_core_def)
qed

lemma demo_backend: "vn_backend (g_nodes demo_vfs ! 1) \<noteq> None"
  by (simp add: demo_nodes demo_node_def)

lemma demo_dup: "\<exists>st'. fd_run ({}, demo_vfs) [Dup2 3 5] ({}, st') \<and> fd_tables st' ! 0 ! 5 = Some 1 \<and> length (fd_tables st') = 1"
proof -
  have "\<exists>st'. vfs_dup2 demo_vfs 3 5 = Some (5, st') \<and> fd_tables st' ! 0 ! 5 = Some 1 \<and> length (fd_tables st') = 1"
    by (simp add: demo_vfs_def vfs_dup2_def MAX_FDS_def pcb_fd_table_def vfs_acquire_def Let_def set_fd_def upd_node_def vfs_unlock_def)
  then show ?thesis using fd_step.dup2[of "{}" demo_vfs 3 5] fd_run.cons fd_run.nil by fastforce
qed


theorem fd_operations_complete_witness:
  "\<exists>K' st'. fd_step ({}, demo_vfs) (Close 3) (K', st') \<and> ram_fd_inv K' st'"
  using fd_operations_complete[OF demo_fd_inv, of "Close 3"] by simp

theorem vfs_dup2_self_frees_node_witness:
  "\<exists>st'. vfs_dup2 demo_vfs 3 3 = Some (3, st') \<and> fd_tables st' ! 0 ! 3 = Some 1 \<and> node_id (g_nodes st' ! 1) = 0"
proof -
  have "sched_current demo_vfs = Some 0" by (simp add: demo_vfs_def)
  then show ?thesis
    using vfs_dup2_self_frees_node[OF demo_fd_inv, of 0 3 1] demo_tables demo_backend by auto
qed

theorem vfs_close_by_number_frees_foreign_node_witness:
  "\<exists>st'. vfs_close (demo_vfs\<lparr>sched_current := None\<rparr>) 257 = Some (0, st') \<and> fd_tables st' ! 0 ! 3 = Some 1 \<and> node_id (g_nodes st' ! 1) = 0"
  using vfs_close_by_number_frees_foreign_node[OF demo_fd_inv, of 0 3 1 None] demo_tables demo_backend by auto

end
