(* ===== verification/Vfs_File.thy ===== *)
theory Vfs_File
  imports Vfs_Misuse
begin

text \<open>
  Files as sequences of bytes. The interface \<open>byte_files\<close> extends \<open>file_backend\<close>: an open handle
  has a content and a position, and reading, writing and seeking act on them. The memory file
  system is an instance for files of 9 to 1024 bytes, the sizes for which the heap promises fresh
  blocks. Over the interface, what is written through a descriptor is read back through it.
\<close>

text \<open>
  Descriptor \<open>fd\<close> of the current process names node \<open>n\<close> of a backend; the file behind it has content
  \<open>c\<close> and its position is \<open>q\<close>.
\<close>

definition fd_file ::
  "('w \<Rightarrow> u64 \<Rightarrow> u8 list) \<Rightarrow> ('w \<Rightarrow> u64 \<Rightarrow> nat) \<Rightarrow> 'w vfs \<Rightarrow> u32 \<Rightarrow> nat \<Rightarrow> u8 list \<Rightarrow> nat \<Rightarrow> bool" where
  "fd_file content position st fd n c q \<longleftrightarrow> 3 \<le> unat fd \<and> unat fd < 256 \<and>
     (\<exists>p. sched_current st = Some p \<and> fd_tables st ! p ! unat fd = Some n) \<and> n < length (g_nodes st) \<and>
     vn_backend (g_nodes st ! n) \<noteq> None \<and> content (world st) (vn_bctx (g_nodes st ! n)) = c \<and>
     position (world st) (vn_bctx (g_nodes st ! n)) = q"

locale byte_files = file_backend good winv handles
  for good :: "(ports \<times> 's) vfs_ops \<Rightarrow> nat option \<Rightarrow> bool" and winv :: "ports \<times> 's \<Rightarrow> bool" and handles :: "ports \<times> 's \<Rightarrow> u64 set" +
  fixes content :: "ports \<times> 's \<Rightarrow> u64 \<Rightarrow> u8 list"
    and position :: "ports \<times> 's \<Rightarrow> u64 \<Rightarrow> nat"
    and sizes :: "nat set"
    and full :: "ports \<times> 's \<Rightarrow> nat \<Rightarrow> bool"
  assumes read_law: "good ops ctx \<Longrightarrow> winv w \<Longrightarrow> x \<in> handles w \<Longrightarrow> unat n \<le> length buf \<Longrightarrow>
      m = min (unat n) (length (content w x) - position w x) \<Longrightarrow>
      \<exists>f w'. op_read ops = Some f \<and>
        f ctx x buf n (Some g) w = Some (0, take m (drop (position w x) (content w x)) @ drop m buf, Some (of_nat m), w') \<and>
        winv w' \<and> handles w' = handles w \<and> content w' x = content w x \<and> position w' x = position w x + m"
    and write_law: "good ops ctx \<Longrightarrow> winv w \<Longrightarrow> x \<in> handles w \<Longrightarrow> unat n \<le> length buf \<Longrightarrow>
      position w x \<le> length (content w x) \<Longrightarrow> position w x + unat n \<in> sizes \<Longrightarrow>
      \<exists>f rc w'. op_write ops = Some f \<and> f ctx x buf n w = Some (rc, w') \<and> winv w' \<and> handles w' = handles w \<and>
        (rc = 0 \<and> position w' x = position w x + unat n \<and>
           content w' x = take (position w x) (content w x) @ take (unat n) buf @ drop (position w x + unat n) (content w x) \<or>
         rc = VFS_ENOSPC \<and> full w (position w x + unat n) \<and> position w' x = position w x \<and> content w' x = content w x)"
    and seek_law: "good ops ctx \<Longrightarrow> winv w \<Longrightarrow> x \<in> handles w \<Longrightarrow> 0 \<le> off \<Longrightarrow> nat off \<le> length (content w x) \<Longrightarrow>
      \<exists>f w'. op_seek ops = Some f \<and> f ctx x off VFS_SEEK_SET w = Some (off, w') \<and> winv w' \<and> handles w' = handles w \<and>
        content w' x = content w x \<and> position w' x = nat off"
begin

text \<open>A descriptor of the current process that names a node of a backend.\<close>

lemma open_file:
  assumes inv: "fd_inv good winv handles K st" and cur: "sched_current st = Some p" and fd: "3 \<le> unat fd" "unat fd < 256"
    and slot: "fd_tables st ! p ! unat fd = Some n" and be: "vn_backend (g_nodes st ! n) \<noteq> None"
  obtains b where "vn_backend (g_nodes st ! n) = Some b" "good (be_ops (g_backends st ! b)) (be_ctx (g_backends st ! b))"
    "vn_bctx (g_nodes st ! n) \<in> handles (world st)" "vn_ring (g_nodes st ! n) = 0" "vn_port_id (g_nodes st ! n) = 0" "winv (world st)"
    "\<not> fd \<le> 2" "vfs_acquire st = Some (st\<lparr>g_vfs_lock := 1\<rparr>)" "fd_node (st\<lparr>g_vfs_lock := 1\<rparr>) fd = Some (Some n)"
proof -
  have core: "vfs_core good winv handles (all_refs K st) st" and tb: "tables_ok st" using inv by (simp_all add: fd_inv_def fd_core_def)
  have p: "p < length (fd_tables st)" using tb cur by (simp add: tables_ok_def)
  have "node_ok (g_backends st) (handles (world st)) n (all_refs K st n) (g_nodes st ! n)"
    using nodes_okD(3)[OF core_node[OF core] slot_refs[OF tb p fd(2) slot]] .
  moreover have "\<not> fd \<le> 2" using fd(1) by (simp add: word_le_nat_alt)
  moreover have "fd_node (st\<lparr>g_vfs_lock := 1\<rparr>) fd = Some (Some n)"
    using cur fd(2) slot p by (simp add: fd_node_def MAX_FDS_def pcb_fd_table_def)
  moreover have "winv (world st)" using core by (simp add: vfs_core_def)
  ultimately show thesis using that be core_backend[OF core] fd_inv_locked(1)[OF inv] by (auto simp: node_ok_def)
qed

text \<open>What an operation on the file leaves: the invariant, the descriptor and the node's identity.\<close>

lemma keep_file:
  assumes inv: "fd_inv good winv handles K st" and w: "winv w" "handles w = handles (world st)"
  shows "fd_inv good winv handles K (vfs_unlock (upd_node n (\<lambda>x. x\<lparr>vn_offset := v\<rparr>) (st\<lparr>g_vfs_lock := 1, world := w\<rparr>)))"
    "fd_inv good winv handles K (vfs_unlock (st\<lparr>g_vfs_lock := 1, world := w\<rparr>))"
  using inv w
  by (simp_all add: fd_inv_def fd_core_def tables_ok_def vfs_core_def all_refs_def[abs_def] upd_node_def nodes_same[where g = "\<lambda>x. x\<lparr>vn_offset := v\<rparr>"])

lemma write_fd:
  assumes inv: "fd_inv good winv handles K st" and f: "fd_file content position st fd n c q"
    and m: "unat m = length data" "m \<noteq> 0" "q \<le> length c" "q + length data \<in> sizes"
  shows "\<exists>rc st'. vfs_write pause st fd (Some data) m = Some (rc, st') \<and> fd_inv good winv handles K st' \<and>
    (rc = 0 \<and> fd_file content position st' fd n (take q c @ data @ drop (q + length data) c) (q + length data) \<or>
     rc = VFS_ENOSPC \<and> full (world st) (q + length data) \<and> fd_file content position st' fd n c q)"
proof -
  let ?x = "vn_bctx (g_nodes st ! n)"
  obtain p where fd: "3 \<le> unat fd" "unat fd < 256" "sched_current st = Some p" "fd_tables st ! p ! unat fd = Some n" "vn_backend (g_nodes st ! n) \<noteq> None"
    and c: "content (world st) ?x = c" "position (world st) ?x = q" and nl: "n < length (g_nodes st)" using f by (auto simp: fd_file_def)
  obtain b where b: "vn_backend (g_nodes st ! n) = Some b" "good (be_ops (g_backends st ! b)) (be_ctx (g_backends st ! b))"
    "?x \<in> handles (world st)" "vn_ring (g_nodes st ! n) = 0" "vn_port_id (g_nodes st ! n) = 0" "winv (world st)"
    "\<not> fd \<le> 2" "vfs_acquire st = Some (st\<lparr>g_vfs_lock := 1\<rparr>)" "fd_node (st\<lparr>g_vfs_lock := 1\<rparr>) fd = Some (Some n)"
    using open_file[OF inv fd(3,1,2,4,5)] by blast
  obtain g rc w' where g: "op_write (be_ops (g_backends st ! b)) = Some g" "g (be_ctx (g_backends st ! b)) ?x data m (world st) = Some (rc, w')"
    "winv w'" "handles w' = handles (world st)"
    "rc = 0 \<and> position w' ?x = q + length data \<and> content w' ?x = take q c @ data @ drop (q + length data) c \<or>
     rc = VFS_ENOSPC \<and> full (world st) (q + length data) \<and> position w' ?x = q \<and> content w' ?x = c"
    using write_law[OF b(2,6,3), of m data] m c by auto
  note k = keep_file[OF inv g(3,4)]
  have run: "vfs_write pause st fd (Some data) m = Some (rc, vfs_unlock (if rc = 0
      then upd_node n (\<lambda>x. x\<lparr>vn_offset := vn_offset x + m\<rparr>) (st\<lparr>g_vfs_lock := 1, world := w'\<rparr>) else st\<lparr>g_vfs_lock := 1, world := w'\<rparr>))"
    using b g(1,2) m(2) by (simp add: vfs_write_def Let_def)
  have o: "upd_node n (\<lambda>x. x\<lparr>vn_offset := vn_offset x + m\<rparr>) s = upd_node n (\<lambda>x. x\<lparr>vn_offset := vn_offset (g_nodes s ! n) + m\<rparr>) s" for s :: "(ports \<times> 's) vfs"
    by (simp add: upd_node_def)
  show ?thesis
  proof (cases "rc = 0")
    case True
    then show ?thesis
      using run k(1)[of n] g(5) fd nl unfolding o by (auto simp: fd_file_def upd_node_def vfs_errors)
  next
    case False
    then show ?thesis using run k(2) g(5) fd nl by (auto simp: fd_file_def)
  qed
qed

lemma seek_fd:
  assumes inv: "fd_inv good winv handles K st" and f: "fd_file content position st fd n c q" and o: "q' \<le> length c"
  shows "\<exists>st'. vfs_seek st fd (int q') VFS_SEEK_SET = Some (int q', st') \<and> fd_inv good winv handles K st' \<and> fd_file content position st' fd n c q'"
proof -
  let ?x = "vn_bctx (g_nodes st ! n)"
  obtain p where fd: "3 \<le> unat fd" "unat fd < 256" "sched_current st = Some p" "fd_tables st ! p ! unat fd = Some n" "vn_backend (g_nodes st ! n) \<noteq> None"
    and c: "content (world st) ?x = c" "position (world st) ?x = q" and nl: "n < length (g_nodes st)" using f by (auto simp: fd_file_def)
  obtain b where b: "vn_backend (g_nodes st ! n) = Some b" "good (be_ops (g_backends st ! b)) (be_ctx (g_backends st ! b))"
    "?x \<in> handles (world st)" "vn_ring (g_nodes st ! n) = 0" "vn_port_id (g_nodes st ! n) = 0" "winv (world st)"
    "\<not> fd \<le> 2" "vfs_acquire st = Some (st\<lparr>g_vfs_lock := 1\<rparr>)" "fd_node (st\<lparr>g_vfs_lock := 1\<rparr>) fd = Some (Some n)"
    using open_file[OF inv fd(3,1,2,4,5)] by blast
  obtain g w' where g: "op_seek (be_ops (g_backends st ! b)) = Some g" "g (be_ctx (g_backends st ! b)) ?x (int q') VFS_SEEK_SET (world st) = Some (int q', w')"
    "winv w'" "handles w' = handles (world st)" "content w' ?x = c" "position w' ?x = q'"
    using seek_law[OF b(2,6,3), of "int q'"] o c by auto
  have run: "vfs_seek st fd (int q') VFS_SEEK_SET = Some (int q', vfs_unlock (upd_node n (\<lambda>x. x\<lparr>vn_offset := of_int (int q')\<rparr>) (st\<lparr>g_vfs_lock := 1, world := w'\<rparr>)))"
    using b g(1,2) by (simp add: vfs_seek_def Let_def)
  show ?thesis unfolding run using keep_file(1)[OF inv g(3,4), of n] g(5,6) fd nl by (auto simp: fd_file_def upd_node_def)
qed

lemma read_fd:
  assumes inv: "fd_inv good winv handles K st" and f: "fd_file content position st fd n c q" and m: "unat m \<le> length buf" "q + unat m \<le> length c"
  shows "\<exists>st'. vfs_read st fd (Some buf) m (Some k) = Some (0, Some (take (unat m) (drop q c) @ drop (unat m) buf), Some m, st') \<and>
    fd_inv good winv handles K st' \<and> fd_file content position st' fd n c (q + unat m)"
proof -
  let ?x = "vn_bctx (g_nodes st ! n)"
  obtain p where fd: "3 \<le> unat fd" "unat fd < 256" "sched_current st = Some p" "fd_tables st ! p ! unat fd = Some n" "vn_backend (g_nodes st ! n) \<noteq> None"
    and c: "content (world st) ?x = c" "position (world st) ?x = q" and nl: "n < length (g_nodes st)" using f by (auto simp: fd_file_def)
  obtain b where b: "vn_backend (g_nodes st ! n) = Some b" "good (be_ops (g_backends st ! b)) (be_ctx (g_backends st ! b))"
    "?x \<in> handles (world st)" "vn_ring (g_nodes st ! n) = 0" "vn_port_id (g_nodes st ! n) = 0" "winv (world st)"
    "\<not> fd \<le> 2" "vfs_acquire st = Some (st\<lparr>g_vfs_lock := 1\<rparr>)" "fd_node (st\<lparr>g_vfs_lock := 1\<rparr>) fd = Some (Some n)"
    using open_file[OF inv fd(3,1,2,4,5)] by blast
  have mm: "unat m = min (unat m) (length (content (world st) ?x) - position (world st) ?x)" using m(2) c by simp
  obtain g w' where g: "op_read (be_ops (g_backends st ! b)) = Some g"
    "g (be_ctx (g_backends st ! b)) ?x buf m (Some k) (world st) = Some (0, take (unat m) (drop q c) @ drop (unat m) buf, Some m, w')"
    "winv w'" "handles w' = handles (world st)" "content w' ?x = c" "position w' ?x = q + unat m"
    using read_law[OF b(2,6,3) m(1) mm, of k] c by auto
  have run: "vfs_read st fd (Some buf) m (Some k) = Some (0, Some (take (unat m) (drop q c) @ drop (unat m) buf), Some m,
      vfs_unlock (upd_node n (\<lambda>x. x\<lparr>vn_offset := vn_offset (g_nodes st ! n) + m\<rparr>) (st\<lparr>g_vfs_lock := 1, world := w'\<rparr>)))"
    using b g(1,2) by (simp add: vfs_read_def Let_def upd_node_def)
  show ?thesis unfolding run using keep_file(1)[OF inv g(3,4), of n] g(5,6) fd nl by (auto simp: fd_file_def upd_node_def)
qed

text \<open>Writing, going back and reading returns what was written, wherever in the file.\<close>

lemma write_seek_read:
  assumes inv: "fd_inv good winv handles K st" and f: "fd_file content position st fd n c q"
    and m: "unat m = length data" "m \<noteq> 0" "q \<le> length c" "q + length data \<in> sizes" "length buf = length data"
  shows "\<exists>rc st1. vfs_write pause st fd (Some data) m = Some (rc, st1) \<and>
    (rc = VFS_ENOSPC \<and> full (world st) (q + length data) \<and> fd_file content position st1 fd n c q \<or>
     rc = 0 \<and> (\<exists>st2 st3. vfs_seek st1 fd (int q) VFS_SEEK_SET = Some (int q, st2) \<and>
       vfs_read st2 fd (Some buf) m (Some k) = Some (0, Some data, Some m, st3) \<and>
       fd_file content position st3 fd n (take q c @ data @ drop (q + length data) c) (q + length data) \<and> fd_inv good winv handles K st3))"
proof -
  let ?c = "take q c @ data @ drop (q + length data) c"
  obtain rc st1 where s1: "vfs_write pause st fd (Some data) m = Some (rc, st1)" "fd_inv good winv handles K st1"
    "rc = 0 \<and> fd_file content position st1 fd n ?c (q + length data) \<or> rc = VFS_ENOSPC \<and> full (world st) (q + length data) \<and> fd_file content position st1 fd n c q"
    using write_fd[OF inv f m(1-4)] by blast
  show ?thesis
  proof (cases "rc = 0")
    case True
    then have f1: "fd_file content position st1 fd n ?c (q + length data)" using s1(3) by (auto simp: vfs_errors)
    obtain st2 where s2: "vfs_seek st1 fd (int q) VFS_SEEK_SET = Some (int q, st2)" "fd_inv good winv handles K st2" "fd_file content position st2 fd n ?c q"
      using seek_fd[OF s1(2) f1, of q] m(3) by auto
    obtain st3 where s3: "vfs_read st2 fd (Some buf) m (Some k) = Some (0, Some (take (unat m) (drop q ?c) @ drop (unat m) buf), Some m, st3)"
      "fd_inv good winv handles K st3" "fd_file content position st3 fd n ?c (q + unat m)"
      using read_fd[OF s2(2,3), of m buf k] m by auto
    have "take (unat m) (drop q ?c) @ drop (unat m) buf = data" using m by simp
    then show ?thesis using s1(1) s2 s3 True m(1) by auto
  next
    case False
    then show ?thesis using s1(1,3) by auto
  qed
qed

end

subsection \<open>The memory file system\<close>

interpretation ramf: byte_files ramfs_mounted ram_inv ram_handles ram_content ram_pos "{9..1024}" ram_full
proof (unfold_locales, goal_cases)
  case (1 ops ctx w x n buf m g)
  then show ?case using ramfs_read_ok[of w x n buf ctx g] by (auto simp: ramfs_mounted_def ramfs_ops_def Let_def)
next
  case (2 ops ctx w x n buf)
  then show ?case using ramfs_write_ok[of w x n buf ctx] by (auto simp: ramfs_mounted_def ramfs_ops_def)
next
  case (3 ops ctx w x off)
  then show ?case using ramfs_seek_set[of w x off ctx] by (auto simp: ramfs_mounted_def ramfs_ops_def)
qed



end
