(* ===== verification/Shm.thy ===== *)
theory Shm
  imports PageTable_Map Slab Spin_Lock KString
begin

text \<open>
  The kernel's own page tables and named shared memory, both of \<^verbatim>\<open>kernel/mm/mm.c\<close>:
  \<^verbatim>\<open>amm_kernel_pml4_init\<close> with its three maps, and \<^verbatim>\<open>amm_shmap\<close> and \<^verbatim>\<open>amm_shunmap\<close>, which map a
  block of the page allocator into the kernel's address space.

  \<^verbatim>\<open>mm_halt\<close> never returns, which is the outcome \<open>None\<close>.
\<close>

subsection \<open>The kernel page tables\<close>

definition AMM_IDENTITY_LIMIT :: u64 where "AMM_IDENTITY_LIMIT = 4 * 1024 * 1024 * 1024"
definition PAGE_INFO_BASE :: u64 where "PAGE_INFO_BASE = 0xFFFF880000000000"
definition HUGE_SIZE :: u64 where "HUGE_SIZE = push_bit 20 2"

text \<open>One 2 MB page: the tables above it are allocated on demand, and running out of frames halts.\<close>

definition map_huge :: "phys_state \<Rightarrow> u64 \<Rightarrow> u64 \<Rightarrow> u64 \<Rightarrow> phys_state option" where
  "map_huge s root va pa = do {
     (pdpt, s) \<leftarrow> walk_level s root (PML4_IDX va);
     pdpt \<leftarrow> pdpt;
     (pd, s) \<leftarrow> walk_level s pdpt (PDPT_IDX va);
     pd \<leftarrow> pd;
     Some (entry_put s pd (PD_IDX va) (pa OR PTE_PRESENT OR PTE_WRITE OR PTE_USER OR push_bit 7 1)) }"

partial_function (option) map_window :: "u64 \<Rightarrow> u64 \<Rightarrow> u64 \<Rightarrow> phys_state \<Rightarrow> u64 \<Rightarrow> phys_state option" where
  "map_window root base lim s pa =
     (if pa < lim then Option.bind (map_huge s root (base + pa) pa) (\<lambda>s. map_window root base lim s (pa + HUGE_SIZE))
      else Some s)"

declare map_window.simps [code]

text \<open>A page of the page-info array holds the entries of 512 frames, cleared.\<close>

definition clear_infos :: "u64 \<Rightarrow> phys_state \<Rightarrow> phys_state" where
  "clear_infos i s = s\<lparr>page_infos := (\<lambda>n. if drop_bit 9 n = i
     then Some \<lparr>pi_flags = 0, pi_order = 0, pi_refcount = 0, pi_map_count = 0, pi_reserved = 0\<rparr> else page_infos s n)\<rparr>"

partial_function (option) map_infos :: "u64 \<Rightarrow> u64 \<Rightarrow> phys_state \<Rightarrow> u64 \<Rightarrow> phys_state option" where
  "map_infos root pi_pages s i =
     (if i < pi_pages then do {
        (pa, s) \<leftarrow> amm_phys_alloc s 0;
        if pa = 0 then None
        else do {
          s \<leftarrow> map_page (zero_page s pa) root (PAGE_INFO_BASE + i * PAGE_SIZE) pa (1 OR PROT_WRITE);
          map_infos root pi_pages (clear_infos i s) (i + 1) } }
      else Some s)"

declare map_infos.simps [code]

definition amm_kernel_pml4_init :: "phys_state \<Rightarrow> (u64 \<times> phys_state) option" where
  "amm_kernel_pml4_init s = do {
     (p, s) \<leftarrow> amm_phys_alloc s 0;
     if p = 0 then None
     else do {
       let s = zero_page s p;
       s \<leftarrow> map_window p 0 AMM_IDENTITY_LIMIT s 0;
       let n_entries = drop_bit 12 (phys_top s) + 1;
       let pi_pages = drop_bit 12 (n_entries * 8 + PAGE_SIZE - 1);
       s \<leftarrow> map_infos p pi_pages s 0;
       let lim = (if phys_top s = 0 then AMM_IDENTITY_LIMIT else phys_top s);
       s \<leftarrow> map_window p PHYS_MAP_BASE lim s 0;
       Some (p, s\<lparr>early_boot := False\<rparr>) } }"

subsection \<open>Shared memory\<close>

definition MAX_SHM_ENTRIES :: nat where "MAX_SHM_ENTRIES = 256"
definition SHM_NAME_LEN :: nat where "SHM_NAME_LEN = 64"
definition SHM_KERNEL_VA_BASE :: u64 where "SHM_KERNEL_VA_BASE = 0xFFFFE80000000000"
definition SHM_CREATE :: u32 where "SHM_CREATE = 1"
definition SHM_RDONLY_USERLAND :: u32 where "SHM_RDONLY_USERLAND = 2"

record shm_entry =
  sh_name :: "u8 list"
  sh_paddr :: u64
  sh_size :: u64
  sh_va :: u64
  sh_refs :: u32
  sh_flags :: u32

record shm =
  g_shm_table :: "shm_entry list"
  g_shm_lock :: u32
  g_shm_va_next :: u64
  shm_phys :: phys_state
  g_kernel_cr3 :: u64

fun shm_find :: "nat \<Rightarrow> shm_entry list \<Rightarrow> u8 list \<Rightarrow> nat option option" where
  "shm_find i [] nm = Some None"
| "shm_find i (e # es) nm =
     (if hd (sh_name e) = 0 then shm_find (Suc i) es nm
      else do {
        c \<leftarrow> strcmp (sh_name e) nm;
        if c = 0 then Some (Some i) else shm_find (Suc i) es nm })"

definition upd_shm :: "nat \<Rightarrow> (shm_entry \<Rightarrow> shm_entry) \<Rightarrow> shm \<Rightarrow> shm" where
  "upd_shm i f st = st\<lparr>g_shm_table := (g_shm_table st)[i := f (g_shm_table st ! i)]\<rparr>"

definition shm_unlock :: "shm \<Rightarrow> shm" where
  "shm_unlock st = st\<lparr>g_shm_lock := spin_unlock (g_shm_lock st)\<rparr>"

definition shm_create :: "u8 list \<Rightarrow> u64 \<Rightarrow> u32 \<Rightarrow> shm \<Rightarrow> (nat option \<times> shm) option" where
  "shm_create nm sz fl st =
     (case first_idx (\<lambda>e. hd (sh_name e) = 0) (g_shm_table st) of
        None \<Rightarrow> Some (None, st)
      | Some i \<Rightarrow> do {
          order \<leftarrow> order_from sz 0;
          (p, ph) \<leftarrow> amm_phys_alloc (shm_phys st) order;
          if p = 0 then Some (None, st\<lparr>shm_phys := ph\<rparr>)
          else do {
            let ph = ph\<lparr>pmem := zero_mem (pmem ph) (kva_pa ph (phys_to_virt ph p)) (push_bit order PAGE_SIZE)\<rparr>;
            n \<leftarrow> strncpy (sh_name (g_shm_table st ! i)) nm SHM_NAME_LEN;
            Some (Some i, upd_shm i (\<lambda>e. e\<lparr>sh_name := n, sh_paddr := p, sh_size := sz, sh_refs := 0, sh_flags := fl, sh_va := 0\<rparr>)
              (st\<lparr>shm_phys := ph\<rparr>)) } })"

partial_function (option) map_range :: "u64 \<Rightarrow> u64 \<Rightarrow> u64 \<Rightarrow> u64 \<Rightarrow> int \<Rightarrow> phys_state \<Rightarrow> u64 \<Rightarrow> phys_state option" where
  "map_range root va pa sz prot s off =
     (if off < sz then Option.bind (map_page s root (va + off) (pa + off) prot) (\<lambda>s. map_range root va pa sz prot s (off + PAGE_SIZE))
      else Some s)"

declare map_range.simps [code]

definition amm_shmap :: "shm \<Rightarrow> u8 list \<Rightarrow> u64 \<Rightarrow> u32 \<Rightarrow> (u64 \<times> shm) option" where
  "amm_shmap st nm sz fl = do {
     let sz = PAGE_ALIGN sz;
     l \<leftarrow> spin_lock (g_shm_lock st);
     let st = st\<lparr>g_shm_lock := l\<rparr>;
     found \<leftarrow> shm_find 0 (g_shm_table st) nm;
     (e, st) \<leftarrow> (if found = None \<and> fl AND SHM_CREATE \<noteq> 0 then shm_create nm sz fl st else Some (found, st));
     (case e of
        None \<Rightarrow> Some (0, shm_unlock st)
      | Some i \<Rightarrow> do {
          let st = upd_shm i (\<lambda>e. e\<lparr>sh_refs := sh_refs e + 1\<rparr>) st;
          let st = (if sh_va (g_shm_table st ! i) = 0
                    then (upd_shm i (\<lambda>e. e\<lparr>sh_va := g_shm_va_next st\<rparr>) st)\<lparr>g_shm_va_next := g_shm_va_next st + sz\<rparr>
                    else st);
          let va = sh_va (g_shm_table st ! i);
          let st = shm_unlock st;
          let prot = (if fl AND SHM_RDONLY_USERLAND = 0 then 1 OR PROT_WRITE else 1);
          ph \<leftarrow> map_range (g_kernel_cr3 st) va (sh_paddr (g_shm_table st ! i)) sz (prot OR PROT_WRITE) (shm_phys st) 0;
          Some (va, st\<lparr>shm_phys := ph\<rparr>) }) }"

definition unmap_page :: "u64 \<Rightarrow> u64 \<Rightarrow> phys_state \<Rightarrow> phys_state option" where
  "unmap_page root va s = do {
     (pt, s) \<leftarrow> pt_walk_alloc s root va;
     Some (case pt of
         None \<Rightarrow> s
       | Some pt \<Rightarrow> if entry_get s pt (PT_IDX va) AND PTE_PRESENT \<noteq> 0 then entry_put s pt (PT_IDX va) 0 else s) }"

partial_function (option) unmap_range :: "u64 \<Rightarrow> u64 \<Rightarrow> u64 \<Rightarrow> phys_state \<Rightarrow> u64 \<Rightarrow> phys_state option" where
  "unmap_range root va sz s off =
     (if off < sz then Option.bind (unmap_page root (va + off) s) (\<lambda>s. unmap_range root va sz s (off + PAGE_SIZE))
      else Some s)"

declare unmap_range.simps [code]

definition amm_shunmap :: "shm \<Rightarrow> u64 \<Rightarrow> (int \<times> shm) option" where
  "amm_shunmap st addr =
     (if addr = 0 then Some (-1, st)
      else do {
        l \<leftarrow> spin_lock (g_shm_lock st);
        let st = st\<lparr>g_shm_lock := l\<rparr>;
        (case first_idx (\<lambda>e. hd (sh_name e) \<noteq> 0 \<and> addr \<ge> sh_va e \<and> addr < sh_va e + sh_size e) (g_shm_table st) of
           None \<Rightarrow> Some (-1, shm_unlock st)
         | Some i \<Rightarrow> do {
             let e = g_shm_table st ! i;
             ph \<leftarrow> unmap_range (g_kernel_cr3 st) (sh_va e) (sh_size e) (shm_phys st) 0;
             let st = upd_shm i (\<lambda>e. e\<lparr>sh_refs := sh_refs e - 1\<rparr>) (st\<lparr>shm_phys := ph\<rparr>);
             if sh_refs (g_shm_table st ! i) = 0 then do {
               order \<leftarrow> order_from (sh_size e) 0;
               ph \<leftarrow> amm_phys_free (shm_phys st) (sh_paddr e) order;
               Some (0, shm_unlock (upd_shm i (\<lambda>e. e\<lparr>sh_name := (sh_name e)[0 := 0], sh_paddr := 0, sh_size := 0, sh_va := 0, sh_flags := 0\<rparr>)
                 (st\<lparr>shm_phys := ph\<rparr>))) }
             else Some (0, shm_unlock st) }) })"

subsection \<open>Clearing a range\<close>

lemma pt_walk_present:
  assumes "\<not> early_boot s" "root AND PTE_ADDR_MASK = root" "walk (pmem s) root (idx3 va) = Some t"
  shows "pt_walk_alloc s root va = Some (Some t, s)"
  using assms
  by (auto simp: idx3_def pt_walk_alloc_def walk_level_def follow_def entry_get_eq Let_def split: if_splits bind_splits)

lemma unmap_page_spec:
  assumes ok: "buddy_ok T M s A" and wf: "pt_wf A (pmem s) root"
  shows "\<exists>s' A'. unmap_page root va s = Some s' \<and> buddy_ok T M s' A' \<and> pt_wf A' (pmem s') root \<and>
    leaf (pmem s') root (idx3 va) (PT_IDX va) AND PTE_PRESENT = 0 \<and>
    (\<forall>q j. is_path q \<longrightarrow> length q = 3 \<longrightarrow> j < 512 \<longrightarrow>
       leaf (pmem s') root q j = leaf (pmem s) root q j \<or> leaf (pmem s') root q j = 0)"
proof -
  have root: "root AND PTE_ADDR_MASK = root" using ok wf by (rule pt_wf_root)
  obtain r s1 A1 where 1: "pt_walk_alloc s root va = Some (r, s1)" "buddy_ok T M s1 A1"
    "pt_wf A1 (pmem s1) root" "\<forall>t. r = Some t \<longrightarrow> walk (pmem s1) root (idx3 va) = Some t"
    "same_leaves (pmem s) (pmem s1) root"
    using pt_walk_alloc_spec[OF ok wf root] by blast
  have same: "leaf (pmem s1) root q j = leaf (pmem s) root q j" if "is_path q" "length q = 3" "j < 512" for q j
    using 1(5) that by (simp add: same_leaves_def)
  show ?thesis
  proof (cases r)
    case None
    then have "walk (pmem s) root (idx3 va) = None"
      using pt_walk_present[OF buddy_ok_limits(2)[OF ok] root, of va] 1(1) by (cases "walk (pmem s) root (idx3 va)") auto
    then have "leaf (pmem s1) root (idx3 va) (PT_IDX va) = 0"
      using same[OF idx3_path idx_bounds(4)] by (simp add: leaf_def)
    then show ?thesis using 1 None same by (intro exI[of _ s1] exI[of _ A1]) (simp add: unmap_page_def)
  next
    case (Some t)
    have w: "walk (pmem s1) root (idx3 va) = Some t" using 1(4) Some by simp
    have e: "entry_get s1 t (PT_IDX va) = leaf (pmem s1) root (idx3 va) (PT_IDX va)"
      using w buddy_ok_limits(2)[OF 1(2)] by (simp add: leaf_def entry_get_eq)
    note put = leaf_put[OF 1(2,3) w, where v = 0]
    show ?thesis
    proof (cases "entry_get s1 t (PT_IDX va) AND PTE_PRESENT = 0")
      case True
      then show ?thesis using 1 Some e same by (intro exI[of _ s1] exI[of _ A1]) (simp add: unmap_page_def)
    next
      case False
      then have "unmap_page root va s = Some (entry_put s1 t (PT_IDX va) 0)"
        using 1(1) Some by (simp add: unmap_page_def)
      moreover have "leaf (pmem (entry_put s1 t (PT_IDX va) 0)) root (idx3 va) (PT_IDX va) = 0"
        using put(3)[OF idx3_path idx_bounds(4)] by simp
      ultimately show ?thesis using put same by fastforce
    qed
  qed
qed

lemma unmap_range_spec:
  assumes "buddy_ok T M s A" "pt_wf A (pmem s) root" "unat sz = 4096 * n" "i \<le> n"
  shows "\<exists>s' A'. unmap_range root va sz s (of_nat (4096 * i)) = Some s' \<and> buddy_ok T M s' A' \<and> pt_wf A' (pmem s') root \<and>
    (\<forall>j. i \<le> j \<and> j < n \<longrightarrow> leaf (pmem s') root (idx3 (va + of_nat (4096 * j))) (PT_IDX (va + of_nat (4096 * j))) AND PTE_PRESENT = 0) \<and>
    (\<forall>q j. is_path q \<longrightarrow> length q = 3 \<longrightarrow> j < 512 \<longrightarrow>
       leaf (pmem s') root q j = leaf (pmem s) root q j \<or> leaf (pmem s') root q j = 0)"
  using assms
proof (induction "n - i" arbitrary: i s A)
  case 0
  then have "i = n" by simp
  moreover have "sz = of_nat (4096 * n)" using 0(4) by (metis of_nat_unat ucast_id)
  ultimately show ?case using 0 by (subst unmap_range.simps) auto
next
  case (Suc d)
  then have i: "i < n" by simp
  have "unat sz < 2 ^ 64" using unsigned_less[of sz] by simp
  then have "4096 * n < 2 ^ 64" using Suc.prems(3) by simp
  then have lt: "of_nat (4096 * i) < sz" using i Suc.prems(3)
    by (simp add: word_less_nat_alt unsigned_of_nat take_bit_nat_eq_self del: of_nat_mult)
  let ?va = "va + of_nat (4096 * i)"
  obtain s1 A1 where 1: "unmap_page root ?va s = Some s1" "buddy_ok T M s1 A1" "pt_wf A1 (pmem s1) root"
    "leaf (pmem s1) root (idx3 ?va) (PT_IDX ?va) AND PTE_PRESENT = 0"
    "\<forall>q j. is_path q \<longrightarrow> length q = 3 \<longrightarrow> j < 512 \<longrightarrow> leaf (pmem s1) root q j = leaf (pmem s) root q j \<or> leaf (pmem s1) root q j = 0"
    using unmap_page_spec[OF Suc.prems(1,2)] by blast
  obtain s2 A2 where 2: "unmap_range root va sz s1 (of_nat (4096 * Suc i)) = Some s2" "buddy_ok T M s2 A2" "pt_wf A2 (pmem s2) root"
    "\<forall>j. Suc i \<le> j \<and> j < n \<longrightarrow> leaf (pmem s2) root (idx3 (va + of_nat (4096 * j))) (PT_IDX (va + of_nat (4096 * j))) AND PTE_PRESENT = 0"
    "\<forall>q j. is_path q \<longrightarrow> length q = 3 \<longrightarrow> j < 512 \<longrightarrow> leaf (pmem s2) root q j = leaf (pmem s1) root q j \<or> leaf (pmem s2) root q j = 0"
  proof -
    have "d = n - Suc i" "Suc i \<le> n" using Suc.hyps(2) i by simp_all
    from Suc.hyps(1)[OF this(1) 1(2,3) Suc.prems(3) this(2)] show ?thesis using that by blast
  qed
  have next_off: "of_nat (4096 * i) + PAGE_SIZE = of_nat (4096 * Suc i)" by simp
  have step: "unmap_range root va sz s (of_nat (4096 * i)) = Some s2"
    using lt 1(1) 2(1) by (subst unmap_range.simps) (simp only: if_True bind.bind_lunit next_off)
  have first: "leaf (pmem s2) root (idx3 ?va) (PT_IDX ?va) AND PTE_PRESENT = 0"
    using 2(5)[rule_format, OF idx3_path idx_bounds(4), of ?va ?va] 1(4) by auto
  have "\<forall>j. i \<le> j \<and> j < n \<longrightarrow> leaf (pmem s2) root (idx3 (va + of_nat (4096 * j))) (PT_IDX (va + of_nat (4096 * j))) AND PTE_PRESENT = 0"
  proof (intro allI impI)
    fix j assume "i \<le> j \<and> j < n"
    then show "leaf (pmem s2) root (idx3 (va + of_nat (4096 * j))) (PT_IDX (va + of_nat (4096 * j))) AND PTE_PRESENT = 0"
      using first 2(4) by (cases "j = i") auto
  qed
  moreover have "\<forall>q j. is_path q \<longrightarrow> length q = 3 \<longrightarrow> j < 512 \<longrightarrow> leaf (pmem s2) root q j = leaf (pmem s) root q j \<or> leaf (pmem s2) root q j = 0"
    using 1(5) 2(5) by metis
  ultimately show ?case using step 2(2,3) by blast
qed


definition shm_demo :: shm where
  "shm_demo = \<lparr>g_shm_table = [\<lparr>sh_name = [98, 117, 115] @ replicate 61 0, sh_paddr = 0x2000, sh_size = 0x1000, sh_va = SHM_KERNEL_VA_BASE, sh_refs = 2, sh_flags = 1\<rparr>],
     g_shm_lock = 0, g_shm_va_next = SHM_KERNEL_VA_BASE + 0x1000, shm_phys = pt_demo, g_kernel_cr3 = 0x2000\<rparr>"


end
