(* ===== verification/Spec2Isabelle.thy ===== *)
theory Spec2Isabelle
  imports Ring_Batch PageTable_Map Region Port_Table Security_Props Usr_Load Vfs_File Shm
begin

text \<open>
  \<^bold>\<open>A verification library for the OpenASD kernel\<close>

  OpenASD is a kernel for x86-64 in freestanding C. The library follows its layers from the bottom
  up: byte strings and ring buffers; physical pages, address spaces, page tables, the kernel heap
  and shared memory; message ports, which combine rings and heap; the security module and the
  account database; the file system layer and the memory file system on top of the heap. Paths
  below are relative to \<^verbatim>\<open>src/kernel\<close>.

  \<^bold>\<open>Conventions.\<close> A C integer is a word of its width, so wrap-around is the arithmetic of the type. A
  buffer is a list of bytes and an access outside it is a fault. A function that can fault returns
  an option whose \<open>None\<close> is the fault; undefined behaviour, an endless loop, \<^verbatim>\<open>mm_halt\<close> and a lock
  that its own holder asks for again are the same outcome. Error codes are the integers of the
  code. The operations run to completion one after the other; what another processor does in
  between is a parameter where the code allows for it (the retry loop of \<^verbatim>\<open>port_send\<close>). Loops are
  structural recursion or recursion with a termination measure where the bound is visible, and
  \<open>partial_function (option)\<close> otherwise; every property about such a loop states that it returns.
  No fuel is used.

  \<^bold>\<open>Components.\<close>

  \<^item> \<open>Prelude\<close>: word types, bounds-checked buffers, first-match scans, power-of-two masks. \<open>Bytes\<close>:
    little-endian words. \<open>Spin_Lock\<close>: the spin lock of all components.
  \<^item> \<open>KString\<close>: \<^verbatim>\<open>lib/string.c\<close>, every routine against the string a buffer holds.
  \<^item> \<open>Ringbuf\<close>, \<open>Ring_Batch\<close>: \<^verbatim>\<open>ipc/ringbuf.h\<close>. Any sequence of pushes and pops refines a bounded
    queue; the batch operations equal repeated single ones. The locale \<open>slot_fifo\<close> states the
    queue contract and is interpreted on the ring.
  \<^item> \<open>Buddy\<close> and \<open>Buddy_Blocks\<close>, \<open>Buddy_Inv\<close>, \<open>Buddy_Ops\<close>, \<open>Buddy_Init\<close>, \<open>Block_Alloc\<close>: the page
    allocator of \<^verbatim>\<open>mm/mm.c\<close> with its intrusive free lists in physical memory. The invariant tiles
    memory into free and allocated blocks; allocation, release and initialisation keep it, blocks
    never overlap, and a free block at address 0 is lost. Locale \<open>block_allocator\<close>.
  \<^item> \<open>Region\<close>: the sorted region list of an address space. \<open>PageTable\<close>, \<open>PageTable_Map\<close>: four-level
    tables in that memory; mapping a page changes the translation of that page and no other, and
    writes into a 2 MB page where one is present. Locale \<open>frame_store\<close> of \<open>Frame_Store\<close>.
  \<^item> \<open>Shm\<close>: the kernel's own tables and named shared memory; releasing one reference unmaps all.
  \<^item> \<open>Slab\<close>, \<open>Slab_Heap\<close>, \<open>Kernel_Heap\<close>: \<^verbatim>\<open>kmalloc\<close> and \<^verbatim>\<open>kfree\<close>. Objects of 9 to 4096 bytes are fresh
    and disjoint; the classes of 8 and 2048 bytes are shown to fail. Locale \<open>kernel_heap\<close> is what
    the clients of the heap use, for requests of 9 to 1024 bytes.
  \<^item> \<open>Port\<close>, \<open>Port_Queue\<close>, \<open>Port_Table\<close>: \<^verbatim>\<open>ipc/port.c\<close> on rings and heap: send and receive refine
    the queue of messages of the port; open and close; a receiver of a destroyed port sleeps again.
  \<^item> \<open>Security\<close>, \<open>Security_Props\<close>: \<^verbatim>\<open>security/security.c\<close>: entropy pool, audit ring, login limiter.
  \<^item> \<open>Usr\<close>, \<open>Usr_Passwd\<close>, \<open>Usr_Accounts\<close>, \<open>Usr_Roundtrip\<close>, \<open>Usr_Load\<close>: \<^verbatim>\<open>usr/usr.c\<close>: accounts, password
    check, permissions; the account file written is read back; the loader terminates on any text.
  \<^item> \<open>Vfs_Path\<close>, \<open>Vfs\<close>, \<open>Ramfs\<close>: \<^verbatim>\<open>vfs/vfs.c\<close> and \<^verbatim>\<open>vfs/ramfs.c\<close>. A backend is the record of its
    operations over an abstract state; the memory file system is one on the model of the heap.
    \<open>Ramfs_Inv\<close>, \<open>Ramfs_Ops\<close>: its invariant ties entries, handles and heap blocks; each operation
    keeps it and acts on the bytes of the file. \<open>Vfs_Fd\<close>, \<open>Vfs_Fd_Ops\<close>, \<open>Vfs_Open\<close>, \<open>Vfs_Run\<close>: over
    the interface \<open>file_backend\<close>, reference counts stay exact in every run of descriptor operations
    and every operation completes. \<open>Vfs_Misuse\<close>: the two calls that break this. \<open>Vfs_File\<close>: over
    \<open>byte_files\<close>, which extends it, what is written is read back. Both locales are interpreted on
    the memory file system.

  \<^bold>\<open>Not modelled.\<close> Code that only drives hardware or talks to the boot firmware: \<^verbatim>\<open>arch\<close> (descriptor
  tables, interrupt controllers, timer, assembly entries), \<^verbatim>\<open>drv\<close>, \<^verbatim>\<open>console\<close>, \<^verbatim>\<open>entry.c\<close>, the boot
  loader \<^verbatim>\<open>src/boot\<close>. Not yet modelled: the system call layer, the ELF and Mach-O loaders, the
  network stack and TLS, the disk file systems FAT32 and FFS, the block layer, \<^verbatim>\<open>src/init\<close> and
  \<^verbatim>\<open>src/userland\<close>. Within the modelled files: the weak memory order of the atomics of the ring, the
  stack-smash handler, and interleavings other than those named above.
\<close>

end
